(* ===== verification/Prelude.thy ===== *)
theory Prelude
  imports Main "HOL-Library.Word"
begin

text \<open>
  The shared vocabulary of the development: the Rust constructs the sources use again and again,
  each as one executable definition with the facts that make the component proofs short.

  \<^item> \<^emph>\<open>Results.\<close> \<open>Result<T, E>\<close> is the sum \<open>'e + 'a\<close>, \<open>Inl\<close> the error. \<open>and_then\<close> is the
    \<open>?\<close> operator, \<open>reject_if c e\<close> the early return \<open>if c { return Err(e); }\<close>, \<open>try_fold\<close> a
    loop whose body may return early.
  \<^item> \<^emph>\<open>Machine integers.\<close> \<open>u64\<close>, \<open>u16\<close> and \<open>u8\<close> are words; the sources never use the
    wrapping operators on accounting values, only \<open>checked_add\<close>, \<open>checked_sub\<close> and
    \<open>checked_mul\<close>, defined here over words of any width.
  \<^item> \<^emph>\<open>Sorted slices and ordered maps.\<close> \<open>binary_search\<close> is the halving loop of the standard
    library; \<open>bt_insert\<close> is insertion into an ordered map seen as its sorted association list.
\<close>

section \<open>Results\<close>

named_theorems result_simps \<open>rewriting of results: binds, early returns, loops\<close>
named_theorems ok_simps \<open>when a composed result is a success\<close>

type_synonym u8 = "8 word"
type_synonym u16 = "16 word"
type_synonym u64 = "64 word"
type_synonym ('e, 'a) result = "'e + 'a"

definition and_then :: "('e, 'a) result \<Rightarrow> ('a \<Rightarrow> ('e, 'b) result) \<Rightarrow> ('e, 'b) result" where
  "and_then r f = (case r of Inl e \<Rightarrow> Inl e | Inr x \<Rightarrow> f x)"

definition ok_or :: "'a option \<Rightarrow> 'e \<Rightarrow> ('e, 'a) result" where
  "ok_or x e = (case x of None \<Rightarrow> Inl e | Some y \<Rightarrow> Inr y)"

definition map_err :: "('e \<Rightarrow> 'f) \<Rightarrow> ('e, 'a) result \<Rightarrow> ('f, 'a) result" where
  "map_err h r = (case r of Inl e \<Rightarrow> Inl (h e) | Inr x \<Rightarrow> Inr x)"

definition map_ok :: "('a \<Rightarrow> 'b) \<Rightarrow> ('e, 'a) result \<Rightarrow> ('e, 'b) result" where
  "map_ok h r = (case r of Inl e \<Rightarrow> Inl e | Inr x \<Rightarrow> Inr (h x))"

definition reject_if :: "bool \<Rightarrow> 'e \<Rightarrow> ('e, unit) result" where
  "reject_if c e = (if c then Inl e else Inr ())"

text \<open>A block of consecutive early returns, tried in order.\<close>

fun reject_first :: "(bool \<times> 'e) list \<Rightarrow> ('e, unit) result" where
  "reject_first [] = Inr ()"
| "reject_first ((c, e) # checks) = and_then (reject_if c e) (\<lambda>_. reject_first checks)"

definition is_ok :: "('e, 'a) result \<Rightarrow> bool" where
  "is_ok r = (case r of Inl _ \<Rightarrow> False | Inr _ \<Rightarrow> True)"

primrec try_fold :: "('s \<Rightarrow> 'a \<Rightarrow> ('e, 's) result) \<Rightarrow> 's \<Rightarrow> 'a list \<Rightarrow> ('e, 's) result" where
  "try_fold f s [] = Inr s"
| "try_fold f s (x # xs) = and_then (f s x) (\<lambda>s'. try_fold f s' xs)"

lemma and_then_simps [simp]:
  "and_then (Inl e) f = Inl e"
  "and_then (Inr x) f = f x"
  by (simp_all add: and_then_def)

lemma and_then_Inr_iff [result_simps]:
  "and_then r f = Inr y \<longleftrightarrow> (\<exists>x. r = Inr x \<and> f x = Inr y)"
  by (cases r) simp_all

lemma and_then_Inl_iff [result_simps]:
  "and_then r f = Inl e \<longleftrightarrow> r = Inl e \<or> (\<exists>x. r = Inr x \<and> f x = Inl e)"
  by (cases r) simp_all

lemma ok_or_simps [simp]:
  "ok_or None e = Inl e"
  "ok_or (Some x) e = Inr x"
  by (simp_all add: ok_or_def)

lemma ok_or_Inr_iff [result_simps]: "ok_or x e = Inr y \<longleftrightarrow> x = Some y"
  by (cases x) simp_all

lemma ok_or_Inl_iff [result_simps]: "ok_or x e = Inl e' \<longleftrightarrow> x = None \<and> e' = e"
  by (cases x) auto

lemma map_err_simps [simp]:
  "map_err h (Inl e) = Inl (h e)"
  "map_err h (Inr x) = Inr x"
  by (simp_all add: map_err_def)

lemma map_err_Inr_iff [result_simps]: "map_err h r = Inr y \<longleftrightarrow> r = Inr y"
  by (cases r) simp_all

lemma map_err_Inl_iff [result_simps]: "map_err h r = Inl e' \<longleftrightarrow> (\<exists>e. r = Inl e \<and> e' = h e)"
  by (cases r) auto

lemma map_ok_simps [simp]:
  "map_ok h (Inl e) = Inl e"
  "map_ok h (Inr x) = Inr (h x)"
  by (simp_all add: map_ok_def)

lemma map_ok_Inr_iff [result_simps]: "map_ok h r = Inr y \<longleftrightarrow> (\<exists>x. r = Inr x \<and> y = h x)"
  by (cases r) auto

lemma map_ok_Inl_iff [result_simps]: "map_ok h r = Inl e \<longleftrightarrow> r = Inl e"
  by (cases r) auto

lemma reject_if_simps [simp]:
  "reject_if True e = Inl e"
  "reject_if False e = Inr ()"
  by (simp_all add: reject_if_def)

lemma reject_if_Inr_iff [result_simps]: "reject_if c e = Inr u \<longleftrightarrow> \<not> c"
  by (cases c) simp_all

lemma reject_if_Inl_iff [result_simps]: "reject_if c e = Inl e' \<longleftrightarrow> c \<and> e' = e"
  by (cases c) auto

lemma reject_first_Inr_iff [result_simps]:
  "reject_first checks = Inr u \<longleftrightarrow> list_all (\<lambda>(c, e). \<not> c) checks"
  by (induction checks rule: reject_first.induct) (auto simp: reject_if_def)

lemma reject_first_Inl:
  "reject_first checks = Inl e \<Longrightarrow> (True, e) \<in> set checks"
  by (induction checks rule: reject_first.induct) (auto simp: reject_if_def split: if_splits)

declare reject_first.simps [simp del]

lemma is_ok_simps [simp]: "\<not> is_ok (Inl e)" "is_ok (Inr x)"
  by (simp_all add: is_ok_def)

lemma is_ok_iff [result_simps]: "is_ok r \<longleftrightarrow> (\<exists>x. r = Inr x)"
  by (cases r) simp_all

lemma is_ok_and_then [ok_simps]: "is_ok (and_then r f) \<longleftrightarrow> (\<exists>x. r = Inr x \<and> is_ok (f x))"
  by (cases r) simp_all

lemma is_ok_reject_if [ok_simps]: "is_ok (reject_if c e) \<longleftrightarrow> \<not> c"
  by (cases c) simp_all

lemma is_ok_reject_first [ok_simps]:
  "is_ok (reject_first checks) \<longleftrightarrow> list_all (\<lambda>(c, e). \<not> c) checks"
  by (auto simp: is_ok_iff reject_first_Inr_iff)

lemma is_ok_ok_or [ok_simps]: "is_ok (ok_or x e) \<longleftrightarrow> x \<noteq> None"
  by (cases x) simp_all

lemma is_ok_map_ok [ok_simps]: "is_ok (map_ok h r) \<longleftrightarrow> is_ok r"
  by (cases r) simp_all

lemma is_ok_map_err [ok_simps]: "is_ok (map_err h r) \<longleftrightarrow> is_ok r"
  by (cases r) simp_all

lemma option_ext: "(\<And>c. x = Some c \<longleftrightarrow> y = Some c) \<Longrightarrow> x = y"
  by (cases x; cases y) auto

text \<open>An invariant that the loop body keeps holds for the final state of the loop.\<close>

lemma try_fold_invariant:
  assumes "try_fold f s xs = Inr s'" and "P s"
    and "\<And>s x s'. x \<in> set xs \<Longrightarrow> P s \<Longrightarrow> f s x = Inr s' \<Longrightarrow> P s'"
  shows "P s'"
  using assms
proof (induction xs arbitrary: s)
  case Nil
  then show ?case by simp
next
  case (Cons x xs)
  from Cons.prems(1) obtain t where t: "f s x = Inr t" "try_fold f t xs = Inr s'"
    by (auto simp: result_simps)
  from Cons.prems(2,3) t(1) have "P t" by (meson list.set_intros(1))
  with t(2) Cons.prems(3) show ?case by (intro Cons.IH [of t]) auto
qed

lemma try_fold_append:
  "try_fold f s (xs @ ys) = and_then (try_fold f s xs) (\<lambda>t. try_fold f t ys)"
proof (induction xs arbitrary: s)
  case (Cons x xs)
  then show ?case by (cases "f s x") simp_all
qed simp

text \<open>A loop that only checks succeeds iff every iteration does.\<close>

lemma is_ok_try_fold_unit:
  "is_ok (try_fold f () xs) \<longleftrightarrow> (\<forall>x\<in>set xs. is_ok (f () x))"
proof (induction xs)
  case (Cons x xs)
  then show ?case by (cases "f () x") simp_all
qed simp

lemma try_fold_unit_Inl:
  "try_fold f () xs = Inl e \<Longrightarrow> \<exists>x\<in>set xs. f () x = Inl e"
  by (induction xs) (auto simp: result_simps)

text \<open>Collecting an iterator of results into a result of a vector: the first error wins.\<close>

fun try_map :: "('a \<Rightarrow> ('e, 'b) result) \<Rightarrow> 'a list \<Rightarrow> ('e, 'b list) result" where
  "try_map f [] = Inr []"
| "try_map f (x # xs) = and_then (f x) (\<lambda>y. and_then (try_map f xs) (\<lambda>ys. Inr (y # ys)))"

lemma try_map_Inr_iff:
  "try_map f xs = Inr ys \<longleftrightarrow> length ys = length xs \<and> (\<forall>i<length xs. f (xs ! i) = Inr (ys ! i))"
proof (induction xs arbitrary: ys)
  case (Cons x xs)
  show ?case
  proof (cases ys)
    case (Cons y zs)
    have "try_map f (x # xs) = Inr ys \<longleftrightarrow> f x = Inr y \<and> try_map f xs = Inr zs"
      by (auto simp: result_simps Cons)
    also have "\<dots> \<longleftrightarrow> length ys = length (x # xs) \<and> (\<forall>i<length (x # xs). f ((x # xs) ! i) = Inr (ys ! i))"
      using Cons.IH by (auto simp: Cons All_less_Suc2)
    finally show ?thesis .
  qed (auto simp: result_simps)
qed auto

lemma is_ok_try_map [ok_simps]: "is_ok (try_map f xs) \<longleftrightarrow> (\<forall>x\<in>set xs. is_ok (f x))"
proof (induction xs)
  case (Cons x xs)
  then show ?case by (cases "f x"; cases "try_map f xs") auto
qed simp

section \<open>Bounded collections without duplicates\<close>

text \<open>
  The loop body of the bounded constructors: a value is appended unless the collection is full or
  already has a value with the same key.
\<close>

definition push_distinct ::
  "('a \<Rightarrow> 'k) \<Rightarrow> nat \<Rightarrow> 'e \<Rightarrow> ('a \<Rightarrow> 'e) \<Rightarrow> 'a list \<Rightarrow> 'a \<Rightarrow> ('e, 'a list) result" where
  "push_distinct key maximum full duplicate vs v =
     and_then (reject_if (length vs = maximum) full) (\<lambda>_.
     and_then (reject_if (key v \<in> set (map key vs)) (duplicate v)) (\<lambda>_.
     Inr (vs @ [v])))"

lemma push_distinct_Inr_iff:
  "push_distinct key n full dup vs v = Inr out \<longleftrightarrow> length vs \<noteq> n \<and> key v \<notin> key ` set vs \<and> out = vs @ [v]"
  by (auto simp: push_distinct_def result_simps)

lemma try_fold_push_distinct:
  assumes "distinct (map key vs)" and "length vs \<le> n"
  shows "try_fold (push_distinct key n full dup) vs xs = Inr out \<longleftrightarrow>
    out = vs @ xs \<and> distinct (map key (vs @ xs)) \<and> length (vs @ xs) \<le> n"
  using assms
proof (induction xs arbitrary: vs)
  case (Cons x xs)
  show ?case
  proof (cases "length vs = n \<or> key x \<in> key ` set vs")
    case True
    then show ?thesis by (auto simp: result_simps push_distinct_Inr_iff)
  next
    case False
    then have "try_fold (push_distinct key n full dup) vs (x # xs) = try_fold (push_distinct key n full dup) (vs @ [x]) xs"
      using push_distinct_Inr_iff [of key n full dup vs x "vs @ [x]"] by simp
    then show ?thesis using Cons.IH [of "vs @ [x]"] Cons.prems False by auto
  qed
qed auto

lemmas collect_distinct = try_fold_push_distinct [of _ "[]", simplified]

text \<open>Sorting by a key without duplicates forgets the order of arrival.\<close>

lemma sort_key_permuted:
  assumes "distinct (map key xs)" and "distinct (map key ys)" and "set xs = set ys"
  shows "sort_key key xs = sort_key key ys"
proof -
  have d: "distinct (map key (sort_key key zs))" if "distinct (map key zs)" for zs
    using that by (simp add: distinct_map)
  have "sorted_wrt (<) (map key (sort_key key xs))" "sorted_wrt (<) (map key (sort_key key ys))"
    using d assms(1,2) by (simp_all only: strict_sorted_iff sorted_sort_key simp_thms)
  moreover have "set (map key (sort_key key xs)) = set (map key (sort_key key ys))" using assms(3) by simp
  ultimately have "map key (sort_key key xs) = map key (sort_key key ys)" by (metis strict_sorted_equal)
  moreover have "inj_on key (set (sort_key key xs) \<union> set (sort_key key ys))"
    using assms(1,3) by (simp add: distinct_map)
  ultimately show ?thesis by (rule map_inj_on)
qed

section \<open>Three-way comparison\<close>

datatype ordering = Less | Equal | Greater

definition cmp :: "'a::linorder \<Rightarrow> 'a \<Rightarrow> ordering" where
  "cmp a b = (if a < b then Less else if a = b then Equal else Greater)"

definition then_with :: "ordering \<Rightarrow> ordering \<Rightarrow> ordering" where
  "then_with c d = (if c = Equal then d else c)"

text \<open>\<open>Iterator::max_by\<close>: of several maximal elements the last one is kept.\<close>

fun max_by :: "('a \<Rightarrow> 'a \<Rightarrow> ordering) \<Rightarrow> 'a list \<Rightarrow> 'a option" where
  "max_by c [] = None"
| "max_by c (x # xs) = Some (fold (\<lambda>y m. if c m y = Greater then m else y) xs x)"

section \<open>Checked machine arithmetic\<close>

named_theorems word_nat \<open>word facts moved to the natural numbers they stand for\<close>

declare of_nat_unat [simp del]

definition checked_add :: "'n::len word \<Rightarrow> 'n word \<Rightarrow> 'n word option" where
  "checked_add a b = (if unat a + unat b < 2 ^ LENGTH('n) then Some (a + b) else None)"

definition checked_sub :: "'n::len word \<Rightarrow> 'n word \<Rightarrow> 'n word option" where
  "checked_sub a b = (if b \<le> a then Some (a - b) else None)"

definition checked_mul :: "'n::len word \<Rightarrow> 'n word \<Rightarrow> 'n word option" where
  "checked_mul a b = (if unat a * unat b < 2 ^ LENGTH('n) then Some (a * b) else None)"

lemma word_eq_nat [word_nat]: "(a :: 'n::len word) = b \<longleftrightarrow> unat a = unat b"
  by (simp add: word_unat_eq_iff)

lemma word_le_nat [word_nat]: "(a :: 'n::len word) \<le> b \<longleftrightarrow> unat a \<le> unat b"
  by (simp add: word_le_nat_alt)

lemma word_less_nat [word_nat]: "(a :: 'n::len word) < b \<longleftrightarrow> unat a < unat b"
  by (simp add: word_less_nat_alt)

lemma unat_max_word [word_nat]: "unat (max a b :: 'n::len word) = max (unat a) (unat b)"
  by (simp add: max_def word_le_nat_alt)

lemma unat_min_word [word_nat]: "unat (min a b :: 'n::len word) = min (unat a) (unat b)"
  by (simp add: min_def word_le_nat_alt)

lemma checked_add_Some_iff [word_nat]:
  "checked_add a b = Some c \<longleftrightarrow> unat c = unat a + unat b" for a :: "'n::len word"
proof -
  have "unat (a + b) = unat a + unat b" if "unat a + unat b < 2 ^ LENGTH('n)"
    using that by (simp add: unat_word_ariths)
  moreover have "unat c < 2 ^ LENGTH('n)" by simp
  ultimately show ?thesis
    by (simp add: checked_add_def word_unat_eq_iff del: unsigned_less) auto
qed

lemma checked_add_None_iff [word_nat]:
  "checked_add a b = None \<longleftrightarrow> 2 ^ LENGTH('n) \<le> unat a + unat b" for a :: "'n::len word"
  by (auto simp: checked_add_def)

lemma checked_sub_Some_iff [word_nat]:
  "checked_sub a b = Some c \<longleftrightarrow> unat a = unat b + unat c" for a :: "'n::len word"
proof -
  have "unat (a - b) = unat a - unat b" if "b \<le> a"
    using that by (simp add: unat_sub)
  then show ?thesis
    by (auto simp: checked_sub_def word_unat_eq_iff word_le_nat_alt)
qed

lemma checked_sub_None_iff [word_nat]:
  "checked_sub a b = None \<longleftrightarrow> unat a < unat b" for a :: "'n::len word"
  by (auto simp: checked_sub_def word_le_nat_alt)

lemma checked_mul_Some_iff [word_nat]:
  "checked_mul a b = Some c \<longleftrightarrow> unat c = unat a * unat b" for a :: "'n::len word"
proof -
  have "unat (a * b) = unat a * unat b" if "unat a * unat b < 2 ^ LENGTH('n)"
    using that by (simp add: unat_word_ariths)
  moreover have "unat c < 2 ^ LENGTH('n)" by simp
  ultimately show ?thesis
    by (simp add: checked_mul_def word_unat_eq_iff del: unsigned_less) auto
qed

lemma unat_bound: "unat v < 2 ^ LENGTH('n)" for v :: "'n::len word"
  by (rule unsigned_less)

lemma unat_witness: "n < 2 ^ LENGTH('n) \<Longrightarrow> \<exists>w :: 'n::len word. unat w = n"
  by (rule exI [of _ "word_of_nat n"]) (simp add: unat_of_nat)

lemma checked_mul_None_iff [word_nat]:
  "checked_mul a b = None \<longleftrightarrow> 2 ^ LENGTH('n) \<le> unat a * unat b" for a :: "'n::len word"
  by (auto simp: checked_mul_def)

section \<open>Slices\<close>

text \<open>\<open>Iterator::position\<close>: the offset of the first element that satisfies the predicate.\<close>

fun position :: "('a \<Rightarrow> bool) \<Rightarrow> 'a list \<Rightarrow> nat option" where
  "position p [] = None"
| "position p (x # xs) = (if p x then Some 0 else map_option Suc (position p xs))"

lemma position_None_iff: "position p xs = None \<longleftrightarrow> (\<forall>x\<in>set xs. \<not> p x)"
  by (induction xs) auto

lemma position_Some_iff:
  "position p xs = Some i \<longleftrightarrow> i < length xs \<and> p (xs ! i) \<and> (\<forall>j<i. \<not> p (xs ! j))"
proof (induction xs arbitrary: i)
  case (Cons x xs)
  then show ?case
    by (cases i) (auto simp: less_Suc_eq_0_disj)
qed simp

lemma position_reject_iff [result_simps]:
  "(case position p xs of None \<Rightarrow> Inr x | Some i \<Rightarrow> Inl (f i)) = Inr y \<longleftrightarrow>
     list_all (\<lambda>c. \<not> p c) xs \<and> x = y"
  using position_None_iff [of p xs] by (auto simp: list_all_iff split: option.splits)

text \<open>
  The binary search of the standard library: the window length halves while the base moves to the last
  probed element that is not greater than the key, then one final comparison decides.
\<close>

function bsearch_loop :: "('a \<Rightarrow> 'k::linorder) \<Rightarrow> 'k \<Rightarrow> 'a list \<Rightarrow> nat \<Rightarrow> nat \<Rightarrow> nat" where
  "bsearch_loop key k xs base len =
     (if len > 1
      then (let half = len div 2; mid = base + half
            in bsearch_loop key k xs (if key (xs ! mid) > k then base else mid) (len - half))
      else base)"
  by pat_completeness auto
termination
  by (relation "measure (\<lambda>(key, k, xs, base, len). len)") auto

declare bsearch_loop.simps [simp del]

definition binary_search :: "('a \<Rightarrow> 'k::linorder) \<Rightarrow> 'k \<Rightarrow> 'a list \<Rightarrow> nat option" where
  "binary_search key k xs =
     (if xs = [] then None
      else (let base = bsearch_loop key k xs 0 (length xs)
            in if key (xs ! base) = k then Some base else None))"

text \<open>
  On a slice sorted by a duplicate-free key, the search window always contains every position
  that can hold the key.
\<close>

lemma bsearch_loop_window:
  assumes "sorted_wrt (<) (map key xs)"
    and "0 < len" and "base + len \<le> length xs"
    and "i < length xs" and "key (xs ! i) = k" and "base \<le> i" and "i < base + len"
  shows "bsearch_loop key k xs base len = i"
  using assms
proof (induction key k xs base len rule: bsearch_loop.induct)
  case (1 key k xs base len)
  show ?case
  proof (cases "len > 1")
    case False
    with "1.prems" show ?thesis by (simp add: bsearch_loop.simps [of key k xs base len])
  next
    case True
    define half where "half = len div 2"
    define mid where "mid = base + half"
    from True have half: "0 < half" "half < len" "half \<le> len - half"
      by (auto simp: half_def)
    with "1.prems"(3) have mid: "mid < length xs" by (simp add: mid_def)
    have less: "key (xs ! p) < key (xs ! q)" if "p < q" "q < length xs" for p q
      using "1.prems"(1) that by (auto simp: sorted_wrt_iff_nth_less)
    have order: "key (xs ! mid) > k \<longleftrightarrow> i < mid"
      using less [of i mid] less [of mid i] mid "1.prems"(4,5)
      by (metis antisym_conv3 order_less_asym order_less_irrefl)
    have "bsearch_loop key k xs (if key (xs ! mid) > k then base else mid) (len - half) = i"
      using "1.IH" [OF True half_def mid_def] "1.prems" half mid order
      by (auto simp: mid_def split: if_splits)
    with True show ?thesis
      unfolding bsearch_loop.simps [of key k xs base len] Let_def mid_def half_def by simp
  qed
qed

lemma bsearch_loop_bound:
  "0 < len \<Longrightarrow> base + len \<le> length xs \<Longrightarrow> bsearch_loop key k xs base len < length xs"
proof (induction key k xs base len rule: bsearch_loop.induct)
  case (1 key k xs base len)
  then show ?case
    by (subst bsearch_loop.simps) (auto simp: Let_def)
qed

lemma binary_search_Some_iff:
  assumes "sorted_wrt (<) (map key xs)"
  shows "binary_search key k xs = Some i \<longleftrightarrow> i < length xs \<and> key (xs ! i) = k"
proof -
  have "bsearch_loop key k xs 0 (length xs) = i" if "i < length xs" "key (xs ! i) = k"
    using assms that by (intro bsearch_loop_window) auto
  moreover have "bsearch_loop key k xs 0 (length xs) < length xs" if "xs \<noteq> []"
    using that by (intro bsearch_loop_bound) auto
  ultimately show ?thesis
    by (auto simp: binary_search_def Let_def)
qed

lemma binary_search_found: "binary_search key k xs = Some i \<Longrightarrow> i < length xs \<and> key (xs ! i) = k"
  using bsearch_loop_bound [of "length xs" 0 xs key k] by (auto simp: binary_search_def Let_def split: if_splits)

lemma binary_search_None_iff:
  assumes "sorted_wrt (<) (map key xs)"
  shows "binary_search key k xs = None \<longleftrightarrow> k \<notin> key ` set xs"
proof -
  have "binary_search key k xs = None \<longleftrightarrow> (\<forall>i<length xs. key (xs ! i) \<noteq> k)"
    using binary_search_Some_iff [OF assms] by (metis not_Some_eq)
  also have "\<dots> \<longleftrightarrow> k \<notin> key ` set xs"
    by (metis (no_types, lifting) imageE image_eqI in_set_conv_nth)
  finally show ?thesis .
qed

section \<open>Ordered maps\<close>

text \<open>
  \<open>BTreeMap<K, V>\<close> is its association list in ascending key order: lookup is \<open>map_of\<close> and
  \<open>bt_insert\<close> overwrites or inserts in place.
\<close>

abbreviation bt_sorted :: "('k::linorder \<times> 'v) list \<Rightarrow> bool" where
  "bt_sorted m \<equiv> sorted_wrt (<) (map fst m)"

fun bt_insert :: "'k::linorder \<Rightarrow> 'v \<Rightarrow> ('k \<times> 'v) list \<Rightarrow> ('k \<times> 'v) list" where
  "bt_insert k v [] = [(k, v)]"
| "bt_insert k v ((l, w) # m) =
     (if k < l then (k, v) # (l, w) # m
      else if k = l then (k, v) # m
      else (l, w) # bt_insert k v m)"

lemma map_of_bt_insert [simp]: "map_of (bt_insert k v m) = (map_of m)(k \<mapsto> v)"
  by (induction k v m rule: bt_insert.induct) auto

lemma fst_set_bt_insert [simp]: "fst ` set (bt_insert k v m) = insert k (fst ` set m)"
  by (induction k v m rule: bt_insert.induct) auto

lemma bt_sorted_insert [simp]: "bt_sorted m \<Longrightarrow> bt_sorted (bt_insert k v m)"
proof (induction k v m rule: bt_insert.induct)
  case (2 k v l w m)
  then show ?case by auto
qed simp

lemma set_bt_insert_subset: "set (bt_insert k v m) \<subseteq> insert (k, v) (set m)"
  by (induction k v m rule: bt_insert.induct) auto

lemma length_bt_insert_fresh:
  "k \<notin> fst ` set m \<Longrightarrow> length (bt_insert k v m) = Suc (length m)"
  by (induction k v m rule: bt_insert.induct) auto

lemma length_bt_insert_present:
  "bt_sorted m \<Longrightarrow> k \<in> fst ` set m \<Longrightarrow> length (bt_insert k v m) = length m"
  by (induction k v m rule: bt_insert.induct) auto

text \<open>Two sorted association lists with the same lookups are the same list.\<close>

lemma bt_sorted_distinct: "bt_sorted m \<Longrightarrow> distinct (map fst m)"
  by (metis strict_sorted_iff)

lemma bt_sorted_ext:
  assumes "bt_sorted m" and "bt_sorted n" and "map_of m = map_of n"
  shows "m = n"
proof -
  have "set m = set n"
    using assms by (metis bt_sorted_distinct map_of_inject_set)
  then have "map fst m = map fst n"
    using assms(1,2) by (metis list.set_map strict_sorted_equal)
  moreover from \<open>set m = set n\<close> have "set m \<union> set n = set m" by simp
  moreover have "inj_on fst (set m)"
    using assms(1) by (metis bt_sorted_distinct distinct_map)
  ultimately show ?thesis
    by (metis map_inj_on)
qed

text \<open>Inserting the elements of a list under a key without duplicates gives the list sorted by that key.\<close>

definition index_by :: "('a \<Rightarrow> 'k::linorder) \<Rightarrow> 'a list \<Rightarrow> ('k \<times> 'a) list \<Rightarrow> ('k \<times> 'a) list" where
  "index_by key xs m = fold (\<lambda>x. bt_insert (key x) x) xs m"

lemma index_by_simps [simp]:
  "index_by key [] m = m"
  "index_by key (x # xs) m = index_by key xs (bt_insert (key x) x m)"
  by (simp_all add: index_by_def)

lemma fst_set_index_by [simp]: "fst ` set (index_by key xs m) = key ` set xs \<union> fst ` set m"
  by (induction xs arbitrary: m) auto

lemma index_by_sorted: "bt_sorted m \<Longrightarrow> bt_sorted (index_by key xs m)"
  by (induction xs arbitrary: m) simp_all

lemma map_of_index_by:
  "distinct (map key xs) \<Longrightarrow>
     map_of (index_by key xs m) k = (case find (\<lambda>x. key x = k) xs of None \<Rightarrow> map_of m k | Some x \<Rightarrow> Some x)"
proof (induction xs arbitrary: m)
  case (Cons x xs)
  have "find (\<lambda>y. key y = key x) xs = None" using Cons.prems by (simp add: find_None_iff image_iff) metis
  then show ?case using Cons by (auto split: option.splits)
qed simp

lemma find_key_Some: "distinct (map key xs) \<Longrightarrow> find (\<lambda>x. key x = k) xs = Some x \<longleftrightarrow> x \<in> set xs \<and> key x = k"
  by (induction xs) auto

lemma map_of_keyed: "map_of (map (\<lambda>x. (key x, x)) xs) k = find (\<lambda>x. key x = k) xs"
  by (induction xs) auto

lemma index_by_is_sort:
  assumes "distinct (map key xs)"
  shows "index_by key xs [] = map (\<lambda>x. (key x, x)) (sort_key key xs)"
proof (rule bt_sorted_ext)
  have d: "distinct (map key (sort_key key xs))" using assms by (simp add: distinct_map)
  have "find (\<lambda>x. key x = k) xs = find (\<lambda>x. key x = k) (sort_key key xs)" for k
    using find_key_Some [OF assms, of k] find_key_Some [OF d, of k] by (metis not_None_eq set_sort)
  then show "map_of (index_by key xs []) = map_of (map (\<lambda>x. (key x, x)) (sort_key key xs))"
    using assms d by (auto simp: map_of_index_by map_of_keyed split: option.split)
  show "bt_sorted (map (\<lambda>x. (key x, x)) (sort_key key xs))"
    using d by (simp add: comp_def strict_sorted_iff)
qed (simp add: index_by_sorted)

section \<open>Ordering facts shared by the newtypes\<close>

lemma Max_list_le_iff: "xs \<noteq> [] \<Longrightarrow> Max (set xs) \<le> (b :: 'a::linorder) \<longleftrightarrow> (\<forall>x\<in>set xs. x \<le> b)"
  by simp

end
