(* ===== verification/Decimal.thy ===== *)
theory Decimal
  imports Prelude
begin

text \<open>
  \<open>crates/stateknot-core/src/decimal.rs\<close>: the canonical decimal text of full-width unsigned
  integers, the wire form of every counter of the system. A \<open>&str\<close> is its list of bytes.

  The one theorem that matters is that the reader accepts exactly the canonical texts: a text is
  read as \<open>v\<close> iff it is the text the writer prints for \<open>v\<close> and \<open>v\<close> does not pass the bound. It
  gives the round trip, the injectivity of the wire form and the bound at once.
\<close>

section \<open>The reader\<close>

datatype unsigned_decimal_error =
  Empty
| TooLong nat nat
| InvalidCharacter nat
| LeadingZero
| Overflow

definition is_ascii_digit :: "char \<Rightarrow> bool" where
  "is_ascii_digit c \<longleftrightarrow> 48 \<le> (of_char c :: nat) \<and> (of_char c :: nat) \<le> 57"

definition digit_value :: "char \<Rightarrow> nat" where
  "digit_value c = of_char c - 48"

text \<open>\<open>decimal_digits\<close>: the loop counts how often the value can be divided by ten.\<close>

fun decimal_digits_loop :: "nat \<Rightarrow> nat \<Rightarrow> nat" where
  "decimal_digits_loop value digits =
     (if value \<ge> 10 then decimal_digits_loop (value div 10) (digits + 1) else digits)"

declare decimal_digits_loop.simps [simp del]

definition decimal_digits :: "u64 \<Rightarrow> nat" where
  "decimal_digits value = decimal_digits_loop (unat value) 1"

text \<open>
  \<open>str::parse::<u64>\<close> on the digits that reach it: multiply by ten and add, each step checked.
\<close>

definition parse_u64_step :: "u64 \<Rightarrow> char \<Rightarrow> (unit, u64) result" where
  "parse_u64_step acc c =
     (if is_ascii_digit c
      then and_then (ok_or (checked_mul acc 10) ())
             (\<lambda>scaled. ok_or (checked_add scaled (word_of_nat (digit_value c))) ())
      else Inl ())"

definition parse_u64 :: "string \<Rightarrow> (unit, u64) result" where
  "parse_u64 value = (if value = [] then Inl () else try_fold parse_u64_step 0 value)"

definition parse_bounded_u64 :: "string \<Rightarrow> u64 \<Rightarrow> (unsigned_decimal_error, u64) result" where
  "parse_bounded_u64 value maximum =
     and_then (reject_if (value = []) Empty) (\<lambda>_.
     and_then (reject_if (length value > decimal_digits maximum)
                 (TooLong (decimal_digits maximum) (length value))) (\<lambda>_.
     and_then (case position (\<lambda>byte. \<not> is_ascii_digit byte) value of
                 Some index \<Rightarrow> Inl (InvalidCharacter index) | None \<Rightarrow> Inr ()) (\<lambda>_.
     and_then (reject_if (length value > 1 \<and> hd value = CHR ''0'') LeadingZero) (\<lambda>_.
     and_then (map_err (\<lambda>_. Overflow) (parse_u64 value)) (\<lambda>parsed.
     and_then (reject_if (parsed > maximum) Overflow) (\<lambda>_. Inr parsed))))))"

section \<open>The writer\<close>

text \<open>\<open>fmt::Display\<close> of an unsigned integer, which \<open>serde_u64::serialize\<close> collects.\<close>

definition digit_char :: "nat \<Rightarrow> char" where
  "digit_char d = char_of (48 + d)"

fun display_nat :: "nat \<Rightarrow> string" where
  "display_nat n =
     (if n < 10 then [digit_char n] else display_nat (n div 10) @ [digit_char (n mod 10)])"

declare display_nat.simps [simp del]

definition display_u64 :: "u64 \<Rightarrow> string" where
  "display_u64 value = display_nat (unat value)"

section \<open>Digits and their value\<close>

definition digits_value :: "nat \<Rightarrow> string \<Rightarrow> nat" where
  "digits_value acc s = foldl (\<lambda>a c. a * 10 + digit_value c) acc s"

definition canonical :: "string \<Rightarrow> bool" where
  "canonical s \<longleftrightarrow> s \<noteq> [] \<and> list_all is_ascii_digit s \<and> (length s > 1 \<longrightarrow> hd s \<noteq> CHR ''0'')"

lemma digits_value_simps [simp]:
  "digits_value acc [] = acc"
  "digits_value acc (c # s) = digits_value (acc * 10 + digit_value c) s"
  "digits_value acc (s @ [c]) = digits_value acc s * 10 + digit_value c"
  by (simp_all add: digits_value_def)

lemma digits_value_ge: "acc \<le> digits_value acc s"
proof (induction s arbitrary: acc)
  case (Cons c s)
  have "acc \<le> acc * 10 + digit_value c" by simp
  also have "\<dots> \<le> digits_value \<dots> s" by (rule Cons.IH)
  finally show ?case by simp
qed simp

lemma digit_char_facts [simp]:
  assumes "d < 10"
  shows "is_ascii_digit (digit_char d)" and "digit_value (digit_char d) = d"
    and "digit_char d = CHR ''0'' \<longleftrightarrow> d = 0"
proof -
  have code: "(of_char (digit_char d) :: nat) = 48 + d"
    using assms by (simp add: digit_char_def)
  then show "is_ascii_digit (digit_char d)" "digit_value (digit_char d) = d"
    using assms by (simp_all add: is_ascii_digit_def digit_value_def)
  have "digit_char d = CHR ''0'' \<longleftrightarrow> (of_char (digit_char d) :: nat) = of_char (CHR ''0'')"
    by (simp only: of_char_eq_iff)
  then show "digit_char d = CHR ''0'' \<longleftrightarrow> d = 0"
    by (simp add: code)
qed

lemma digit_value_bound: "is_ascii_digit c \<Longrightarrow> digit_value c < 10"
  by (auto simp: is_ascii_digit_def digit_value_def)

lemma digit_char_value [simp]: "is_ascii_digit c \<Longrightarrow> digit_char (digit_value c) = c"
  by (simp add: is_ascii_digit_def digit_value_def digit_char_def)

lemma digit_value_zero: "is_ascii_digit c \<Longrightarrow> digit_value c = 0 \<longleftrightarrow> c = CHR ''0''"
  using digit_char_facts(3) [of "digit_value c"] digit_value_bound by simp

lemma canonical_snoc:
  "canonical (s @ [c]) \<longleftrightarrow>
     is_ascii_digit c \<and> (s = [] \<or> canonical s \<and> hd s \<noteq> CHR ''0'')"
  by (cases s) (auto simp: canonical_def)

lemma canonical_value_pos:
  assumes "canonical s" and "hd s \<noteq> CHR ''0''"
  shows "0 < digits_value 0 s"
proof (cases s)
  case Nil
  with assms show ?thesis by (simp add: canonical_def)
next
  case (Cons c t)
  with assms have "0 < digit_value c"
    using digit_value_zero [of c] by (simp add: canonical_def)
  also have "\<dots> \<le> digits_value (digit_value c) t" by (rule digits_value_ge)
  finally show ?thesis using Cons by simp
qed

lemma display_nat_digits: "list_all is_ascii_digit (display_nat n)"
proof (induction n rule: display_nat.induct)
  case (1 n)
  then show ?case by (subst display_nat.simps) auto
qed

lemma display_nat_value: "digits_value 0 (display_nat n) = n"
proof (induction n rule: display_nat.induct)
  case (1 n)
  then show ?case by (subst display_nat.simps) auto
qed

lemma display_nat_head: "display_nat n \<noteq> [] \<and> (hd (display_nat n) = CHR ''0'' \<longrightarrow> n = 0)"
proof (induction n rule: display_nat.induct)
  case (1 n)
  then show ?case by (subst (1 2) display_nat.simps) auto
qed

lemma canonical_display_nat: "canonical (display_nat n)"
proof -
  have "length (display_nat n) \<le> 1" if "n = 0"
    using that by (subst display_nat.simps) simp
  then show ?thesis
    using display_nat_head [of n] display_nat_digits [of n] by (auto simp: canonical_def)
qed

lemma display_digits_value: "canonical s \<Longrightarrow> display_nat (digits_value 0 s) = s"
proof (induction s rule: rev_induct)
  case Nil
  then show ?case by (simp add: canonical_def)
next
  case (snoc c s)
  from snoc.prems have c: "is_ascii_digit c" by (simp add: canonical_snoc)
  note cb = digit_value_bound [OF c]
  show ?case
  proof (cases "s = []")
    case True
    with c cb show ?thesis by (simp add: display_nat.simps [of "digit_value c"])
  next
    case False
    with snoc.prems have s: "canonical s" "hd s \<noteq> CHR ''0''"
      by (auto simp: canonical_snoc)
    with canonical_value_pos have "0 < digits_value 0 s" by blast
    moreover from cb have "(digits_value 0 s * 10 + digit_value c) div 10 = digits_value 0 s"
      and "(digits_value 0 s * 10 + digit_value c) mod 10 = digit_value c" by auto
    ultimately show ?thesis
      using c snoc.IH [OF s(1)]
      by (simp add: display_nat.simps [of "digits_value 0 s * 10 + digit_value c"])
  qed
qed

lemma display_nat_eq_iff: "display_nat n = s \<longleftrightarrow> canonical s \<and> digits_value 0 s = n"
  using canonical_display_nat display_nat_value display_digits_value by metis

section \<open>The length bound\<close>

lemma decimal_digits_loop_display:
  "decimal_digits_loop n k + 1 = length (display_nat n) + k"
proof (induction n k rule: decimal_digits_loop.induct)
  case (1 n k)
  then show ?case
    by (subst decimal_digits_loop.simps, subst display_nat.simps) auto
qed

lemma decimal_digits_length: "decimal_digits v = length (display_u64 v)"
  using decimal_digits_loop_display [of "unat v" 1]
  by (simp add: decimal_digits_def display_u64_def)

lemma length_display_nat_mono: "m \<le> n \<Longrightarrow> length (display_nat m) \<le> length (display_nat n)"
proof (induction m arbitrary: n rule: display_nat.induct)
  case (1 m)
  show ?case
  proof (cases "m < 10")
    case True
    then show ?thesis
      using display_nat_head [of n]
      by (simp add: display_nat.simps [of m] Suc_le_eq)
  next
    case False
    with "1.prems" have "length (display_nat (m div 10)) \<le> length (display_nat (n div 10))"
      by (intro "1.IH") (auto simp: div_le_mono)
    with False "1.prems" show ?thesis
      by (simp add: display_nat.simps [of m] display_nat.simps [of n])
  qed
qed

section \<open>The reader accepts exactly the canonical texts\<close>

lemma parse_u64_step_Inr_iff:
  "is_ascii_digit c \<Longrightarrow>
     parse_u64_step acc c = Inr v \<longleftrightarrow> unat v = unat acc * 10 + digit_value c"
proof -
  assume c: "is_ascii_digit c"
  have digit: "unat (word_of_nat (digit_value c) :: u64) = digit_value c"
    using digit_value_bound [OF c] by (simp add: unat_of_nat)
  have "\<exists>w :: u64. unat w = unat acc * 10" if "unat v = unat acc * 10 + digit_value c"
    using that unat_bound [of v] by (intro unat_witness) simp
  then show ?thesis
    using c digit
    by (simp add: parse_u64_step_def result_simps checked_add_Some_iff checked_mul_Some_iff) metis
qed

lemma parse_u64_loop_Inr_iff:
  assumes "list_all is_ascii_digit s"
  shows "try_fold parse_u64_step acc s = Inr v \<longleftrightarrow> unat v = digits_value (unat acc) s"
  using assms
proof (induction s arbitrary: acc)
  case Nil
  then show ?case by (auto simp: word_nat)
next
  case (Cons c s)
  then have c: "is_ascii_digit c" and s: "list_all is_ascii_digit s" by simp_all
  let ?n = "unat acc * 10 + digit_value c"
  have "\<exists>w :: u64. unat w = ?n" if "unat v = digits_value ?n s" for v :: u64
  proof -
    have "?n \<le> unat v" using that digits_value_ge by metis
    also have "unat v < 2 ^ LENGTH(64)" by (rule unat_bound)
    finally show ?thesis by (rule unat_witness)
  qed
  then show ?case
    using Cons.IH [OF s]
    by (simp add: result_simps parse_u64_step_Inr_iff [OF c]) metis
qed

lemma parse_u64_Inr_iff:
  assumes "list_all is_ascii_digit s" and "s \<noteq> []"
  shows "parse_u64 s = Inr v \<longleftrightarrow> unat v = digits_value 0 s"
  using parse_u64_loop_Inr_iff [OF assms(1), of 0 v] assms(2) by (simp add: parse_u64_def)

lemma parse_bounded_u64_Inr_iff:
  "parse_bounded_u64 s maximum = Inr v \<longleftrightarrow> s = display_u64 v \<and> v \<le> maximum"
proof
  assume "parse_bounded_u64 s maximum = Inr v"
  then have c: "canonical s" and p: "parse_u64 s = Inr v" and "\<not> v > maximum"
    by (auto simp: parse_bounded_u64_def result_simps canonical_def list_all_iff
        position_None_iff split: option.splits)
  then have "unat v = digits_value 0 s"
    using parse_u64_Inr_iff [of s v] by (simp add: canonical_def)
  with c have "display_u64 v = s"
    by (simp add: display_u64_def display_nat_eq_iff)
  with \<open>\<not> v > maximum\<close> show "s = display_u64 v \<and> v \<le> maximum" by auto
next
  assume s: "s = display_u64 v \<and> v \<le> maximum"
  then have c: "canonical s" and val: "digits_value 0 s = unat v"
    by (simp_all add: display_u64_def canonical_display_nat display_nat_value)
  from s have "length s \<le> decimal_digits maximum"
    by (simp add: decimal_digits_length display_u64_def length_display_nat_mono word_le_nat)
  moreover have "position (\<lambda>b. \<not> is_ascii_digit b) s = None"
    using c by (simp add: canonical_def list_all_iff position_None_iff)
  moreover have "parse_u64 s = Inr v"
    using c val parse_u64_Inr_iff [of s v] by (simp add: canonical_def)
  moreover from s have "\<not> maximum < v" by (simp add: not_less)
  ultimately show "parse_bounded_u64 s maximum = Inr v"
    using c by (auto simp: parse_bounded_u64_def canonical_def)
qed

text \<open>
  C23. The reader of canonical decimals accepts exactly what the writer prints: it returns \<open>v\<close>
  for a text iff the text is the decimal text of \<open>v\<close> and \<open>v\<close> is within the bound. Hence writing
  and reading round-trip for every value, no value has two texts, and no accepted value passes
  the bound.
\<close>

theorem decimal_canonical:
  "(parse_bounded_u64 s maximum = Inr v \<longleftrightarrow> s = display_u64 v \<and> v \<le> maximum) \<and>
   parse_bounded_u64 (display_u64 v) (- 1) = Inr v"
  by (simp add: parse_bounded_u64_Inr_iff)

end
