(* ===== verification/Accounting.thy ===== *)
theory Accounting
  imports Decimal
begin

text \<open>
  \<open>crates/stateknot-core/src/accounting.rs\<close>: exact, checked accounting values. The macro
  \<open>define_count!\<close> produces three counters over \<open>u64\<close> that the type checker keeps apart; each is a
  datatype with its own operations here, and the locale \<open>checked_count\<close> states once what all
  three promise to the budget components. \<open>Money\<close> is a currency and an amount in micro-units.
\<close>

section \<open>The contract of a checked counter\<close>

locale checked_count =
  fixes amount :: "'c::linorder \<Rightarrow> nat"
    and zero :: 'c
    and add :: "'c \<Rightarrow> 'c \<Rightarrow> 'c option"
    and sub :: "'c \<Rightarrow> 'c \<Rightarrow> 'c option"
  assumes amount_zero: "amount zero = 0"
    and amount_bound: "amount c < 2 ^ 64"
    and amount_le_iff: "a \<le> b \<longleftrightarrow> amount a \<le> amount b"
    and amount_eq_iff: "a = b \<longleftrightarrow> amount a = amount b"
    and add_Some_iff: "add a b = Some c \<longleftrightarrow> amount c = amount a + amount b"
    and add_None_iff: "add a b = None \<longleftrightarrow> 2 ^ 64 \<le> amount a + amount b"
    and sub_Some_iff: "sub a b = Some c \<longleftrightarrow> amount a = amount b + amount c"
    and sub_None_iff: "sub a b = None \<longleftrightarrow> amount a < amount b"
begin

lemma amount_less_iff: "a < b \<longleftrightarrow> amount a < amount b"
  by (meson amount_le_iff not_le)

lemma amount_max: "amount (max a b) = max (amount a) (amount b)"
  by (simp add: max_def amount_le_iff)

lemma amount_min: "amount (min a b) = min (amount a) (amount b)"
  by (simp add: min_def amount_le_iff)

lemma zero_least: "zero \<le> c"
  by (simp add: amount_le_iff amount_zero)

lemma add_commute: "add a b = add b a"
  by (rule option_ext) (simp add: add_Some_iff ac_simps)

lemma add_zero: "add zero a = Some a" "add a zero = Some a"
  by (simp_all add: add_Some_iff amount_zero)

lemma add_grows: "add a b = Some c \<Longrightarrow> a \<le> c \<and> b \<le> c"
  by (simp add: add_Some_iff amount_le_iff)

lemma sub_add: "add a b = Some c \<Longrightarrow> sub c b = Some a"
  by (simp add: add_Some_iff sub_Some_iff)

lemma sub_defined_iff: "(\<exists>c. sub a b = Some c) \<longleftrightarrow> b \<le> a"
proof -
  have "(\<exists>c. sub a b = Some c) \<longleftrightarrow> sub a b \<noteq> None" by simp
  also have "\<dots> \<longleftrightarrow> b \<le> a" by (simp add: sub_None_iff amount_le_iff not_less)
  finally show ?thesis .
qed

lemma add_defined: "amount a + amount b < 2 ^ 64 \<Longrightarrow> \<exists>c. add a b = Some c"
  using add_None_iff [of a b] by (cases "add a b") auto

lemma add_eq_zero_left: "add a b = Some b \<longleftrightarrow> a = zero"
  by (simp add: add_Some_iff amount_eq_iff [of a] amount_zero)

lemma add_assoc:
  "Option.bind (add a b) (\<lambda>ab. add ab c) = Option.bind (add b c) (add a)"
proof (rule option_ext)
  fix r
  let ?sum = "amount r = amount a + amount b + amount c"
  have "\<exists>x. amount x = amount a + amount b" "\<exists>x. amount x = amount b + amount c" if ?sum
    using that amount_bound [of r] add_defined [of a b] add_defined [of b c]
    by (auto simp: add_Some_iff)
  then have "(\<exists>y. amount y = amount a + amount b \<and> amount r = amount y + amount c) \<longleftrightarrow> ?sum"
    and "(\<exists>y. amount y = amount b + amount c \<and> amount r = amount a + amount y) \<longleftrightarrow> ?sum"
    by (metis, metis add.assoc)
  then show "Option.bind (add a b) (\<lambda>ab. add ab c) = Some r \<longleftrightarrow>
      Option.bind (add b c) (add a) = Some r"
    by (simp add: bind_eq_Some_conv add_Some_iff)
qed

end

section \<open>The three counters\<close>

datatype execution_count = ExecutionCount (execution_get: u64)
datatype token_count = TokenCount (token_get: u64)
datatype byte_count = ByteCount (byte_get: u64)

instantiation execution_count :: linorder
begin

definition less_eq_execution_count :: "execution_count \<Rightarrow> execution_count \<Rightarrow> bool" where
  "less_eq_execution_count a b \<longleftrightarrow> execution_get a \<le> execution_get b"

definition less_execution_count :: "execution_count \<Rightarrow> execution_count \<Rightarrow> bool" where
  "less_execution_count a b \<longleftrightarrow> execution_get a < execution_get b"

instance
  by standard (auto simp: less_eq_execution_count_def less_execution_count_def
      execution_count.expand)

end

instantiation token_count :: linorder
begin

definition less_eq_token_count :: "token_count \<Rightarrow> token_count \<Rightarrow> bool" where
  "less_eq_token_count a b \<longleftrightarrow> token_get a \<le> token_get b"

definition less_token_count :: "token_count \<Rightarrow> token_count \<Rightarrow> bool" where
  "less_token_count a b \<longleftrightarrow> token_get a < token_get b"

instance
  by standard (auto simp: less_eq_token_count_def less_token_count_def token_count.expand)

end

instantiation byte_count :: linorder
begin

definition less_eq_byte_count :: "byte_count \<Rightarrow> byte_count \<Rightarrow> bool" where
  "less_eq_byte_count a b \<longleftrightarrow> byte_get a \<le> byte_get b"

definition less_byte_count :: "byte_count \<Rightarrow> byte_count \<Rightarrow> bool" where
  "less_byte_count a b \<longleftrightarrow> byte_get a < byte_get b"

instance
  by standard (auto simp: less_eq_byte_count_def less_byte_count_def byte_count.expand)

end

definition execution_ZERO :: execution_count where "execution_ZERO = ExecutionCount 0"
definition token_ZERO :: token_count where "token_ZERO = TokenCount 0"
definition byte_ZERO :: byte_count where "byte_ZERO = ByteCount 0"

definition execution_checked_add ::
  "execution_count \<Rightarrow> execution_count \<Rightarrow> execution_count option" where
  "execution_checked_add a b =
     map_option ExecutionCount (checked_add (execution_get a) (execution_get b))"

definition token_checked_add :: "token_count \<Rightarrow> token_count \<Rightarrow> token_count option" where
  "token_checked_add a b = map_option TokenCount (checked_add (token_get a) (token_get b))"

definition byte_checked_add :: "byte_count \<Rightarrow> byte_count \<Rightarrow> byte_count option" where
  "byte_checked_add a b = map_option ByteCount (checked_add (byte_get a) (byte_get b))"

definition execution_checked_sub ::
  "execution_count \<Rightarrow> execution_count \<Rightarrow> execution_count option" where
  "execution_checked_sub a b =
     map_option ExecutionCount (checked_sub (execution_get a) (execution_get b))"

definition token_checked_sub :: "token_count \<Rightarrow> token_count \<Rightarrow> token_count option" where
  "token_checked_sub a b = map_option TokenCount (checked_sub (token_get a) (token_get b))"

definition byte_checked_sub :: "byte_count \<Rightarrow> byte_count \<Rightarrow> byte_count option" where
  "byte_checked_sub a b = map_option ByteCount (checked_sub (byte_get a) (byte_get b))"

definition execution_checked_mul :: "execution_count \<Rightarrow> u64 \<Rightarrow> execution_count option" where
  "execution_checked_mul a n = map_option ExecutionCount (checked_mul (execution_get a) n)"

definition token_checked_mul :: "token_count \<Rightarrow> u64 \<Rightarrow> token_count option" where
  "token_checked_mul a n = map_option TokenCount (checked_mul (token_get a) n)"

definition byte_checked_mul :: "byte_count \<Rightarrow> u64 \<Rightarrow> byte_count option" where
  "byte_checked_mul a n = map_option ByteCount (checked_mul (byte_get a) n)"

abbreviation executions :: "execution_count \<Rightarrow> nat" where
  "executions c \<equiv> unat (execution_get c)"

abbreviation tokens :: "token_count \<Rightarrow> nat" where
  "tokens c \<equiv> unat (token_get c)"

abbreviation bytes :: "byte_count \<Rightarrow> nat" where
  "bytes c \<equiv> unat (byte_get c)"

lemma u64_bound: "unat v < 18446744073709551616" for v :: u64
  using unat_bound [of v] by simp

interpretation ec: checked_count executions execution_ZERO execution_checked_add
  execution_checked_sub
  by unfold_locales
    (auto simp: execution_ZERO_def execution_checked_add_def execution_checked_sub_def
      less_eq_execution_count_def word_le_nat checked_add_Some_iff checked_add_None_iff
      checked_sub_Some_iff checked_sub_None_iff u64_bound word_eq_nat
      intro: execution_count.expand split: execution_count.splits)

interpretation tc: checked_count tokens token_ZERO token_checked_add token_checked_sub
  by unfold_locales
    (auto simp: token_ZERO_def token_checked_add_def token_checked_sub_def
      less_eq_token_count_def word_le_nat checked_add_Some_iff checked_add_None_iff
      checked_sub_Some_iff checked_sub_None_iff u64_bound word_eq_nat
      intro: token_count.expand)

interpretation bc: checked_count bytes byte_ZERO byte_checked_add byte_checked_sub
  by unfold_locales
    (auto simp: byte_ZERO_def byte_checked_add_def byte_checked_sub_def
      less_eq_byte_count_def word_le_nat checked_add_Some_iff checked_add_None_iff
      checked_sub_Some_iff checked_sub_None_iff u64_bound word_eq_nat
      intro: byte_count.expand)

section \<open>Reading and writing counters\<close>

datatype count_parse_error =
  CountInvalidFormat
| CountTooLong nat nat
| CountNonCanonical
| CountOverflow

fun count_from_decimal_error :: "unsigned_decimal_error \<Rightarrow> count_parse_error" where
  "count_from_decimal_error Empty = CountInvalidFormat"
| "count_from_decimal_error (InvalidCharacter _) = CountInvalidFormat"
| "count_from_decimal_error (TooLong maximum actual) = CountTooLong maximum actual"
| "count_from_decimal_error LeadingZero = CountNonCanonical"
| "count_from_decimal_error Overflow = CountOverflow"

definition execution_from_str :: "string \<Rightarrow> (count_parse_error, execution_count) result" where
  "execution_from_str s =
     map_err count_from_decimal_error (map_ok ExecutionCount (parse_bounded_u64 s (- 1)))"

definition token_from_str :: "string \<Rightarrow> (count_parse_error, token_count) result" where
  "token_from_str s =
     map_err count_from_decimal_error (map_ok TokenCount (parse_bounded_u64 s (- 1)))"

definition byte_from_str :: "string \<Rightarrow> (count_parse_error, byte_count) result" where
  "byte_from_str s =
     map_err count_from_decimal_error (map_ok ByteCount (parse_bounded_u64 s (- 1)))"

section \<open>Currencies and money\<close>

text \<open>A currency code is three bytes, ordered lexicographically as the array is.\<close>

datatype currency_code = CurrencyCode u8 u8 u8

instantiation currency_code :: linorder
begin

fun less_eq_currency_code :: "currency_code \<Rightarrow> currency_code \<Rightarrow> bool" where
  "less_eq_currency_code (CurrencyCode a b c) (CurrencyCode a' b' c') \<longleftrightarrow>
     a < a' \<or> a = a' \<and> (b < b' \<or> b = b' \<and> c \<le> c')"

fun less_currency_code :: "currency_code \<Rightarrow> currency_code \<Rightarrow> bool" where
  "less_currency_code (CurrencyCode a b c) (CurrencyCode a' b' c') \<longleftrightarrow>
     a < a' \<or> a = a' \<and> (b < b' \<or> b = b' \<and> c < c')"

instance
proof
  fix x y z :: currency_code
  show "x < y \<longleftrightarrow> x \<le> y \<and> \<not> y \<le> x"
    by (cases x; cases y) auto
  show "x \<le> x"
    by (cases x) auto
  show "x \<le> y \<Longrightarrow> y \<le> z \<Longrightarrow> x \<le> z"
    by (cases x; cases y; cases z) auto
  show "x \<le> y \<Longrightarrow> y \<le> x \<Longrightarrow> x = y"
    by (cases x; cases y) auto
  show "x \<le> y \<or> y \<le> x"
    by (cases x; cases y) auto
qed

end

datatype currency_code_error =
  CurrencyInvalidLength nat nat
| CurrencyInvalidCharacter nat

definition is_ascii_uppercase :: "u8 \<Rightarrow> bool" where
  "is_ascii_uppercase b \<longleftrightarrow> 65 \<le> b \<and> b \<le> 90"

fun currency_as_bytes :: "currency_code \<Rightarrow> u8 list" where
  "currency_as_bytes (CurrencyCode a b c) = [a, b, c]"

definition currency_wf :: "currency_code \<Rightarrow> bool" where
  "currency_wf c \<longleftrightarrow> list_all is_ascii_uppercase (currency_as_bytes c)"

definition currency_new :: "u8 \<Rightarrow> u8 \<Rightarrow> u8 \<Rightarrow> (currency_code_error, currency_code) result" where
  "currency_new a b c =
     (case position (\<lambda>byte. \<not> is_ascii_uppercase byte) [a, b, c] of
        Some index \<Rightarrow> Inl (CurrencyInvalidCharacter index)
      | None \<Rightarrow> Inr (CurrencyCode a b c))"

definition currency_from_str :: "u8 list \<Rightarrow> (currency_code_error, currency_code) result" where
  "currency_from_str bs =
     and_then (reject_if (length bs \<noteq> 3) (CurrencyInvalidLength 3 (length bs))) (\<lambda>_.
       currency_new (bs ! 0) (bs ! 1) (bs ! 2))"

record money =
  currency :: currency_code
  micro_units :: u64

datatype money_arithmetic_error =
  CurrencyMismatch currency_code currency_code
| MoneyOverflow
| MoneyUnderflow

definition money_new :: "currency_code \<Rightarrow> u64 \<Rightarrow> money" where
  "money_new c u = \<lparr>currency = c, micro_units = u\<rparr>"

definition money_zero :: "currency_code \<Rightarrow> money" where
  "money_zero c = money_new c 0"

definition ensure_same_currency :: "money \<Rightarrow> money \<Rightarrow> (money_arithmetic_error, unit) result" where
  "ensure_same_currency m n =
     (if currency m = currency n then Inr ()
      else Inl (CurrencyMismatch (currency m) (currency n)))"

definition money_checked_add :: "money \<Rightarrow> money \<Rightarrow> (money_arithmetic_error, money) result" where
  "money_checked_add m n =
     and_then (ensure_same_currency m n) (\<lambda>_.
     and_then (ok_or (checked_add (micro_units m) (micro_units n)) MoneyOverflow) (\<lambda>u.
     Inr (money_new (currency m) u)))"

definition money_checked_sub :: "money \<Rightarrow> money \<Rightarrow> (money_arithmetic_error, money) result" where
  "money_checked_sub m n =
     and_then (ensure_same_currency m n) (\<lambda>_.
     and_then (ok_or (checked_sub (micro_units m) (micro_units n)) MoneyUnderflow) (\<lambda>u.
     Inr (money_new (currency m) u)))"

definition money_checked_mul :: "money \<Rightarrow> u64 \<Rightarrow> (money_arithmetic_error, money) result" where
  "money_checked_mul m k =
     and_then (ok_or (checked_mul (micro_units m) k) MoneyOverflow) (\<lambda>u.
     Inr (money_new (currency m) u))"

lemma money_new_simps [simp]:
  "currency (money_new c u) = c" "micro_units (money_new c u) = u"
  by (simp_all add: money_new_def)

lemma money_eq_iff: "(m :: money) = n \<longleftrightarrow> currency m = currency n \<and> micro_units m = micro_units n"
  by (cases m; cases n) auto

lemma currency_new_Inr_iff:
  "currency_new a b c = Inr code \<longleftrightarrow> code = CurrencyCode a b c \<and> currency_wf code"
  by (auto simp: currency_new_def currency_wf_def position_None_iff split: option.splits)

lemma currency_from_str_iff:
  "currency_from_str bs = Inr code \<longleftrightarrow> bs = currency_as_bytes code \<and> currency_wf code"
proof (cases "length bs = 3")
  case True
  then obtain a b c where "bs = [a, b, c]"
    by (auto simp: length_Suc_conv numeral_3_eq_3)
  then show ?thesis
    by (cases code) (auto simp: currency_from_str_def currency_new_Inr_iff)
next
  case False
  then show ?thesis
    by (cases code) (auto simp: currency_from_str_def)
qed

lemma ensure_same_currency_iff [result_simps]:
  "ensure_same_currency m n = Inr u \<longleftrightarrow> currency m = currency n"
  by (auto simp: ensure_same_currency_def)

lemma money_checked_add_Inr_iff:
  "money_checked_add m n = Inr s \<longleftrightarrow>
     currency m = currency n \<and> currency s = currency m \<and>
     unat (micro_units s) = unat (micro_units m) + unat (micro_units n)"
  by (auto simp: money_checked_add_def result_simps checked_add_Some_iff money_eq_iff)

lemma money_checked_sub_Inr_iff:
  "money_checked_sub m n = Inr d \<longleftrightarrow>
     currency m = currency n \<and> currency d = currency m \<and>
     unat (micro_units m) = unat (micro_units n) + unat (micro_units d)"
  by (auto simp: money_checked_sub_def result_simps checked_sub_Some_iff money_eq_iff)

text \<open>
  Monetary arithmetic is exact and never converts: an addition succeeds iff the currencies are
  equal and the exact sum fits in 64 bits, the result carries that sum, and subtracting either
  operand from it gives back the other.
\<close>

lemma money_add_exact:
  "(is_ok (money_checked_add m n) \<longleftrightarrow>
      currency m = currency n \<and> unat (micro_units m) + unat (micro_units n) < 2 ^ 64) \<and>
   (\<forall>s. money_checked_add m n = Inr s \<longrightarrow>
      unat (micro_units s) = unat (micro_units m) + unat (micro_units n) \<and>
      money_checked_sub s n = Inr m \<and> money_checked_sub s m = Inr n)"
proof (intro conjI allI impI)
  have "(\<exists>w :: u64. unat w = unat (micro_units m) + unat (micro_units n)) \<longleftrightarrow>
      unat (micro_units m) + unat (micro_units n) < 2 ^ LENGTH(64)"
    by (metis unat_bound unat_witness)
  then show "is_ok (money_checked_add m n) \<longleftrightarrow>
      currency m = currency n \<and> unat (micro_units m) + unat (micro_units n) < 2 ^ 64"
    by (simp add: is_ok_iff money_checked_add_def result_simps checked_add_Some_iff)
qed (auto simp: money_checked_add_Inr_iff money_checked_sub_Inr_iff)

lemma money_add_exact_witness:
  "money_checked_add (money_new (CurrencyCode 85 83 68) 70) (money_new (CurrencyCode 85 83 68) 5)
     = Inr (money_new (CurrencyCode 85 83 68) 75) \<and>
   money_checked_sub (money_new (CurrencyCode 85 83 68) 75) (money_new (CurrencyCode 85 83 68) 5)
     = Inr (money_new (CurrencyCode 85 83 68) 70)"
proof -
  let ?m = "money_new (CurrencyCode 85 83 68) 70" and ?n = "money_new (CurrencyCode 85 83 68) 5"
  have "money_checked_add ?m ?n = Inr (money_new (CurrencyCode 85 83 68) 75)"
    by (simp add: money_checked_add_Inr_iff)
  then show ?thesis using money_add_exact [of ?m ?n] by blast
qed

end
