(* ===== verification/Costs.thy ===== *)
theory Costs
  imports Accounting
begin

text \<open>
  \<open>crates/stateknot-core/src/budget.rs\<close>, currency-keyed collections: \<open>CostLimits\<close> (ceilings) and
  \<open>KnownCosts\<close> (charges). Both are slices of \<open>Money\<close> in ascending currency order with at most
  \<open>MAX_COST_CURRENCIES\<close> entries, and both look a currency up by binary search. The locale
  \<open>cost_ledger\<close> states what such a collection promises; it is interpreted on both.
\<close>

section \<open>Slices of money in currency order\<close>

definition MAX_COST_CURRENCIES :: nat where "MAX_COST_CURRENCIES = 16"

datatype cost_collection_error =
  DuplicateCurrency currency_code
| TooManyCurrencies nat nat
| CostOverflow currency_code

type_synonym currency_map = "(currency_code \<times> money) list"

definition collect_step ::
  "currency_map \<Rightarrow> money \<Rightarrow> (cost_collection_error, currency_map) result" where
  "collect_step collected m =
     and_then (reject_if (map_of collected (currency m) \<noteq> None) (DuplicateCurrency (currency m))) (\<lambda>_.
     and_then (reject_if (length collected = MAX_COST_CURRENCIES)
                 (TooManyCurrencies MAX_COST_CURRENCIES (MAX_COST_CURRENCIES + 1))) (\<lambda>_.
     Inr (bt_insert (currency m) m collected)))"

definition collect_costs :: "money list \<Rightarrow> (cost_collection_error, money list) result" where
  "collect_costs ms = map_ok (map snd) (try_fold collect_step [] ms)"

definition slice_get :: "money list \<Rightarrow> currency_code \<Rightarrow> money option" where
  "slice_get ms c = map_option (\<lambda>index. ms ! index) (binary_search currency c ms)"

definition slice_wf :: "money list \<Rightarrow> bool" where
  "slice_wf ms \<longleftrightarrow> sorted_wrt (<) (map currency ms) \<and> length ms \<le> MAX_COST_CURRENCIES"

section \<open>Ceilings\<close>

datatype cost_limits = CostLimits (limit_iter: "money list")

definition cost_limits_try_new :: "money list \<Rightarrow> (cost_collection_error, cost_limits) result" where
  "cost_limits_try_new ms = map_ok CostLimits (collect_costs ms)"

definition cost_limits_get :: "cost_limits \<Rightarrow> currency_code \<Rightarrow> money option" where
  "cost_limits_get l = slice_get (limit_iter l)"

definition cost_limits_most_restrictive :: "cost_limits \<Rightarrow> cost_limits \<Rightarrow> cost_limits" where
  "cost_limits_most_restrictive l r =
     CostLimits (List.map_filter
       (\<lambda>left. map_option
          (\<lambda>right. money_new (currency left) (min (micro_units left) (micro_units right)))
          (cost_limits_get r (currency left)))
       (limit_iter l))"

definition cost_limits_wf :: "cost_limits \<Rightarrow> bool" where
  "cost_limits_wf l \<longleftrightarrow> slice_wf (limit_iter l)"

section \<open>Known charges\<close>

datatype known_costs = KnownCosts (cost_iter: "money list")

definition known_costs_try_new :: "money list \<Rightarrow> (cost_collection_error, known_costs) result" where
  "known_costs_try_new ms = map_ok KnownCosts (collect_costs ms)"

definition known_costs_empty :: known_costs where
  "known_costs_empty = KnownCosts []"

definition known_costs_get :: "known_costs \<Rightarrow> currency_code \<Rightarrow> money option" where
  "known_costs_get k = slice_get (cost_iter k)"

definition accumulate_step ::
  "currency_map \<Rightarrow> money \<Rightarrow> (cost_collection_error, currency_map) result" where
  "accumulate_step acc m =
     (case map_of acc (currency m) of
        Some existing \<Rightarrow>
          and_then (ok_or (checked_add (micro_units existing) (micro_units m))
                      (CostOverflow (currency m)))
            (\<lambda>u. Inr (bt_insert (currency m) (money_new (currency m) u) acc))
      | None \<Rightarrow>
          and_then (reject_if (length acc = MAX_COST_CURRENCIES)
                      (TooManyCurrencies MAX_COST_CURRENCIES (MAX_COST_CURRENCIES + 1)))
            (\<lambda>_. Inr (bt_insert (currency m) m acc)))"

definition known_costs_checked_accumulate ::
  "known_costs \<Rightarrow> known_costs \<Rightarrow> (cost_collection_error, known_costs) result" where
  "known_costs_checked_accumulate a b =
     map_ok (\<lambda>acc. KnownCosts (map snd acc)) (try_fold accumulate_step [] (cost_iter a @ cost_iter b))"

definition known_costs_wf :: "known_costs \<Rightarrow> bool" where
  "known_costs_wf k \<longleftrightarrow> slice_wf (cost_iter k)"

section \<open>The contract of a currency-keyed ledger\<close>

definition units_of :: "money option \<Rightarrow> nat" where
  "units_of m = (case m of None \<Rightarrow> 0 | Some x \<Rightarrow> unat (micro_units x))"

lemma units_of_simps [simp]: "units_of None = 0" "units_of (Some m) = unat (micro_units m)"
  by (simp_all add: units_of_def)

locale cost_ledger =
  fixes iter :: "'l \<Rightarrow> money list"
    and get :: "'l \<Rightarrow> currency_code \<Rightarrow> money option"
    and invar :: "'l \<Rightarrow> bool"
  assumes get_Some_iff: "invar l \<Longrightarrow> get l c = Some m \<longleftrightarrow> m \<in> set (iter l) \<and> currency m = c"
    and extensional: "invar l \<Longrightarrow> invar k \<Longrightarrow> get l = get k \<Longrightarrow> l = k"
    and bounded: "invar l \<Longrightarrow> length (iter l) \<le> MAX_COST_CURRENCIES"
begin

lemma get_currency: "invar l \<Longrightarrow> get l c = Some m \<Longrightarrow> currency m = c"
  by (simp add: get_Some_iff)

lemma get_None_iff: "invar l \<Longrightarrow> get l c = None \<longleftrightarrow> c \<notin> currency ` set (iter l)"
  using get_Some_iff by (metis (no_types, lifting) imageE image_eqI not_None_eq)

lemma get_member: "invar l \<Longrightarrow> m \<in> set (iter l) \<Longrightarrow> get l (currency m) = Some m"
  by (simp add: get_Some_iff)

lemma ball_iter_iff:
  "invar l \<Longrightarrow> (\<forall>m\<in>set (iter l). P m) \<longleftrightarrow> (\<forall>c m. get l c = Some m \<longrightarrow> P m)"
  by (metis get_Some_iff)

text \<open>Two ledgers over the same currencies with the same amounts are equal.\<close>

lemma ledger_eqI:
  assumes "invar l" and "invar k"
    and "\<And>c. get l c = None \<longleftrightarrow> get k c = None"
    and "\<And>c. units_of (get l c) = units_of (get k c)"
  shows "l = k"
proof (rule extensional [OF assms(1,2)], rule ext)
  fix c
  show "get l c = get k c"
    using assms(3) [of c] assms(4) [of c] get_currency [OF assms(1)] get_currency [OF assms(2)]
    by (cases "get l c"; cases "get k c") (auto simp: money_eq_iff word_eq_nat)
qed

end

section \<open>Lookups\<close>

lemma slice_get_Some_iff:
  assumes "slice_wf ms"
  shows "slice_get ms c = Some m \<longleftrightarrow> m \<in> set ms \<and> currency m = c"
proof -
  have "slice_get ms c = Some m \<longleftrightarrow>
      (\<exists>i. binary_search currency c ms = Some i \<and> m = ms ! i)"
    by (auto simp: slice_get_def)
  also have "\<dots> \<longleftrightarrow> (\<exists>i<length ms. currency (ms ! i) = c \<and> m = ms ! i)"
    using assms by (auto simp: slice_wf_def binary_search_Some_iff)
  finally show ?thesis by (auto simp: in_set_conv_nth)
qed

lemma slice_get_map_of:
  assumes "slice_wf ms"
  shows "slice_get ms = map_of (map (\<lambda>m. (currency m, m)) ms)"
proof
  fix c
  have "distinct (map fst (map (\<lambda>m. (currency m, m)) ms))"
    using assms by (simp add: slice_wf_def strict_sorted_iff comp_def)
  then show "slice_get ms c = map_of (map (\<lambda>m. (currency m, m)) ms) c"
    by (intro option_ext) (auto simp: slice_get_Some_iff [OF assms])
qed

lemma slice_ext:
  assumes "slice_wf ms" and "slice_wf ns" and "slice_get ms = slice_get ns"
  shows "ms = ns"
proof -
  let ?keyed = "map (\<lambda>m. (currency m, m))"
  have "?keyed ms = ?keyed ns"
    using assms by (intro bt_sorted_ext) (simp_all add: slice_wf_def comp_def slice_get_map_of)
  then have "map snd (?keyed ms) = map snd (?keyed ns)" by (rule arg_cong)
  then show ?thesis by (simp add: comp_def)
qed

lemma slice_wf_bounded: "slice_wf ms \<Longrightarrow> length ms \<le> MAX_COST_CURRENCIES"
  by (simp add: slice_wf_def)

interpretation cl: cost_ledger limit_iter cost_limits_get cost_limits_wf
  by unfold_locales
    (auto simp: cost_limits_get_def cost_limits_wf_def slice_get_Some_iff slice_wf_bounded
      intro: cost_limits.expand slice_ext)

interpretation kc: cost_ledger cost_iter known_costs_get known_costs_wf
  by unfold_locales
    (auto simp: known_costs_get_def known_costs_wf_def slice_get_Some_iff slice_wf_bounded
      intro: known_costs.expand slice_ext)

section \<open>Collecting a slice\<close>

text \<open>The working map of both loops: sorted, every value under its own currency, bounded.\<close>

definition currency_map_wf :: "currency_map \<Rightarrow> bool" where
  "currency_map_wf acc \<longleftrightarrow>
     bt_sorted acc \<and> (\<forall>(c, m)\<in>set acc. currency m = c) \<and> length acc \<le> MAX_COST_CURRENCIES"

lemma currency_map_wf_empty [simp]: "currency_map_wf []"
  by (simp add: currency_map_wf_def)

lemma currency_map_values:
  assumes "currency_map_wf acc"
  shows "map currency (map snd acc) = map fst acc"
  using assms by (auto simp: currency_map_wf_def)

lemma slice_wf_values: "currency_map_wf acc \<Longrightarrow> slice_wf (map snd acc)"
  unfolding slice_wf_def by (simp only: currency_map_values) (simp add: currency_map_wf_def)

lemma slice_get_values: "currency_map_wf acc \<Longrightarrow> slice_get (map snd acc) = map_of acc"
proof -
  assume wf: "currency_map_wf acc"
  then have "map (\<lambda>m. (currency m, m)) (map snd acc) = acc"
    by (auto simp: currency_map_wf_def comp_def intro!: map_idI)
  then show ?thesis
    using slice_get_map_of [OF slice_wf_values [OF wf]] by simp
qed

lemma currency_map_wf_insert:
  assumes "currency_map_wf acc" and "currency m = c"
    and "map_of acc c \<noteq> None \<or> length acc \<noteq> MAX_COST_CURRENCIES"
  shows "currency_map_wf (bt_insert c m acc)"
proof -
  have "length (bt_insert c m acc) \<le> MAX_COST_CURRENCIES"
  proof (cases "c \<in> fst ` set acc")
    case True
    with assms(1) show ?thesis
      by (simp add: currency_map_wf_def length_bt_insert_present)
  next
    case False
    then have "map_of acc c = None" by (simp add: map_of_eq_None_iff)
    with assms(1,3) False show ?thesis
      by (simp add: currency_map_wf_def length_bt_insert_fresh)
  qed
  then show ?thesis
    using assms(1,2) set_bt_insert_subset [of c m acc] by (fastforce simp: currency_map_wf_def)
qed

lemma collect_step_Inr:
  assumes "collect_step acc m = Inr acc'" and "currency_map_wf acc"
  shows "currency_map_wf acc'" and "map_of acc' = (map_of acc)(currency m \<mapsto> m)"
    and "map_of acc (currency m) = None"
  using assms by (auto simp: collect_step_def result_simps intro: currency_map_wf_insert)

lemma collect_loop:
  assumes "try_fold collect_step acc ms = Inr acc'" and "currency_map_wf acc"
  shows "currency_map_wf acc' \<and> distinct (map currency ms) \<and>
    (\<forall>m\<in>set ms. map_of acc (currency m) = None) \<and>
    map_of acc' = map_of acc ++ map_of (map (\<lambda>m. (currency m, m)) ms)"
  using assms
proof (induction ms arbitrary: acc)
  case (Cons m ms)
  from Cons.prems(1) obtain t where t: "collect_step acc m = Inr t" "try_fold collect_step t ms = Inr acc'"
    by (auto simp: result_simps)
  note step = collect_step_Inr [OF t(1) Cons.prems(2)]
  note IH = Cons.IH [OF t(2) step(1)]
  have fresh: "currency m \<notin> currency ` set ms"
    using IH by (auto simp: step(2))
  then have "map_of (map (\<lambda>m. (currency m, m)) ms) (currency m) = None"
    by (simp add: map_of_eq_None_iff image_image)
  then have "map_of acc' = map_of acc ++ map_of (map (\<lambda>m. (currency m, m)) (m # ms))"
    using IH by (auto simp: step(2) map_add_def fun_eq_iff split: option.splits)
  moreover have "distinct (map currency (m # ms))"
    using IH fresh by simp
  moreover have "\<forall>n\<in>set (m # ms). map_of acc (currency n) = None"
    using IH fresh step(3) by (auto simp: step(2) split: if_splits)
  ultimately show ?case using IH by blast
qed simp

lemma collect_loop_ok:
  assumes "currency_map_wf acc" and "distinct (map currency ms)"
    and "\<forall>m\<in>set ms. map_of acc (currency m) = None"
    and "length acc + length ms \<le> MAX_COST_CURRENCIES"
  shows "\<exists>acc'. try_fold collect_step acc ms = Inr acc'"
  using assms
proof (induction ms arbitrary: acc)
  case (Cons m ms)
  let ?t = "bt_insert (currency m) m acc"
  have step: "collect_step acc m = Inr ?t"
    using Cons.prems by (auto simp: collect_step_def)
  have "currency m \<notin> fst ` set acc"
    using Cons.prems(3) by (simp add: map_of_eq_None_iff)
  then have "length ?t + length ms \<le> MAX_COST_CURRENCIES"
    using Cons.prems(4) by (simp add: length_bt_insert_fresh)
  moreover have "currency_map_wf ?t"
    using collect_step_Inr [OF step Cons.prems(1)] by simp
  moreover have "\<forall>n\<in>set ms. map_of ?t (currency n) = None"
  proof
    fix n
    assume n: "n \<in> set ms"
    then have "currency n \<in> currency ` set ms" by simp
    with Cons.prems(2) have "currency n \<noteq> currency m" by auto
    with n Cons.prems(3) show "map_of ?t (currency n) = None" by simp
  qed
  ultimately show ?case
    using Cons.IH [of ?t] Cons.prems(2) step by auto
qed simp

text \<open>
  A collection is accepted iff its currencies are distinct and at most sixteen; the slice holds
  exactly the given entries, in ascending currency order.
\<close>

lemma collect_costs_Inr:
  assumes "collect_costs ms = Inr ns"
  shows "slice_wf ns" and "set ns = set ms" and "distinct (map currency ms)"
proof -
  from assms obtain acc where acc: "try_fold collect_step [] ms = Inr acc" "ns = map snd acc"
    by (auto simp: collect_costs_def result_simps)
  note loop = collect_loop [OF acc(1) currency_map_wf_empty]
  then show wf: "slice_wf ns" and dist: "distinct (map currency ms)"
    by (simp_all add: acc(2) slice_wf_values)
  have "distinct (map fst (map (\<lambda>m. (currency m, m)) ms))"
    using dist by (simp add: comp_def)
  then have "n \<in> set ns \<longleftrightarrow> n \<in> set ms" for n
    using slice_get_Some_iff [OF wf, of "currency n" n] slice_get_values loop acc(2)
    by (simp add: map_of_eq_Some_iff) (auto simp: map_of_eq_Some_iff)
  then show "set ns = set ms" by blast
qed

lemma collect_costs_ok_iff:
  "is_ok (collect_costs ms) \<longleftrightarrow>
     distinct (map currency ms) \<and> length ms \<le> MAX_COST_CURRENCIES"
proof
  assume "is_ok (collect_costs ms)"
  then obtain ns where ns: "collect_costs ms = Inr ns" by (auto simp: is_ok_iff)
  note wf = collect_costs_Inr [OF ns]
  have "length ms = card (set ms)"
    using wf(3) by (metis distinct_card distinct_map)
  also have "\<dots> \<le> length ns" using wf(2) card_length by metis
  also have "\<dots> \<le> MAX_COST_CURRENCIES" using wf(1) by (rule slice_wf_bounded)
  finally show "distinct (map currency ms) \<and> length ms \<le> MAX_COST_CURRENCIES"
    using wf(3) by simp
next
  assume "distinct (map currency ms) \<and> length ms \<le> MAX_COST_CURRENCIES"
  then have "\<exists>acc'. try_fold collect_step [] ms = Inr acc'"
    by (intro collect_loop_ok) auto
  then show "is_ok (collect_costs ms)"
    by (auto simp: collect_costs_def)
qed

text \<open>A slice that is already in order is collected unchanged.\<close>

lemma collect_costs_slice: "slice_wf ms \<Longrightarrow> collect_costs ms = Inr ms"
proof -
  assume wf: "slice_wf ms"
  then have "is_ok (collect_costs ms)"
    by (simp add: collect_costs_ok_iff slice_wf_def strict_sorted_iff)
  then obtain ns where ns: "collect_costs ms = Inr ns" by (auto simp: is_ok_iff)
  note facts = collect_costs_Inr [OF ns]
  have "slice_get ns = slice_get ms"
    by (rule ext, rule option_ext) (simp add: slice_get_Some_iff wf facts)
  then show ?thesis using ns slice_ext [OF facts(1) wf] by simp
qed

section \<open>Intersecting ceilings\<close>

lemma most_restrictive_iter:
  "limit_iter (cost_limits_most_restrictive l r) =
     map (\<lambda>left. money_new (currency left)
            (min (micro_units left) (micro_units (the (cost_limits_get r (currency left))))))
       (filter (\<lambda>left. cost_limits_get r (currency left) \<noteq> None) (limit_iter l))"
  by (auto simp: cost_limits_most_restrictive_def List.map_filter_def
      intro!: arg_cong2 [where f = map] filter_cong split: option.splits)

lemma most_restrictive_wf:
  assumes "cost_limits_wf l"
  shows "cost_limits_wf (cost_limits_most_restrictive l r)"
proof -
  let ?p = "\<lambda>left. cost_limits_get r (currency left) \<noteq> None"
  have "sorted_wrt (\<lambda>m n. currency m < currency n) (filter ?p (limit_iter l))"
    using assms by (intro sorted_wrt_filter) (simp add: cost_limits_wf_def slice_wf_def sorted_wrt_map)
  moreover have "length (filter ?p (limit_iter l)) \<le> MAX_COST_CURRENCIES"
    using assms cl.bounded [of l] length_filter_le order_trans by blast
  ultimately show ?thesis
    by (simp add: cost_limits_wf_def slice_wf_def most_restrictive_iter sorted_wrt_map comp_def)
qed

lemma most_restrictive_get:
  assumes "cost_limits_wf l" and "cost_limits_wf r"
  shows "cost_limits_get (cost_limits_most_restrictive l r) c =
    (case (cost_limits_get l c, cost_limits_get r c) of
       (Some m, Some n) \<Rightarrow> Some (money_new c (min (micro_units m) (micro_units n)))
     | _ \<Rightarrow> None)"
proof (rule option_ext)
  fix x
  let ?f = "\<lambda>m. money_new (currency m)
    (min (micro_units m) (micro_units (the (cost_limits_get r (currency m)))))"
  have "cost_limits_get (cost_limits_most_restrictive l r) c = Some x \<longleftrightarrow>
      (\<exists>m. m \<in> set (limit_iter l) \<and> currency m = c \<and> cost_limits_get r c \<noteq> None \<and> x = ?f m)"
    using most_restrictive_wf [OF assms(1), of r]
    by (auto simp: cl.get_Some_iff most_restrictive_iter)
  also have "\<dots> \<longleftrightarrow> (\<exists>m. cost_limits_get l c = Some m \<and> cost_limits_get r c \<noteq> None \<and> x = ?f m)"
    using assms(1) by (auto simp: cl.get_Some_iff)
  also have "\<dots> \<longleftrightarrow> (case (cost_limits_get l c, cost_limits_get r c) of
       (Some m, Some n) \<Rightarrow> Some (money_new c (min (micro_units m) (micro_units n)))
     | _ \<Rightarrow> None) = Some x"
    using cl.get_currency [OF assms(1)] by (auto split: option.splits)
  finally show "(cost_limits_get (cost_limits_most_restrictive l r) c = Some x) \<longleftrightarrow> \<dots>" .
qed

lemma most_restrictive_commute:
  assumes "cost_limits_wf l" and "cost_limits_wf r"
  shows "cost_limits_most_restrictive l r = cost_limits_most_restrictive r l"
  using assms
  by (intro cl.extensional ext)
    (simp_all add: most_restrictive_wf most_restrictive_get min.commute split: option.splits)

lemma most_restrictive_assoc:
  assumes "cost_limits_wf a" and "cost_limits_wf b" and "cost_limits_wf c"
  shows "cost_limits_most_restrictive (cost_limits_most_restrictive a b) c =
    cost_limits_most_restrictive a (cost_limits_most_restrictive b c)"
  using assms
  by (intro cl.extensional ext)
    (simp_all add: most_restrictive_wf most_restrictive_get min.assoc split: option.splits)

section \<open>Accumulating charges\<close>

text \<open>What a list of charges adds up to in one currency.\<close>

definition total_units :: "money list \<Rightarrow> currency_code \<Rightarrow> nat" where
  "total_units ms c = (\<Sum>m\<leftarrow>ms. if currency m = c then unat (micro_units m) else 0)"

lemma total_units_simps [simp]:
  "total_units [] c = 0"
  "total_units (m # ms) c = (if currency m = c then unat (micro_units m) else 0) + total_units ms c"
  "total_units (ms @ ns) c = total_units ms c + total_units ns c"
  by (simp_all add: total_units_def)

lemma total_units_absent: "c \<notin> currency ` set ms \<Longrightarrow> total_units ms c = 0"
  by (induction ms) auto

lemma total_units_get:
  assumes "known_costs_wf k"
  shows "total_units (cost_iter k) c = units_of (known_costs_get k c)"
proof -
  have dist: "distinct (map currency (cost_iter k))"
    using assms by (simp add: known_costs_wf_def slice_wf_def strict_sorted_iff)
  have "total_units ms c = unat (micro_units m)"
    if "distinct (map currency ms)" "m \<in> set ms" "currency m = c" for ms m
    using that
  proof (induction ms)
    case (Cons n ms)
    show ?case
    proof (cases "n = m")
      case True
      with Cons.prems show ?thesis by (simp add: total_units_absent)
    next
      case False
      with Cons.prems have "m \<in> set ms" by simp
      moreover from this have "currency m \<in> currency ` set ms" by simp
      ultimately show ?thesis using Cons by auto
    qed
  qed simp
  note single = this [OF dist]
  show ?thesis
  proof (cases "known_costs_get k c")
    case None
    then have "c \<notin> currency ` set (cost_iter k)" using kc.get_None_iff [OF assms] by blast
    with None show ?thesis by (simp add: total_units_absent)
  next
    case (Some m)
    then have "m \<in> set (cost_iter k)" "currency m = c" using kc.get_Some_iff [OF assms] by auto
    with Some single show ?thesis by simp
  qed
qed

lemma accumulate_step_Inr:
  assumes "accumulate_step acc m = Inr acc'" and "currency_map_wf acc"
  shows "currency_map_wf acc'"
    and "units_of (map_of acc' c) =
      units_of (map_of acc c) + (if currency m = c then unat (micro_units m) else 0)"
    and "fst ` set acc' = insert (currency m) (fst ` set acc)"
proof -
  obtain v where v: "acc' = bt_insert (currency m) v acc" "currency v = currency m"
      "unat (micro_units v) = units_of (map_of acc (currency m)) + unat (micro_units m)"
      "map_of acc (currency m) \<noteq> None \<or> length acc \<noteq> MAX_COST_CURRENCIES"
    using assms(1)
    by (auto simp: accumulate_step_def result_simps checked_add_Some_iff split: option.splits if_splits)
  show "currency_map_wf acc'" using assms(2) v by (auto intro: currency_map_wf_insert)
  show "units_of (map_of acc' c) =
      units_of (map_of acc c) + (if currency m = c then unat (micro_units m) else 0)"
    using v by auto
  show "fst ` set acc' = insert (currency m) (fst ` set acc)"
    using v by (simp add: fst_set_bt_insert)
qed

lemma accumulate_loop:
  assumes "try_fold accumulate_step acc ms = Inr acc'" and "currency_map_wf acc"
  shows "currency_map_wf acc' \<and>
    (\<forall>c. units_of (map_of acc' c) = units_of (map_of acc c) + total_units ms c) \<and>
    fst ` set acc' = fst ` set acc \<union> currency ` set ms"
  using assms
proof (induction ms arbitrary: acc)
  case (Cons m ms)
  then obtain t where t: "accumulate_step acc m = Inr t" "try_fold accumulate_step t ms = Inr acc'"
    by (auto simp: result_simps)
  note step = accumulate_step_Inr [OF t(1) Cons.prems(2)]
  from Cons.IH [OF t(2) step(1)] show ?case by (auto simp: step(2,3))
qed simp

text \<open>The loop succeeds when no currency overflows and the currencies are at most sixteen.\<close>

lemma length_card_keys: "bt_sorted acc \<Longrightarrow> length acc = card (fst ` set acc)"
  by (metis bt_sorted_distinct distinct_card length_map list.set_map)

lemma accumulate_loop_ok:
  assumes "currency_map_wf acc"
    and "\<And>c. units_of (map_of acc c) + total_units ms c < 2 ^ 64"
    and "card (fst ` set acc \<union> currency ` set ms) \<le> MAX_COST_CURRENCIES"
  shows "\<exists>acc'. try_fold accumulate_step acc ms = Inr acc'"
  using assms
proof (induction ms arbitrary: acc)
  case (Cons m ms)
  let ?dom = "fst ` set acc"
  have "length acc \<noteq> MAX_COST_CURRENCIES" if "map_of acc (currency m) = None"
  proof -
    have "length acc = card ?dom"
      using Cons.prems(1) by (simp add: currency_map_wf_def length_card_keys)
    also have "\<dots> < card (insert (currency m) ?dom)"
      using that by (simp add: map_of_eq_None_iff)
    also have "\<dots> \<le> MAX_COST_CURRENCIES"
      using Cons.prems(3) by (rule order_trans [OF card_mono, rotated -1]) auto
    finally show ?thesis by simp
  qed
  moreover have "\<exists>u. checked_add (micro_units e) (micro_units m) = Some u"
    if "map_of acc (currency m) = Some e" for e
    using that Cons.prems(2) [of "currency m"] by (simp add: checked_add_def)
  ultimately obtain t where t: "accumulate_step acc m = Inr t"
    by (cases "map_of acc (currency m)") (auto simp: accumulate_step_def)
  note step = accumulate_step_Inr [OF t Cons.prems(1)]
  have "\<exists>acc'. try_fold accumulate_step t ms = Inr acc'"
  proof (rule Cons.IH [OF step(1)])
    show "units_of (map_of t c) + total_units ms c < 2 ^ 64" for c
      using Cons.prems(2) [of c] by (simp add: step(2) add.assoc)
    show "card (fst ` set t \<union> currency ` set ms) \<le> MAX_COST_CURRENCIES"
      using Cons.prems(3) by (simp add: step(3))
  qed
  with t show ?case by simp
qed simp

lemma known_costs_accumulate_Inr:
  assumes "known_costs_checked_accumulate a b = Inr k" and "known_costs_wf a" and "known_costs_wf b"
  shows "known_costs_wf k"
    and "units_of (known_costs_get k c) = units_of (known_costs_get a c) + units_of (known_costs_get b c)"
    and "known_costs_get k c = None \<longleftrightarrow> known_costs_get a c = None \<and> known_costs_get b c = None"
proof -
  from assms(1) obtain acc where acc: "k = KnownCosts (map snd acc)"
      "try_fold accumulate_step [] (cost_iter a @ cost_iter b) = Inr acc"
    by (auto simp: known_costs_checked_accumulate_def result_simps)
  note loop = accumulate_loop [OF acc(2) currency_map_wf_empty]
  have get: "known_costs_get k = map_of acc"
    using loop by (simp add: known_costs_get_def acc(1) slice_get_values)
  show "known_costs_wf k"
    using loop by (simp add: known_costs_wf_def acc(1) slice_wf_values)
  show "units_of (known_costs_get k c) = units_of (known_costs_get a c) + units_of (known_costs_get b c)"
    using loop by (simp add: get total_units_get assms(2,3))
  show "known_costs_get k c = None \<longleftrightarrow> known_costs_get a c = None \<and> known_costs_get b c = None"
    using loop by (auto simp: get map_of_eq_None_iff kc.get_None_iff assms(2,3))
qed

definition charged :: "known_costs \<Rightarrow> currency_code set" where
  "charged k = currency ` set (cost_iter k)"

lemma known_costs_accumulate_ok_iff:
  assumes "known_costs_wf a" and "known_costs_wf b"
  shows "is_ok (known_costs_checked_accumulate a b) \<longleftrightarrow>
    (\<forall>c. units_of (known_costs_get a c) + units_of (known_costs_get b c) < 2 ^ 64) \<and>
    card (charged a \<union> charged b) \<le> MAX_COST_CURRENCIES"
proof
  assume "is_ok (known_costs_checked_accumulate a b)"
  then obtain k where k: "known_costs_checked_accumulate a b = Inr k" by (auto simp: is_ok_iff)
  note sum = known_costs_accumulate_Inr [OF k assms]
  have "units_of (known_costs_get k c) < 2 ^ 64" for c
    using unat_bound [where 'n = 64] by (cases "known_costs_get k c") simp_all
  moreover have "charged k = charged a \<union> charged b"
    using sum(3) by (simp add: charged_def kc.get_None_iff assms sum(1)) blast
  moreover have "card (charged k) \<le> MAX_COST_CURRENCIES"
    unfolding charged_def using kc.bounded [OF sum(1)]
    by (metis card_length length_map list.set_map order_trans)
  ultimately show "(\<forall>c. units_of (known_costs_get a c) + units_of (known_costs_get b c) < 2 ^ 64) \<and>
    card (charged a \<union> charged b) \<le> MAX_COST_CURRENCIES"
    by (simp add: sum(2))
next
  assume "(\<forall>c. units_of (known_costs_get a c) + units_of (known_costs_get b c) < 2 ^ 64) \<and>
    card (charged a \<union> charged b) \<le> MAX_COST_CURRENCIES"
  then have "\<exists>acc. try_fold accumulate_step [] (cost_iter a @ cost_iter b) = Inr acc"
    by (intro accumulate_loop_ok) (auto simp: total_units_get assms charged_def image_Un)
  then show "is_ok (known_costs_checked_accumulate a b)"
    by (auto simp: known_costs_checked_accumulate_def)
qed

end
