(* ===== verification/Time.thy ===== *)
theory Time
  imports Decimal
begin

text \<open>
  \<open>crates/stateknot-core/src/time.rs\<close>: the bounded clock values of every durable record. A
  \<open>Timestamp\<close> is a signed count of microseconds from the Unix epoch inside the four-digit year
  range, a \<open>DurationMillis\<close> a non-negative count of milliseconds inside the signed 64-bit range.
  Signed 64-bit integers are integers with their range written out (\<open>i64_range\<close>).

  The calendar text of a timestamp goes through the \<open>chrono\<close> crate and is not modelled; its
  conversions to and from the platform clock, and everything about durations, are.
\<close>

section \<open>Signed 64-bit integers and standard durations\<close>

definition i64_min :: int where "i64_min = - (2 ^ 63)"
definition i64_max :: int where "i64_max = 2 ^ 63 - 1"

definition i64_range :: "int \<Rightarrow> bool" where
  "i64_range v \<longleftrightarrow> i64_min \<le> v \<and> v \<le> i64_max"

definition i64_try_from :: "int \<Rightarrow> 'e \<Rightarrow> ('e, int) result" where
  "i64_try_from v e = (if i64_range v then Inr v else Inl e)"

lemma i64_try_from_Inr_iff [result_simps]: "i64_try_from v e = Inr w \<longleftrightarrow> i64_range v \<and> w = v"
  by (auto simp: i64_try_from_def)

text \<open>\<open>std::time::Duration\<close>: whole seconds and the nanoseconds of the last second.\<close>

record duration =
  secs :: u64
  subsec_nanos :: nat

definition duration_wf :: "duration \<Rightarrow> bool" where
  "duration_wf d \<longleftrightarrow> subsec_nanos d < 1000000000"

text \<open>Constructors of the standard library for a count of micro- or milliseconds in a \<open>u64\<close>.\<close>

definition duration_from_micros :: "nat \<Rightarrow> duration" where
  "duration_from_micros m =
     \<lparr>secs = word_of_nat (m div 1000000), subsec_nanos = (m mod 1000000) * 1000\<rparr>"

definition duration_from_millis :: "nat \<Rightarrow> duration" where
  "duration_from_millis m =
     \<lparr>secs = word_of_nat (m div 1000), subsec_nanos = (m mod 1000) * 1000000\<rparr>"

definition duration_nanos :: "duration \<Rightarrow> nat" where
  "duration_nanos d = unat (secs d) * 1000000000 + subsec_nanos d"

definition as_millis :: "duration \<Rightarrow> nat" where
  "as_millis d = unat (secs d) * 1000 + subsec_nanos d div 1000000"

section \<open>Timestamps\<close>

datatype timestamp = Timestamp (unix_micros: int)

instantiation timestamp :: linorder
begin

definition less_eq_timestamp :: "timestamp \<Rightarrow> timestamp \<Rightarrow> bool" where
  "less_eq_timestamp s t \<longleftrightarrow> unix_micros s \<le> unix_micros t"

definition less_timestamp :: "timestamp \<Rightarrow> timestamp \<Rightarrow> bool" where
  "less_timestamp s t \<longleftrightarrow> unix_micros s < unix_micros t"

instance
  by standard (auto simp: less_eq_timestamp_def less_timestamp_def timestamp.expand)

end

lemma timestamp_order_simps [simp]:
  "Timestamp a \<le> Timestamp b \<longleftrightarrow> a \<le> b"
  "Timestamp a < Timestamp b \<longleftrightarrow> a < b"
  by (simp_all add: less_eq_timestamp_def less_timestamp_def)

datatype timestamp_error =
  TimestampOutOfRange
| SubmicrosecondPrecision
| SystemTimeOutOfRange

definition timestamp_MIN :: timestamp where "timestamp_MIN = Timestamp (- 62167219200000000)"
definition timestamp_MAX :: timestamp where "timestamp_MAX = Timestamp 253402300799999999"

definition timestamp_wf :: "timestamp \<Rightarrow> bool" where
  "timestamp_wf t \<longleftrightarrow> timestamp_MIN \<le> t \<and> t \<le> timestamp_MAX"

definition from_unix_micros :: "int \<Rightarrow> (timestamp_error, timestamp) result" where
  "from_unix_micros v =
     and_then (reject_if (v < unix_micros timestamp_MIN \<or> v > unix_micros timestamp_MAX)
       TimestampOutOfRange) (\<lambda>_. Inr (Timestamp v))"

definition timestamp_from_duration ::
  "duration \<Rightarrow> bool \<Rightarrow> (timestamp_error, timestamp) result" where
  "timestamp_from_duration d before_epoch =
     and_then (reject_if (subsec_nanos d mod 1000 \<noteq> 0) SubmicrosecondPrecision) (\<lambda>_.
       let magnitude = int (unat (secs d)) * 1000000 + int (subsec_nanos d div 1000);
           v = (if before_epoch then - magnitude else magnitude)
       in and_then (i64_try_from v TimestampOutOfRange) from_unix_micros)"

text \<open>
  \<open>SystemTime\<close> is a signed offset from the Unix epoch in nanoseconds; which offsets a platform
  represents is a parameter, since \<open>checked_add\<close> and \<open>checked_sub\<close> answer \<open>None\<close> outside it.
\<close>

type_synonym system_time = int

definition to_system_time ::
  "(system_time \<Rightarrow> bool) \<Rightarrow> timestamp \<Rightarrow> (timestamp_error, system_time) result" where
  "to_system_time representable t =
     (let magnitude = int (duration_nanos (duration_from_micros (nat \<bar>unix_micros t\<bar>)));
          offset = (if unix_micros t \<ge> 0 then magnitude else - magnitude)
      in if representable offset then Inr offset else Inl SystemTimeOutOfRange)"

definition nanos_duration :: "nat \<Rightarrow> duration" where
  "nanos_duration n =
     \<lparr>secs = word_of_nat (n div 1000000000), subsec_nanos = n mod 1000000000\<rparr>"

definition timestamp_try_from :: "system_time \<Rightarrow> (timestamp_error, timestamp) result" where
  "timestamp_try_from st =
     (if st \<ge> 0 then timestamp_from_duration (nanos_duration (nat st)) False
      else timestamp_from_duration (nanos_duration (nat (- st))) True)"

section \<open>Durations in milliseconds\<close>

datatype duration_millis = DurationMillis (as_i64: int)

instantiation duration_millis :: linorder
begin

definition less_eq_duration_millis :: "duration_millis \<Rightarrow> duration_millis \<Rightarrow> bool" where
  "less_eq_duration_millis s t \<longleftrightarrow> as_i64 s \<le> as_i64 t"

definition less_duration_millis :: "duration_millis \<Rightarrow> duration_millis \<Rightarrow> bool" where
  "less_duration_millis s t \<longleftrightarrow> as_i64 s < as_i64 t"

instance
  by standard
    (auto simp: less_eq_duration_millis_def less_duration_millis_def duration_millis.expand)

end

datatype duration_millis_error =
  NegativeDuration int
| DurationInvalidFormat
| DurationNonCanonical
| DurationTooLarge
| SubmillisecondPrecision

definition duration_millis_wf :: "duration_millis \<Rightarrow> bool" where
  "duration_millis_wf d \<longleftrightarrow> 0 \<le> as_i64 d \<and> as_i64 d \<le> i64_max"

definition duration_millis_new :: "int \<Rightarrow> (duration_millis_error, duration_millis) result" where
  "duration_millis_new m =
     and_then (reject_if (m < 0) (NegativeDuration m)) (\<lambda>_. Inr (DurationMillis m))"

definition duration_checked_add ::
  "duration_millis \<Rightarrow> duration_millis \<Rightarrow> duration_millis option" where
  "duration_checked_add a b =
     (if i64_range (as_i64 a + as_i64 b) then Some (DurationMillis (as_i64 a + as_i64 b))
      else None)"

definition duration_checked_sub ::
  "duration_millis \<Rightarrow> duration_millis \<Rightarrow> duration_millis option" where
  "duration_checked_sub a b =
     (if i64_range (as_i64 a - as_i64 b) \<and> as_i64 a - as_i64 b \<ge> 0
      then Some (DurationMillis (as_i64 a - as_i64 b)) else None)"

fun duration_from_decimal_error :: "unsigned_decimal_error \<Rightarrow> duration_millis_error" where
  "duration_from_decimal_error Empty = DurationInvalidFormat"
| "duration_from_decimal_error (InvalidCharacter _) = DurationInvalidFormat"
| "duration_from_decimal_error LeadingZero = DurationNonCanonical"
| "duration_from_decimal_error (TooLong _ _) = DurationTooLarge"
| "duration_from_decimal_error Overflow = DurationTooLarge"

definition duration_from_str :: "string \<Rightarrow> (duration_millis_error, duration_millis) result" where
  "duration_from_str s =
     and_then (map_err duration_from_decimal_error
                 (parse_bounded_u64 s (word_of_int i64_max))) (\<lambda>parsed.
     and_then (i64_try_from (int (unat parsed)) DurationTooLarge) (\<lambda>m. Inr (DurationMillis m)))"

definition duration_display :: "duration_millis \<Rightarrow> string" where
  "duration_display d = display_nat (nat (as_i64 d))"

definition duration_try_from_u64 ::
  "u64 \<Rightarrow> (duration_millis_error, duration_millis) result" where
  "duration_try_from_u64 v =
     and_then (i64_try_from (int (unat v)) DurationTooLarge) (\<lambda>m. Inr (DurationMillis m))"

definition duration_try_from ::
  "duration \<Rightarrow> (duration_millis_error, duration_millis) result" where
  "duration_try_from d =
     and_then (reject_if (subsec_nanos d mod 1000000 \<noteq> 0) SubmillisecondPrecision) (\<lambda>_.
     and_then (i64_try_from (int (as_millis d)) DurationTooLarge) (\<lambda>m. Inr (DurationMillis m)))"

definition duration_into :: "duration_millis \<Rightarrow> duration" where
  "duration_into d = duration_from_millis (nat \<bar>as_i64 d\<bar>)"

section \<open>Properties\<close>

lemma i64_bounds: "i64_min = - 9223372036854775808" "i64_max = 9223372036854775807"
  by (simp_all add: i64_min_def i64_max_def)

lemmas time_defs = timestamp_wf_def timestamp_MIN_def timestamp_MAX_def i64_range_def i64_bounds

lemma from_unix_micros_Inr_iff [result_simps]:
  "from_unix_micros v = Inr t \<longleftrightarrow> t = Timestamp v \<and> timestamp_wf t"
  by (auto simp: from_unix_micros_def result_simps time_defs not_less)

lemma timestamp_wf_i64: "timestamp_wf t \<Longrightarrow> i64_range (unix_micros t)"
  by (cases t) (simp add: time_defs)

lemma nanos_of_micros:
  "nanos_duration (duration_nanos (duration_from_micros m)) = duration_from_micros m"
  if "m < 2 ^ 63"
proof -
  have "m div 1000000 < 2 ^ LENGTH(64)"
    using that by simp
  then have "unat (word_of_nat (m div 1000000) :: u64) = m div 1000000"
    by (simp add: unat_of_nat)
  then show ?thesis
    by (simp add: nanos_duration_def duration_nanos_def duration_from_micros_def)
qed

lemma timestamp_from_micros:
  assumes "m < 2 ^ 63"
  shows "timestamp_from_duration (duration_from_micros m) b =
           and_then (i64_try_from (if b then - int m else int m) TimestampOutOfRange)
             from_unix_micros"
proof -
  have "unat (word_of_nat (m div 1000000) :: u64) = m div 1000000"
    using assms by (simp add: unat_of_nat)
  moreover have "int (m div 1000000) * 1000000 + int (m mod 1000000) = int m"
    by (metis div_mult_mod_eq of_nat_add of_nat_mult of_nat_numeral)
  ultimately show ?thesis
    by (simp add: timestamp_from_duration_def duration_from_micros_def)
qed

text \<open>
  Converting a valid timestamp to the platform clock and back gives the same timestamp, on
  every platform whose clock can represent it: no precision is lost and no sign is confused,
  before or after the Unix epoch.
\<close>

lemma system_time_roundtrip:
  assumes "timestamp_wf t" and "to_system_time representable t = Inr st"
  shows "timestamp_try_from st = Inr t"
proof -
  define m where "m = nat \<bar>unix_micros t\<bar>"
  have m: "m < 2 ^ 63"
    using assms(1) by (cases t) (simp add: m_def time_defs, arith)
  from assms(2) have st: "st = (if unix_micros t \<ge> 0
      then int (duration_nanos (duration_from_micros m))
      else - int (duration_nanos (duration_from_micros m)))"
    by (auto simp: to_system_time_def Let_def m_def split: if_splits)
  have pos: "0 < duration_nanos (duration_from_micros m)" if "unix_micros t < 0"
  proof (rule ccontr)
    assume "\<not> 0 < duration_nanos (duration_from_micros m)"
    then have "m div 1000000 = 0 \<and> m mod 1000000 = 0"
      using m by (simp add: duration_nanos_def duration_from_micros_def unat_of_nat)
    then have "m = 0" by (metis div_mod_decomp mult_zero_left add_0)
    with that show False by (simp add: m_def)
  qed
  have "timestamp_try_from st =
      timestamp_from_duration (duration_from_micros m) (unix_micros t < 0)"
    using nanos_of_micros [OF m] st pos by (auto simp: timestamp_try_from_def)
  also have "\<dots> = Inr t"
    using assms(1) timestamp_wf_i64 [OF assms(1)]
    unfolding timestamp_from_micros [OF m] by (cases t) (auto simp: result_simps m_def)
  finally show ?thesis .
qed

theorem system_time_roundtrip_witness:
  "timestamp_wf (Timestamp (- 1500000)) \<and>
   to_system_time (\<lambda>_. True) (Timestamp (- 1500000)) = Inr (- 1500000000) \<and>
   timestamp_try_from (- 1500000000) = Inr (Timestamp (- 1500000))"
proof -
  have wf: "timestamp_wf (Timestamp (- 1500000))" by (simp add: time_defs)
  have st: "to_system_time (\<lambda>_. True) (Timestamp (- 1500000)) = Inr (- 1500000000)"
    by (simp add: to_system_time_def duration_nanos_def duration_from_micros_def)
  from wf st system_time_roundtrip [OF wf st] show ?thesis by blast
qed

lemma i64_max_word: "unat (word_of_int i64_max :: u64) = 9223372036854775807"
  by (simp add: i64_bounds)

lemma duration_from_str_iff:
  "duration_from_str s = Inr d \<longleftrightarrow> s = duration_display d \<and> duration_millis_wf d"
proof
  assume "duration_from_str s = Inr d"
  then obtain v where "s = display_u64 v" "v \<le> word_of_int i64_max"
    and "d = DurationMillis (int (unat v))" and "i64_range (int (unat v))"
    by (auto simp: duration_from_str_def result_simps parse_bounded_u64_Inr_iff)
  then show "s = duration_display d \<and> duration_millis_wf d"
    by (simp add: duration_display_def display_u64_def duration_millis_wf_def i64_range_def)
next
  assume d: "s = duration_display d \<and> duration_millis_wf d"
  then have "nat (as_i64 d) < 2 ^ LENGTH(64)"
    by (simp add: duration_millis_wf_def i64_bounds) arith
  then obtain v :: u64 where v: "unat v = nat (as_i64 d)"
    using unat_witness by blast
  then have "s = display_u64 v" and "v \<le> word_of_int i64_max"
    using d i64_max_word
    by (auto simp: duration_display_def display_u64_def duration_millis_wf_def word_le_nat i64_bounds)
  then have "parse_bounded_u64 s (word_of_int i64_max) = Inr v"
    by (simp add: parse_bounded_u64_Inr_iff)
  moreover have "int (unat v) = as_i64 d" and "i64_range (as_i64 d)"
    using d v by (auto simp: duration_millis_wf_def i64_range_def i64_bounds)
  ultimately show "duration_from_str s = Inr d"
    by (simp add: duration_from_str_def i64_try_from_def)
qed

lemma duration_ops_wf:
  assumes "duration_millis_wf a" and "duration_millis_wf b"
  shows "duration_checked_add a b = Some c \<Longrightarrow> duration_millis_wf c"
    and "duration_checked_sub a b = Some c \<Longrightarrow> duration_millis_wf c"
  using assms
  by (auto simp: duration_checked_add_def duration_checked_sub_def duration_millis_wf_def
      i64_range_def split: if_splits)

lemma duration_into_roundtrip:
  assumes "duration_millis_wf d"
  shows "duration_try_from (duration_into d) = Inr d"
proof -
  define m where "m = nat (as_i64 d)"
  have m: "int m = as_i64 d" "m < 2 ^ 63"
    using assms by (auto simp: m_def duration_millis_wf_def i64_bounds)
  then have "unat (word_of_nat (m div 1000) :: u64) = m div 1000"
    by (simp add: unat_of_nat)
  moreover have "m div 1000 * 1000 + m mod 1000 = m" by simp
  ultimately have "as_millis (duration_into d) = m"
    using m(1) by (simp add: as_millis_def duration_into_def duration_from_millis_def
        abs_of_nonneg flip: m(1))
  moreover have "subsec_nanos (duration_into d) mod 1000000 = 0"
    by (simp add: duration_into_def duration_from_millis_def)
  ultimately show ?thesis
    using assms m
    by (cases d) (simp add: duration_try_from_def i64_try_from_def i64_range_def
        duration_millis_wf_def i64_bounds)
qed

text \<open>
  Durations are exact: a text is read as a duration iff it is that duration's canonical text
  and the duration is a non-negative signed 64-bit count; the conversion to the standard library's
  \<open>Duration\<close> and back is the identity; and checked subtraction undoes checked addition.
\<close>

lemma duration_millis_exact:
  "(duration_from_str s = Inr d \<longleftrightarrow> s = duration_display d \<and> duration_millis_wf d) \<and>
   (duration_millis_wf d \<longrightarrow> duration_try_from (duration_into d) = Inr d) \<and>
   (duration_millis_wf d \<and> duration_millis_wf e \<and> duration_checked_add d e = Some f \<longrightarrow>
      duration_millis_wf f \<and> duration_checked_sub f e = Some d)"
  using duration_from_str_iff [of s d] duration_into_roundtrip [of d] duration_ops_wf [of d e f]
  by (cases d) (auto simp: duration_checked_add_def duration_checked_sub_def
      duration_millis_wf_def i64_range_def i64_bounds split: if_splits)

theorem duration_millis_exact_witness:
  "duration_from_str ''1500'' = Inr (DurationMillis 1500) \<and>
   duration_try_from (duration_into (DurationMillis 1500)) = Inr (DurationMillis 1500) \<and>
   duration_checked_sub (DurationMillis 1540) (DurationMillis 40) = Some (DurationMillis 1500)"
proof -
  have wf: "duration_millis_wf (DurationMillis 1500)" "duration_millis_wf (DurationMillis 40)"
    by (simp_all add: duration_millis_wf_def i64_bounds)
  have shown: "''1500'' = duration_display (DurationMillis 1500)"
    by (simp add: duration_display_def display_nat.simps digit_char_def) code_simp
  have sum: "duration_checked_add (DurationMillis 1500) (DurationMillis 40) =
      Some (DurationMillis 1540)"
    by (simp add: duration_checked_add_def i64_range_def i64_bounds)
  show ?thesis
    using duration_millis_exact [of "''1500''" "DurationMillis 1500" "DurationMillis 40"
        "DurationMillis 1540"] wf shown sum by simp
qed

end
