(* ===== verification/BudgetLimits.thy ===== *)
theory BudgetLimits
  imports Costs Time "HOL-Library.Multiset"
begin

text \<open>
  \<open>crates/stateknot-core/src/budget.rs\<close>, ceilings: the partial layers \<open>BudgetLimits\<close>, their
  intersection, the complete \<open>ResolvedBudget\<close>, and the comparison \<open>validate_narrowing\<close> of a delegated
  budget with its parent. The getters and the consuming setters \<open>with_<field>\<close> of the sources are the
  selectors and the updates of the records. The function \<open>limit_of\<close> reads a budget by dimension,
  which is how the theorems speak about all of its fields at once.
\<close>

section \<open>Dimensions and layers\<close>

datatype budget_dimension =
  Deadline
| GraphDepth
| GraphSteps
| ModelAttempts
| ModelTurns
| InputTokens
| CachedInputTokens
| ReasoningTokens
| OutputTokens
| ToolCalls
| WriteCalls
| RemoteAgentDelegations
| Retries
| ConcurrentBranches
| FanOut
| InputBytes
| OutputBytes
| EventBytes
| CheckpointBytes
| ArtifactBytes
| Costs

definition MAX_BUDGET_LAYERS :: nat where "MAX_BUDGET_LAYERS = 16"

record budget_limits =
  bl_deadline :: "timestamp option"
  bl_graph_depth :: "execution_count option"
  bl_graph_steps :: "execution_count option"
  bl_model_attempts :: "execution_count option"
  bl_model_turns :: "execution_count option"
  bl_input_tokens :: "token_count option"
  bl_cached_input_tokens :: "token_count option"
  bl_reasoning_tokens :: "token_count option"
  bl_output_tokens :: "token_count option"
  bl_tool_calls :: "execution_count option"
  bl_write_calls :: "execution_count option"
  bl_remote_agent_delegations :: "execution_count option"
  bl_retries :: "execution_count option"
  bl_concurrent_branches :: "execution_count option"
  bl_fan_out :: "execution_count option"
  bl_input_bytes :: "byte_count option"
  bl_output_bytes :: "byte_count option"
  bl_event_bytes :: "byte_count option"
  bl_checkpoint_bytes :: "byte_count option"
  bl_artifact_bytes :: "byte_count option"
  bl_costs :: "cost_limits option"

definition budget_limits_empty :: budget_limits where
  "budget_limits_empty =
     \<lparr>bl_deadline = None,
      bl_graph_depth = None,
      bl_graph_steps = None,
      bl_model_attempts = None,
      bl_model_turns = None,
      bl_input_tokens = None,
      bl_cached_input_tokens = None,
      bl_reasoning_tokens = None,
      bl_output_tokens = None,
      bl_tool_calls = None,
      bl_write_calls = None,
      bl_remote_agent_delegations = None,
      bl_retries = None,
      bl_concurrent_branches = None,
      bl_fan_out = None,
      bl_input_bytes = None,
      bl_output_bytes = None,
      bl_event_bytes = None,
      bl_checkpoint_bytes = None,
      bl_artifact_bytes = None,
      bl_costs = None\<rparr>"

definition budget_limits_is_empty :: "budget_limits \<Rightarrow> bool" where
  "budget_limits_is_empty l \<longleftrightarrow>
     bl_deadline l = None \<and>
     bl_graph_depth l = None \<and>
     bl_graph_steps l = None \<and>
     bl_model_attempts l = None \<and>
     bl_model_turns l = None \<and>
     bl_input_tokens l = None \<and>
     bl_cached_input_tokens l = None \<and>
     bl_reasoning_tokens l = None \<and>
     bl_output_tokens l = None \<and>
     bl_tool_calls l = None \<and>
     bl_write_calls l = None \<and>
     bl_remote_agent_delegations l = None \<and>
     bl_retries l = None \<and>
     bl_concurrent_branches l = None \<and>
     bl_fan_out l = None \<and>
     bl_input_bytes l = None \<and>
     bl_output_bytes l = None \<and>
     bl_event_bytes l = None \<and>
     bl_checkpoint_bytes l = None \<and>
     bl_artifact_bytes l = None \<and>
     bl_costs l = None"

definition min_option :: "'a::linorder option \<Rightarrow> 'a option \<Rightarrow> 'a option" where
  "min_option l r =
     (case (l, r) of
        (Some x, Some y) \<Rightarrow> Some (min x y)
      | (Some x, None) \<Rightarrow> Some x
      | (None, Some y) \<Rightarrow> Some y
      | (None, None) \<Rightarrow> None)"

definition costs_most_restrictive ::
  "cost_limits option \<Rightarrow> cost_limits option \<Rightarrow> cost_limits option" where
  "costs_most_restrictive l r =
     (case (l, r) of
        (Some x, Some y) \<Rightarrow> Some (cost_limits_most_restrictive x y)
      | (Some x, None) \<Rightarrow> Some x
      | (None, Some y) \<Rightarrow> Some y
      | (None, None) \<Rightarrow> None)"

definition most_restrictive :: "budget_limits \<Rightarrow> budget_limits \<Rightarrow> budget_limits" where
  "most_restrictive l r =
     \<lparr>bl_deadline = min_option (bl_deadline l) (bl_deadline r),
      bl_graph_depth = min_option (bl_graph_depth l) (bl_graph_depth r),
      bl_graph_steps = min_option (bl_graph_steps l) (bl_graph_steps r),
      bl_model_attempts = min_option (bl_model_attempts l) (bl_model_attempts r),
      bl_model_turns = min_option (bl_model_turns l) (bl_model_turns r),
      bl_input_tokens = min_option (bl_input_tokens l) (bl_input_tokens r),
      bl_cached_input_tokens = min_option (bl_cached_input_tokens l) (bl_cached_input_tokens r),
      bl_reasoning_tokens = min_option (bl_reasoning_tokens l) (bl_reasoning_tokens r),
      bl_output_tokens = min_option (bl_output_tokens l) (bl_output_tokens r),
      bl_tool_calls = min_option (bl_tool_calls l) (bl_tool_calls r),
      bl_write_calls = min_option (bl_write_calls l) (bl_write_calls r),
      bl_remote_agent_delegations = min_option (bl_remote_agent_delegations l) (bl_remote_agent_delegations r),
      bl_retries = min_option (bl_retries l) (bl_retries r),
      bl_concurrent_branches = min_option (bl_concurrent_branches l) (bl_concurrent_branches r),
      bl_fan_out = min_option (bl_fan_out l) (bl_fan_out r),
      bl_input_bytes = min_option (bl_input_bytes l) (bl_input_bytes r),
      bl_output_bytes = min_option (bl_output_bytes l) (bl_output_bytes r),
      bl_event_bytes = min_option (bl_event_bytes l) (bl_event_bytes r),
      bl_checkpoint_bytes = min_option (bl_checkpoint_bytes l) (bl_checkpoint_bytes r),
      bl_artifact_bytes = min_option (bl_artifact_bytes l) (bl_artifact_bytes r),
      bl_costs = costs_most_restrictive (bl_costs l) (bl_costs r)\<rparr>"

section \<open>Resolved budgets\<close>

record resolved_budget =
  rb_deadline :: timestamp
  rb_graph_depth :: execution_count
  rb_graph_steps :: execution_count
  rb_model_attempts :: execution_count
  rb_model_turns :: execution_count
  rb_input_tokens :: token_count
  rb_cached_input_tokens :: token_count
  rb_reasoning_tokens :: token_count
  rb_output_tokens :: token_count
  rb_tool_calls :: execution_count
  rb_write_calls :: execution_count
  rb_remote_agent_delegations :: execution_count
  rb_retries :: execution_count
  rb_concurrent_branches :: execution_count
  rb_fan_out :: execution_count
  rb_input_bytes :: byte_count
  rb_output_bytes :: byte_count
  rb_event_bytes :: byte_count
  rb_checkpoint_bytes :: byte_count
  rb_artifact_bytes :: byte_count
  rb_costs :: cost_limits

datatype budget_resolution_error =
  EmptyLayers
| TooManyLayers nat nat
| Missing budget_dimension
| InvalidSubsetLimit budget_dimension budget_dimension

definition required ::
  "'a option \<Rightarrow> budget_dimension \<Rightarrow> (budget_resolution_error, 'a) result" where
  "required v d = ok_or v (Missing d)"

definition resolve_effective ::
  "budget_limits \<Rightarrow> (budget_resolution_error, resolved_budget) result" where
  "resolve_effective e =
     and_then (required (bl_input_tokens e) InputTokens) (\<lambda>input_tokens.
     and_then (required (bl_output_tokens e) OutputTokens) (\<lambda>output_tokens.
     and_then (required (bl_tool_calls e) ToolCalls) (\<lambda>tool_calls.
     and_then (required (bl_cached_input_tokens e) CachedInputTokens) (\<lambda>cached_input_tokens.
     and_then (required (bl_reasoning_tokens e) ReasoningTokens) (\<lambda>reasoning_tokens.
     and_then (required (bl_write_calls e) WriteCalls) (\<lambda>write_calls.
     and_then (required (bl_deadline e) Deadline) (\<lambda>deadline.
     and_then (required (bl_graph_depth e) GraphDepth) (\<lambda>graph_depth.
     and_then (required (bl_graph_steps e) GraphSteps) (\<lambda>graph_steps.
     and_then (required (bl_model_attempts e) ModelAttempts) (\<lambda>model_attempts.
     and_then (required (bl_model_turns e) ModelTurns) (\<lambda>model_turns.
     and_then (required (bl_remote_agent_delegations e) RemoteAgentDelegations) (\<lambda>remote_agent_delegations.
     and_then (required (bl_retries e) Retries) (\<lambda>retries.
     and_then (required (bl_concurrent_branches e) ConcurrentBranches) (\<lambda>concurrent_branches.
     and_then (required (bl_fan_out e) FanOut) (\<lambda>fan_out.
     and_then (required (bl_input_bytes e) InputBytes) (\<lambda>input_bytes.
     and_then (required (bl_output_bytes e) OutputBytes) (\<lambda>output_bytes.
     and_then (required (bl_event_bytes e) EventBytes) (\<lambda>event_bytes.
     and_then (required (bl_checkpoint_bytes e) CheckpointBytes) (\<lambda>checkpoint_bytes.
     and_then (required (bl_artifact_bytes e) ArtifactBytes) (\<lambda>artifact_bytes.
     and_then (required (bl_costs e) Costs) (\<lambda>costs.
     Inr \<lparr>rb_deadline = deadline,
      rb_graph_depth = graph_depth,
      rb_graph_steps = graph_steps,
      rb_model_attempts = model_attempts,
      rb_model_turns = model_turns,
      rb_input_tokens = input_tokens,
      rb_cached_input_tokens = min cached_input_tokens input_tokens,
      rb_reasoning_tokens = min reasoning_tokens output_tokens,
      rb_output_tokens = output_tokens,
      rb_tool_calls = tool_calls,
      rb_write_calls = min write_calls tool_calls,
      rb_remote_agent_delegations = remote_agent_delegations,
      rb_retries = retries,
      rb_concurrent_branches = concurrent_branches,
      rb_fan_out = fan_out,
      rb_input_bytes = input_bytes,
      rb_output_bytes = output_bytes,
      rb_event_bytes = event_bytes,
      rb_checkpoint_bytes = checkpoint_bytes,
      rb_artifact_bytes = artifact_bytes,
      rb_costs = costs\<rparr>)))))))))))))))))))))"

definition resolve :: "budget_limits list \<Rightarrow> (budget_resolution_error, resolved_budget) result" where
  "resolve layers =
     and_then (reject_if (layers = []) EmptyLayers) (\<lambda>_.
     and_then (reject_if (length layers > MAX_BUDGET_LAYERS)
                 (TooManyLayers MAX_BUDGET_LAYERS (length layers))) (\<lambda>_.
     resolve_effective
       (fold (\<lambda>layer effective. most_restrictive effective layer) layers budget_limits_empty)))"

definition resolved_validate :: "resolved_budget \<Rightarrow> (budget_resolution_error, unit) result" where
  "resolved_validate b =
     reject_first
       [(rb_cached_input_tokens b > rb_input_tokens b, InvalidSubsetLimit CachedInputTokens InputTokens),
        (rb_reasoning_tokens b > rb_output_tokens b, InvalidSubsetLimit ReasoningTokens OutputTokens),
        (rb_write_calls b > rb_tool_calls b, InvalidSubsetLimit WriteCalls ToolCalls)]"

text \<open>Reading a budget from the wire: the fields are taken over and then validated.\<close>

definition resolved_from_wire ::
  "resolved_budget \<Rightarrow> (budget_resolution_error, resolved_budget) result" where
  "resolved_from_wire w = and_then (resolved_validate w) (\<lambda>_. Inr w)"

section \<open>Narrowing\<close>

datatype budget_narrowing_error =
  Widened budget_dimension
| NarrowingUnbudgetedCurrency currency_code
| CostWidened currency_code

definition narrowing_cost_step ::
  "resolved_budget \<Rightarrow> unit \<Rightarrow> money \<Rightarrow> (budget_narrowing_error, unit) result" where
  "narrowing_cost_step parent u limit =
     and_then (ok_or (cost_limits_get (rb_costs parent) (currency limit))
                 (NarrowingUnbudgetedCurrency (currency limit))) (\<lambda>outer.
     reject_if (micro_units limit > micro_units outer) (CostWidened (currency limit)))"

definition validate_narrowing ::
  "resolved_budget \<Rightarrow> resolved_budget \<Rightarrow> (budget_narrowing_error, unit) result" where
  "validate_narrowing b parent =
     and_then (reject_first
       [(rb_deadline b > rb_deadline parent, Widened Deadline),
        (rb_graph_depth b > rb_graph_depth parent, Widened GraphDepth),
        (rb_graph_steps b > rb_graph_steps parent, Widened GraphSteps),
        (rb_model_attempts b > rb_model_attempts parent, Widened ModelAttempts),
        (rb_model_turns b > rb_model_turns parent, Widened ModelTurns),
        (rb_input_tokens b > rb_input_tokens parent, Widened InputTokens),
        (rb_cached_input_tokens b > rb_cached_input_tokens parent, Widened CachedInputTokens),
        (rb_reasoning_tokens b > rb_reasoning_tokens parent, Widened ReasoningTokens),
        (rb_output_tokens b > rb_output_tokens parent, Widened OutputTokens),
        (rb_tool_calls b > rb_tool_calls parent, Widened ToolCalls),
        (rb_write_calls b > rb_write_calls parent, Widened WriteCalls),
        (rb_remote_agent_delegations b > rb_remote_agent_delegations parent, Widened RemoteAgentDelegations),
        (rb_retries b > rb_retries parent, Widened Retries),
        (rb_concurrent_branches b > rb_concurrent_branches parent, Widened ConcurrentBranches),
        (rb_fan_out b > rb_fan_out parent, Widened FanOut),
        (rb_input_bytes b > rb_input_bytes parent, Widened InputBytes),
        (rb_output_bytes b > rb_output_bytes parent, Widened OutputBytes),
        (rb_event_bytes b > rb_event_bytes parent, Widened EventBytes),
        (rb_checkpoint_bytes b > rb_checkpoint_bytes parent, Widened CheckpointBytes),
        (rb_artifact_bytes b > rb_artifact_bytes parent, Widened ArtifactBytes)]) (\<lambda>_.
     try_fold (narrowing_cost_step parent) () (limit_iter (rb_costs b)))"

section \<open>Budgets by dimension\<close>

text \<open>
  The ceiling of a dimension. Currencies are no dimension: \<open>Costs\<close> stands for the events without a price,
  of which none is allowed, and the ceilings of the currencies are read with \<open>cost_limits_get\<close>.
\<close>

fun limit_of :: "resolved_budget \<Rightarrow> budget_dimension \<Rightarrow> int" where
  "limit_of b Deadline = unix_micros (rb_deadline b)"
| "limit_of b GraphDepth = int (executions (rb_graph_depth b))"
| "limit_of b GraphSteps = int (executions (rb_graph_steps b))"
| "limit_of b ModelAttempts = int (executions (rb_model_attempts b))"
| "limit_of b ModelTurns = int (executions (rb_model_turns b))"
| "limit_of b InputTokens = int (tokens (rb_input_tokens b))"
| "limit_of b CachedInputTokens = int (tokens (rb_cached_input_tokens b))"
| "limit_of b ReasoningTokens = int (tokens (rb_reasoning_tokens b))"
| "limit_of b OutputTokens = int (tokens (rb_output_tokens b))"
| "limit_of b ToolCalls = int (executions (rb_tool_calls b))"
| "limit_of b WriteCalls = int (executions (rb_write_calls b))"
| "limit_of b RemoteAgentDelegations = int (executions (rb_remote_agent_delegations b))"
| "limit_of b Retries = int (executions (rb_retries b))"
| "limit_of b ConcurrentBranches = int (executions (rb_concurrent_branches b))"
| "limit_of b FanOut = int (executions (rb_fan_out b))"
| "limit_of b InputBytes = int (bytes (rb_input_bytes b))"
| "limit_of b OutputBytes = int (bytes (rb_output_bytes b))"
| "limit_of b EventBytes = int (bytes (rb_event_bytes b))"
| "limit_of b CheckpointBytes = int (bytes (rb_checkpoint_bytes b))"
| "limit_of b ArtifactBytes = int (bytes (rb_artifact_bytes b))"
| "limit_of b Costs = 0"

fun layer_limit :: "budget_limits \<Rightarrow> budget_dimension \<Rightarrow> int option" where
  "layer_limit l Deadline = map_option unix_micros (bl_deadline l)"
| "layer_limit l GraphDepth = map_option (\<lambda>c. int (executions c)) (bl_graph_depth l)"
| "layer_limit l GraphSteps = map_option (\<lambda>c. int (executions c)) (bl_graph_steps l)"
| "layer_limit l ModelAttempts = map_option (\<lambda>c. int (executions c)) (bl_model_attempts l)"
| "layer_limit l ModelTurns = map_option (\<lambda>c. int (executions c)) (bl_model_turns l)"
| "layer_limit l InputTokens = map_option (\<lambda>c. int (tokens c)) (bl_input_tokens l)"
| "layer_limit l CachedInputTokens = map_option (\<lambda>c. int (tokens c)) (bl_cached_input_tokens l)"
| "layer_limit l ReasoningTokens = map_option (\<lambda>c. int (tokens c)) (bl_reasoning_tokens l)"
| "layer_limit l OutputTokens = map_option (\<lambda>c. int (tokens c)) (bl_output_tokens l)"
| "layer_limit l ToolCalls = map_option (\<lambda>c. int (executions c)) (bl_tool_calls l)"
| "layer_limit l WriteCalls = map_option (\<lambda>c. int (executions c)) (bl_write_calls l)"
| "layer_limit l RemoteAgentDelegations = map_option (\<lambda>c. int (executions c)) (bl_remote_agent_delegations l)"
| "layer_limit l Retries = map_option (\<lambda>c. int (executions c)) (bl_retries l)"
| "layer_limit l ConcurrentBranches = map_option (\<lambda>c. int (executions c)) (bl_concurrent_branches l)"
| "layer_limit l FanOut = map_option (\<lambda>c. int (executions c)) (bl_fan_out l)"
| "layer_limit l InputBytes = map_option (\<lambda>c. int (bytes c)) (bl_input_bytes l)"
| "layer_limit l OutputBytes = map_option (\<lambda>c. int (bytes c)) (bl_output_bytes l)"
| "layer_limit l EventBytes = map_option (\<lambda>c. int (bytes c)) (bl_event_bytes l)"
| "layer_limit l CheckpointBytes = map_option (\<lambda>c. int (bytes c)) (bl_checkpoint_bytes l)"
| "layer_limit l ArtifactBytes = map_option (\<lambda>c. int (bytes c)) (bl_artifact_bytes l)"
| "layer_limit l Costs = map_option (\<lambda>_. 0) (bl_costs l)"

lemma all_dimension_iff:
  "(\<forall>d. P d) \<longleftrightarrow>
     P Deadline \<and> P GraphDepth \<and> P GraphSteps \<and> P ModelAttempts \<and> P ModelTurns \<and> P InputTokens \<and> P CachedInputTokens \<and> P ReasoningTokens \<and> P OutputTokens \<and> P ToolCalls \<and> P WriteCalls \<and> P RemoteAgentDelegations \<and> P Retries \<and> P ConcurrentBranches \<and> P FanOut \<and> P InputBytes \<and> P OutputBytes \<and> P EventBytes \<and> P CheckpointBytes \<and> P ArtifactBytes \<and> P Costs"
  (is "_ \<longleftrightarrow> ?all")
proof (rule iffI)
  show "?all \<Longrightarrow> \<forall>d. P d"
    by (rule allI, rule budget_dimension.induct) (elim conjE, assumption)+
qed simp

section \<open>Intersection\<close>

lemma min_option_simps [simp]:
  "min_option None y = y" "min_option x None = x" "min_option (Some a) (Some b) = Some (min a b)"
  by (cases y; cases x; simp add: min_option_def)+

lemma min_option_assoc: "min_option (min_option x y) z = min_option x (min_option y z)"
  by (cases x; cases y; cases z) (simp_all add: min.assoc)

lemma min_option_commute: "min_option x y = min_option y x"
  by (cases x; cases y) (simp_all add: min.commute)

lemma min_option_left_commute: "min_option (min_option z x) y = min_option (min_option z y) x"
  by (metis min_option_assoc min_option_commute)

lemma map_min_option:
  "mono f \<Longrightarrow> map_option f (min_option x y) = min_option (map_option f x) (map_option f y)"
  by (cases x; cases y) (auto simp: min_def mono_def order_antisym)

lemma min_option_le: "min_option x y = Some v \<Longrightarrow> x = Some w \<Longrightarrow> v \<le> w"
  by (cases y) auto

lemma count_mono:
  "mono (\<lambda>c. int (executions c))" "mono (\<lambda>c. int (tokens c))" "mono (\<lambda>c. int (bytes c))"
  "mono unix_micros"
  by (simp_all add: mono_def ec.amount_le_iff tc.amount_le_iff bc.amount_le_iff less_eq_timestamp_def)

lemma layer_limit_most_restrictive:
  "layer_limit (most_restrictive l r) d = min_option (layer_limit l d) (layer_limit r d)"
  by (cases d) (simp_all add: most_restrictive_def map_min_option count_mono
      costs_most_restrictive_def split: option.splits)

text \<open>A layer's cost ceilings are well formed when it has any.\<close>

definition budget_limits_wf :: "budget_limits \<Rightarrow> bool" where
  "budget_limits_wf l \<longleftrightarrow> pred_option cost_limits_wf (bl_costs l)"

lemma costs_most_restrictive_wf:
  "pred_option cost_limits_wf l \<Longrightarrow> pred_option cost_limits_wf r \<Longrightarrow>
     pred_option cost_limits_wf (costs_most_restrictive l r)"
  by (cases l; cases r) (simp_all add: costs_most_restrictive_def most_restrictive_wf)

lemma costs_most_restrictive_left_commute:
  assumes "pred_option cost_limits_wf z" "pred_option cost_limits_wf x" "pred_option cost_limits_wf y"
  shows "costs_most_restrictive (costs_most_restrictive z x) y =
    costs_most_restrictive (costs_most_restrictive z y) x"
proof -
  have "cost_limits_most_restrictive (cost_limits_most_restrictive a b) c =
      cost_limits_most_restrictive (cost_limits_most_restrictive a c) b"
    if "cost_limits_wf a" "cost_limits_wf b" "cost_limits_wf c" for a b c
    using that by (metis most_restrictive_assoc most_restrictive_commute)
  then show ?thesis
    using assms most_restrictive_commute
    by (cases x; cases y; cases z) (auto simp: costs_most_restrictive_def)
qed

lemma budget_limits_wf_empty [simp]: "budget_limits_wf budget_limits_empty"
  by (simp add: budget_limits_wf_def budget_limits_empty_def)

lemma budget_limits_wf_most_restrictive [simp]:
  "budget_limits_wf l \<Longrightarrow> budget_limits_wf r \<Longrightarrow> budget_limits_wf (most_restrictive l r)"
  by (simp add: budget_limits_wf_def most_restrictive_def costs_most_restrictive_wf)

lemma most_restrictive_layers_commute:
  assumes "budget_limits_wf z" and "budget_limits_wf x" and "budget_limits_wf y"
  shows "most_restrictive (most_restrictive z x) y = most_restrictive (most_restrictive z y) x"
  using assms
  by (simp add: most_restrictive_def min_option_left_commute budget_limits_wf_def
      costs_most_restrictive_left_commute)

section \<open>Resolution\<close>

text \<open>
  The specification of a resolved ceiling: the least value any layer states for the dimension, if
  one does. Three dimensions are subsets of another one and are capped by it.
\<close>

definition tightest :: "budget_limits list \<Rightarrow> budget_dimension \<Rightarrow> int option" where
  "tightest ls d =
     (let vs = List.map_filter (\<lambda>l. layer_limit l d) ls in if vs = [] then None else Some (Min (set vs)))"

fun inclusive_of :: "budget_dimension \<Rightarrow> budget_dimension option" where
  "inclusive_of CachedInputTokens = Some InputTokens"
| "inclusive_of ReasoningTokens = Some OutputTokens"
| "inclusive_of WriteCalls = Some ToolCalls"
| "inclusive_of _ = None"

abbreviation effective_layer :: "budget_limits list \<Rightarrow> budget_limits" where
  "effective_layer ls \<equiv>
     fold (\<lambda>layer effective. most_restrictive effective layer) ls budget_limits_empty"

lemma tightest_Nil [simp]: "tightest [] d = None"
  by (simp add: tightest_def List.map_filter_def)

lemma tightest_Cons [simp]: "tightest (l # ls) d = min_option (layer_limit l d) (tightest ls d)"
  by (cases "layer_limit l d") (auto simp: tightest_def List.map_filter_simps Let_def)

lemma layer_limit_empty [simp]: "layer_limit budget_limits_empty d = None"
  by (cases d) (simp_all add: budget_limits_empty_def)

lemma layer_limit_fold:
  "layer_limit (fold (\<lambda>layer effective. most_restrictive effective layer) ls e) d =
     min_option (layer_limit e d) (tightest ls d)"
  by (induction ls arbitrary: e) (simp_all add: layer_limit_most_restrictive min_option_assoc)

lemma layer_limit_effective: "layer_limit (effective_layer ls) = tightest ls"
  by (rule ext) (simp add: layer_limit_fold)

lemma effective_layer_wf:
  "list_all budget_limits_wf ls \<Longrightarrow> budget_limits_wf e \<Longrightarrow>
     budget_limits_wf (fold (\<lambda>layer effective. most_restrictive effective layer) ls e)"
  by (induction ls arbitrary: e) simp_all

lemma tightest_None_iff: "tightest ls d = None \<longleftrightarrow> (\<forall>l\<in>set ls. layer_limit l d = None)"
proof (induction ls)
  case (Cons k ls)
  then show ?case
    by (cases "tightest ls d"; cases "layer_limit k d") auto
qed simp

lemma tightest_le: "tightest ls d = Some v \<Longrightarrow> l \<in> set ls \<Longrightarrow> layer_limit l d = Some w \<Longrightarrow> v \<le> w"
proof (induction ls arbitrary: v)
  case (Cons k ls)
  then show ?case
    by (cases "tightest ls d"; cases "layer_limit k d") (auto simp: tightest_None_iff)
qed simp

lemma resolve_effective_ok_iff:
  "is_ok (resolve_effective e) \<longleftrightarrow> (\<forall>d. layer_limit e d \<noteq> None)"
  unfolding all_dimension_iff
  by (simp add: resolve_effective_def required_def ok_simps ok_or_Inr_iff) blast

lemma resolve_effective_limit:
  assumes "resolve_effective e = Inr b"
  shows "Some (limit_of b d) =
    min_option (layer_limit e d) (Option.bind (inclusive_of d) (layer_limit e))"
  using assms
  by (cases d)
    (auto simp: resolve_effective_def required_def result_simps ec.amount_min tc.amount_min)

lemma resolve_effective_costs: "resolve_effective e = Inr b \<Longrightarrow> bl_costs e = Some (rb_costs b)"
  by (auto simp: resolve_effective_def required_def result_simps)

lemma resolve_Inr_iff:
  "resolve ls = Inr b \<longleftrightarrow>
     ls \<noteq> [] \<and> length ls \<le> MAX_BUDGET_LAYERS \<and> resolve_effective (effective_layer ls) = Inr b"
  by (auto simp: resolve_def result_simps not_less)

section \<open>Comparing ceilings\<close>

definition cost_narrower :: "cost_limits \<Rightarrow> cost_limits \<Rightarrow> bool" where
  "cost_narrower k l \<longleftrightarrow>
     (\<forall>c m. cost_limits_get k c = Some m \<longrightarrow>
        (\<exists>n. cost_limits_get l c = Some n \<and> micro_units m \<le> micro_units n))"

definition narrower :: "resolved_budget \<Rightarrow> resolved_budget \<Rightarrow> bool" where
  "narrower b p \<longleftrightarrow> (\<forall>d. limit_of b d \<le> limit_of p d) \<and> cost_narrower (rb_costs b) (rb_costs p)"

definition resolved_budget_wf :: "resolved_budget \<Rightarrow> bool" where
  "resolved_budget_wf b \<longleftrightarrow> is_ok (resolved_validate b) \<and> cost_limits_wf (rb_costs b)"

lemma cost_narrower_refl: "cost_narrower k k"
  by (auto simp: cost_narrower_def)

lemma cost_narrower_trans: "cost_narrower k l \<Longrightarrow> cost_narrower l m \<Longrightarrow> cost_narrower k m"
  unfolding cost_narrower_def by (meson order_trans)

lemma narrower_refl: "narrower b b"
  by (simp add: narrower_def cost_narrower_refl)

lemma narrower_trans: "narrower a b \<Longrightarrow> narrower b c \<Longrightarrow> narrower a c"
  unfolding narrower_def by (meson order_trans cost_narrower_trans)

lemma most_restrictive_narrower:
  assumes "cost_limits_wf l" and "cost_limits_wf r"
  shows "cost_narrower (cost_limits_most_restrictive l r) l"
    and "cost_narrower (cost_limits_most_restrictive l r) r"
  using assms by (auto simp: cost_narrower_def most_restrictive_get split: option.splits)

lemma cost_effective_narrower:
  assumes "list_all budget_limits_wf ls" and "budget_limits_wf e"
    and "bl_costs (fold (\<lambda>layer effective. most_restrictive effective layer) ls e) = Some k"
  shows "(\<forall>l\<in>set ls. \<forall>j. bl_costs l = Some j \<longrightarrow> cost_narrower k j) \<and>
    (\<forall>j. bl_costs e = Some j \<longrightarrow> cost_narrower k j)"
  using assms
proof (induction ls arbitrary: e)
  case (Cons l ls)
  let ?e = "most_restrictive e l"
  have IH: "\<forall>j. bl_costs ?e = Some j \<longrightarrow> cost_narrower k j"
      "\<forall>l\<in>set ls. \<forall>j. bl_costs l = Some j \<longrightarrow> cost_narrower k j"
    using Cons.IH [of ?e] Cons.prems by auto
  have "\<exists>m. bl_costs ?e = Some m \<and> cost_narrower m j"
    if "bl_costs l = Some j \<or> bl_costs e = Some j" for j
    using that Cons.prems(1,2) most_restrictive_narrower
    by (auto simp: most_restrictive_def costs_most_restrictive_def budget_limits_wf_def
        cost_narrower_refl split: option.splits)
  with IH(1) have "cost_narrower k j" if "bl_costs l = Some j \<or> bl_costs e = Some j" for j
    using that cost_narrower_trans by blast
  with IH(2) show ?case by simp
qed (simp add: cost_narrower_refl)

text \<open>
  The specification of resolved currency ceilings: a currency is listed iff every stated collection lists
  it, with the least of the stated amounts.
\<close>

definition least_ceilings :: "cost_limits set \<Rightarrow> cost_limits \<Rightarrow> bool" where
  "least_ceilings S k \<longleftrightarrow>
     (\<forall>c m. cost_limits_get k c = Some m \<longleftrightarrow>
        (\<exists>j\<in>S. cost_limits_get j c = Some m) \<and>
        (\<forall>j\<in>S. \<exists>n. cost_limits_get j c = Some n \<and> micro_units m \<le> micro_units n))"

abbreviation stated_costs :: "budget_limits list \<Rightarrow> cost_limits set" where
  "stated_costs ls \<equiv> {k. \<exists>l\<in>set ls. bl_costs l = Some k}"

lemma least_ceilings_single: "least_ceilings {k} k"
  by (auto simp: least_ceilings_def)

lemma least_ceilings_listed:
  assumes "least_ceilings S k" and "S \<noteq> {}" and "\<forall>i\<in>S. cost_limits_get i c \<noteq> None"
  shows "cost_limits_get k c \<noteq> None"
proof -
  obtain i m where "i \<in> S" "cost_limits_get i c = Some m" using assms(2,3) by blast
  then obtain m where m: "\<exists>i\<in>S. cost_limits_get i c = Some m"
      "\<And>n. \<exists>i\<in>S. cost_limits_get i c = Some n \<Longrightarrow> unat (micro_units m) \<le> unat (micro_units n)"
    using ex_has_least_nat [of "\<lambda>m. \<exists>i\<in>S. cost_limits_get i c = Some m" m "\<lambda>m. unat (micro_units m)"] by blast
  then have "\<forall>i\<in>S. \<exists>n. cost_limits_get i c = Some n \<and> micro_units m \<le> micro_units n"
    using assms(3) by (fastforce simp: word_le_nat)
  then have "cost_limits_get k c = Some m" using assms(1) m(1) by (simp add: least_ceilings_def)
  then show ?thesis by simp
qed

lemma most_restrictive_Some_iff:
  assumes "cost_limits_wf k" and "cost_limits_wf j"
  shows "cost_limits_get (cost_limits_most_restrictive k j) c = Some x \<longleftrightarrow>
    (\<exists>m n. cost_limits_get k c = Some m \<and> cost_limits_get j c = Some n \<and>
       x = (if micro_units m \<le> micro_units n then m else n))"
proof -
  have "money_new c (min (micro_units m) (micro_units n)) = (if micro_units m \<le> micro_units n then m else n)"
    if "cost_limits_get k c = Some m" "cost_limits_get j c = Some n" for m n
    using cl.get_currency [OF assms(1) that(1)] cl.get_currency [OF assms(2) that(2)]
    by (cases m; cases n) (simp add: money_new_def min_def)
  then show ?thesis
    unfolding most_restrictive_get [OF assms]
    by (cases "cost_limits_get k c"; cases "cost_limits_get j c") (simp_all add: eq_commute [of x])
qed

lemma same_ceiling:
  assumes "cost_limits_wf k" and "cost_limits_wf j" and "cost_limits_get k c = Some m" and "cost_limits_get j c = Some n"
    and "micro_units m = micro_units n"
  shows "m = n"
  using cl.get_currency [OF assms(1,3)] cl.get_currency [OF assms(2,4)] assms(5) by (cases m; cases n) simp

lemma least_ceilings_insert:
  assumes least: "least_ceilings S k" and "S \<noteq> {}" and wf: "cost_limits_wf k" "cost_limits_wf j"
  shows "least_ceilings (insert j S) (cost_limits_most_restrictive k j)"
  unfolding least_ceilings_def
proof (intro allI iffI)
  fix c x
  let ?get = "\<lambda>i. cost_limits_get i c" and ?units = "micro_units"
  have k: "?get k = Some m \<longleftrightarrow> (\<exists>i\<in>S. ?get i = Some m) \<and> (\<forall>i\<in>S. \<exists>n. ?get i = Some n \<and> ?units m \<le> ?units n)" for m
    using least by (simp add: least_ceilings_def)
  {
    assume "?get (cost_limits_most_restrictive k j) = Some x"
    then obtain m n where m: "?get k = Some m" and n: "?get j = Some n" and x: "x = (if ?units m \<le> ?units n then m else n)"
      unfolding most_restrictive_Some_iff [OF wf] by blast
    have le: "?units x \<le> ?units m" "?units x \<le> ?units n" using x by (simp_all split: if_splits)
    have "\<exists>n. ?get i = Some n \<and> ?units x \<le> ?units n" if i: "i \<in> S" for i
    proof -
      obtain p where "?get i = Some p" "?units m \<le> ?units p" using k [THEN iffD1, OF m] i by blast
      then show ?thesis using order_trans [OF le(1)] by blast
    qed
    moreover have "\<exists>i\<in>insert j S. ?get i = Some x" using x n k [THEN iffD1, OF m] by (simp split: if_splits)
    ultimately show "(\<exists>i\<in>insert j S. ?get i = Some x) \<and> (\<forall>i\<in>insert j S. \<exists>n. ?get i = Some n \<and> ?units x \<le> ?units n)"
      using n le(2) by simp
  next
    assume x: "(\<exists>i\<in>insert j S. ?get i = Some x) \<and> (\<forall>i\<in>insert j S. \<exists>n. ?get i = Some n \<and> ?units x \<le> ?units n)"
    then obtain n where n: "?get j = Some n" "?units x \<le> ?units n" by auto
    have "\<forall>i\<in>S. ?get i \<noteq> None" using x by auto
    then obtain m where m: "?get k = Some m" using least_ceilings_listed [OF least assms(2)] by blast
    show "?get (cost_limits_most_restrictive k j) = Some x"
    proof (cases "\<exists>i\<in>S. ?get i = Some x")
      case True
      then have "?get k = Some x" using x k [of x] by simp
      then show ?thesis using n most_restrictive_Some_iff [OF wf, of c x] by auto
    next
      case False
      then have j: "?get j = Some x" using x by simp
      obtain i where i: "i \<in> S" "?get i = Some m" using k [THEN iffD1, OF m] by blast
      then have "?units x \<le> ?units m" using x by fastforce
      moreover have "m \<noteq> x" using False i by blast
      ultimately have "\<not> ?units m \<le> ?units x" using same_ceiling [OF wf m j] by fastforce
      then show ?thesis using m j most_restrictive_Some_iff [OF wf, of c x] by auto
    qed
  }
qed

lemma cost_effective_least:
  assumes "list_all budget_limits_wf ls" and "budget_limits_wf e"
    and "bl_costs (fold (\<lambda>layer effective. most_restrictive effective layer) ls e) = Some k"
    and "\<And>j. bl_costs e = Some j \<Longrightarrow> S \<noteq> {} \<and> least_ceilings S j" and "bl_costs e = None \<Longrightarrow> S = {}"
  shows "least_ceilings (S \<union> stated_costs ls) k"
  using assms
proof (induction ls arbitrary: e S)
  case (Cons l ls)
  let ?e = "most_restrictive e l" and ?S = "S \<union> stated_costs [l]"
  have costs: "bl_costs ?e = costs_most_restrictive (bl_costs e) (bl_costs l)" by (simp add: most_restrictive_def)
  have "?S \<noteq> {} \<and> least_ceilings ?S j" if "bl_costs ?e = Some j" for j
  proof (cases "bl_costs l")
    case None
    then show ?thesis using that Cons.prems(4) costs by (auto simp: costs_most_restrictive_def split: option.splits)
  next
    case (Some i)
    then have "?S = insert i S" by auto
    then show ?thesis
      using that Some Cons.prems costs least_ceilings_insert [of S _ i] least_ceilings_single
      by (cases "bl_costs e") (auto simp: costs_most_restrictive_def budget_limits_wf_def)
  qed
  moreover have "?S = {}" if "bl_costs ?e = None"
    using that Cons.prems(5) costs by (auto simp: costs_most_restrictive_def split: option.splits)
  ultimately have "least_ceilings (?S \<union> stated_costs ls) k"
    using Cons.prems by (intro Cons.IH [of ?e]) simp_all
  moreover have "?S \<union> stated_costs ls = S \<union> stated_costs (l # ls)" by auto
  ultimately show ?case by simp
qed simp

lemma resolve_wf:
  assumes "resolve ls = Inr b" and "list_all budget_limits_wf ls"
  shows "resolved_budget_wf b"
proof -
  have eff: "resolve_effective (effective_layer ls) = Inr b" using assms(1) by (simp add: resolve_Inr_iff)
  then have "is_ok (resolved_validate b)"
    by (auto simp: resolved_validate_def ok_simps resolve_effective_def required_def result_simps)
  moreover have "cost_limits_wf (rb_costs b)"
    using effective_layer_wf [OF assms(2) budget_limits_wf_empty] resolve_effective_costs [OF eff]
    by (simp add: budget_limits_wf_def)
  ultimately show ?thesis by (simp add: resolved_budget_wf_def)
qed

lemma validate_narrowing_ok_iff:
  assumes "cost_limits_wf (rb_costs b)"
  shows "is_ok (validate_narrowing b p) \<longleftrightarrow> narrower b p"
proof -
  have "is_ok (validate_narrowing b p) \<longleftrightarrow> (\<forall>d. limit_of b d \<le> limit_of p d) \<and>
      (\<forall>m\<in>set (limit_iter (rb_costs b)). is_ok (narrowing_cost_step p () m))"
    unfolding all_dimension_iff
    by (simp add: validate_narrowing_def ok_simps reject_first_Inr_iff not_less is_ok_try_fold_unit
        less_eq_timestamp_def ec.amount_le_iff tc.amount_le_iff bc.amount_le_iff conj_ac)
  also have "\<dots> \<longleftrightarrow> narrower b p"
    using cl.get_currency [OF assms]
    by (simp add: cl.ball_iter_iff [OF assms] narrower_def cost_narrower_def narrowing_cost_step_def
        ok_simps ok_or_Inr_iff not_less)
  finally show ?thesis .
qed

lemma validate_narrowing_Widened:
  assumes "validate_narrowing b p = Inl (Widened d)"
  shows "limit_of p d < limit_of b d"
proof -
  have "narrowing_cost_step p () m \<noteq> Inl (Widened d)" for m
    by (auto simp: narrowing_cost_step_def result_simps)
  then have "try_fold (narrowing_cost_step p) () (limit_iter (rb_costs b)) \<noteq> Inl (Widened d)"
    using try_fold_unit_Inl by fastforce
  with assms show ?thesis
    by (auto simp: validate_narrowing_def and_then_Inl_iff less_timestamp_def
        ec.amount_less_iff tc.amount_less_iff bc.amount_less_iff dest!: reject_first_Inl)
qed

text \<open>Sample values for the concrete instances below: one number for every count, one currency.\<close>

definition USD :: currency_code where "USD = CurrencyCode 85 83 68"

definition sample_layer :: "int \<Rightarrow> u64 \<Rightarrow> u64 \<Rightarrow> budget_limits" where
  "sample_layer t n u =
     \<lparr>bl_deadline = Some (Timestamp t),
      bl_graph_depth = Some (ExecutionCount n),
      bl_graph_steps = Some (ExecutionCount n),
      bl_model_attempts = Some (ExecutionCount n),
      bl_model_turns = Some (ExecutionCount n),
      bl_input_tokens = Some (TokenCount n),
      bl_cached_input_tokens = Some (TokenCount n),
      bl_reasoning_tokens = Some (TokenCount n),
      bl_output_tokens = Some (TokenCount n),
      bl_tool_calls = Some (ExecutionCount n),
      bl_write_calls = Some (ExecutionCount n),
      bl_remote_agent_delegations = Some (ExecutionCount n),
      bl_retries = Some (ExecutionCount n),
      bl_concurrent_branches = Some (ExecutionCount n),
      bl_fan_out = Some (ExecutionCount n),
      bl_input_bytes = Some (ByteCount n),
      bl_output_bytes = Some (ByteCount n),
      bl_event_bytes = Some (ByteCount n),
      bl_checkpoint_bytes = Some (ByteCount n),
      bl_artifact_bytes = Some (ByteCount n),
      bl_costs = Some (CostLimits [money_new USD u])\<rparr>"

definition sample_budget :: "int \<Rightarrow> u64 \<Rightarrow> u64 \<Rightarrow> resolved_budget" where
  "sample_budget t n u =
     \<lparr>rb_deadline = Timestamp t,
      rb_graph_depth = ExecutionCount n,
      rb_graph_steps = ExecutionCount n,
      rb_model_attempts = ExecutionCount n,
      rb_model_turns = ExecutionCount n,
      rb_input_tokens = TokenCount n,
      rb_cached_input_tokens = TokenCount n,
      rb_reasoning_tokens = TokenCount n,
      rb_output_tokens = TokenCount n,
      rb_tool_calls = ExecutionCount n,
      rb_write_calls = ExecutionCount n,
      rb_remote_agent_delegations = ExecutionCount n,
      rb_retries = ExecutionCount n,
      rb_concurrent_branches = ExecutionCount n,
      rb_fan_out = ExecutionCount n,
      rb_input_bytes = ByteCount n,
      rb_output_bytes = ByteCount n,
      rb_event_bytes = ByteCount n,
      rb_checkpoint_bytes = ByteCount n,
      rb_artifact_bytes = ByteCount n,
      rb_costs = CostLimits [money_new USD u]\<rparr>"

lemma sample_layer_wf: "budget_limits_wf (sample_layer t n u)"
  by (simp add: budget_limits_wf_def sample_layer_def cost_limits_wf_def slice_wf_def
      MAX_COST_CURRENCIES_def)

lemma sample_layer_stated: "\<exists>v. layer_limit (sample_layer t n u) d = Some v"
  by (cases d) (simp_all add: sample_layer_def)

lemma sample_budget_wf: "resolved_budget_wf (sample_budget t n u)"
  by (simp add: resolved_budget_wf_def resolved_validate_def ok_simps sample_budget_def
      cost_limits_wf_def slice_wf_def MAX_COST_CURRENCIES_def)

lemma sample_budget_limit:
  "limit_of (sample_budget t n u) d =
     (case d of Deadline \<Rightarrow> t | Costs \<Rightarrow> 0 | _ \<Rightarrow> int (unat n))"
  by (cases d) (simp_all add: sample_budget_def)

lemma sample_budget_deadline: "rb_deadline (sample_budget t n u) = Timestamp t"
  by (simp add: sample_budget_def)

lemma sample_budget_cost:
  "cost_limits_get (rb_costs (sample_budget t n u)) c = (if c = USD then Some (money_new USD u) else None)"
  by (simp add: sample_budget_def cost_limits_get_def slice_get_def binary_search_def
      bsearch_loop.simps)

section \<open>What resolution and narrowing guarantee\<close>

text \<open>
  C12. Resolving layers succeeds iff there are between one and sixteen of them and every dimension is
  stated by some layer. The resolved ceiling of a dimension is the least stated value, capped for
  cached input, reasoning and write calls by the ceiling of the total they are part of; in
  particular no ceiling is wider than what any layer states. Currencies, which are no dimension of
  \<open>limit_of\<close>, are resolved exactly too: a currency has the ceiling \<open>m\<close> iff every layer with cost
  ceilings lists it and \<open>m\<close> is the least of the amounts they state.
\<close>

theorem resolve_exact:
  assumes "list_all budget_limits_wf ls"
  shows "(is_ok (resolve ls) \<longleftrightarrow>
      ls \<noteq> [] \<and> length ls \<le> MAX_BUDGET_LAYERS \<and> (\<forall>d. \<exists>l\<in>set ls. layer_limit l d \<noteq> None)) \<and>
    (\<forall>b. resolve ls = Inr b \<longrightarrow>
      (\<forall>d. Some (limit_of b d) = min_option (tightest ls d) (Option.bind (inclusive_of d) (tightest ls))) \<and>
      (\<forall>l\<in>set ls. \<forall>d v. layer_limit l d = Some v \<longrightarrow> limit_of b d \<le> v) \<and>
      (\<forall>l\<in>set ls. \<forall>k. bl_costs l = Some k \<longrightarrow> cost_narrower (rb_costs b) k) \<and>
      (\<forall>c m. cost_limits_get (rb_costs b) c = Some m \<longleftrightarrow>
        (\<exists>l\<in>set ls. \<exists>k. bl_costs l = Some k \<and> cost_limits_get k c = Some m) \<and>
        (\<forall>l\<in>set ls. \<forall>k. bl_costs l = Some k \<longrightarrow>
          (\<exists>n. cost_limits_get k c = Some n \<and> micro_units m \<le> micro_units n))))"
proof (intro conjI allI impI)
  have "(\<forall>d. \<exists>l\<in>set ls. layer_limit l d \<noteq> None) \<longleftrightarrow> is_ok (resolve_effective (effective_layer ls))"
    by (simp add: resolve_effective_ok_iff layer_limit_effective tightest_None_iff)
  then show "is_ok (resolve ls) \<longleftrightarrow>
      ls \<noteq> [] \<and> length ls \<le> MAX_BUDGET_LAYERS \<and> (\<forall>d. \<exists>l\<in>set ls. layer_limit l d \<noteq> None)"
    by (simp add: resolve_def ok_simps reject_if_Inr_iff not_less)
next
  fix b
  assume b: "resolve ls = Inr b"
  then have eff: "resolve_effective (effective_layer ls) = Inr b" by (simp add: resolve_Inr_iff)
  show lim: "Some (limit_of b d) = min_option (tightest ls d) (Option.bind (inclusive_of d) (tightest ls))"
    for d using resolve_effective_limit [OF eff, of d] by (simp add: layer_limit_effective)
  have stated: "tightest ls d \<noteq> None" if "l \<in> set ls" "layer_limit l d = Some v" for l d v
    using that by (auto simp: tightest_None_iff)
  show "\<forall>l\<in>set ls. \<forall>d v. layer_limit l d = Some v \<longrightarrow> limit_of b d \<le> v"
  proof (intro ballI allI impI)
    fix l d v
    assume l: "l \<in> set ls" "layer_limit l d = Some v"
    then obtain w where w: "tightest ls d = Some w" using stated by blast
    have "limit_of b d \<le> w" using min_option_le [OF lim [of d, symmetric] w] .
    also have "w \<le> v" using tightest_le [OF w l] .
    finally show "limit_of b d \<le> v" .
  qed
  show "\<forall>l\<in>set ls. \<forall>k. bl_costs l = Some k \<longrightarrow> cost_narrower (rb_costs b) k"
    using cost_effective_narrower [OF assms budget_limits_wf_empty resolve_effective_costs [OF eff]]
    by blast
  have "least_ceilings ({} \<union> stated_costs ls) (rb_costs b)"
    by (rule cost_effective_least [OF assms budget_limits_wf_empty resolve_effective_costs [OF eff]])
      (simp_all add: budget_limits_empty_def)
  then show "cost_limits_get (rb_costs b) c = Some m \<longleftrightarrow>
        (\<exists>l\<in>set ls. \<exists>k. bl_costs l = Some k \<and> cost_limits_get k c = Some m) \<and>
        (\<forall>l\<in>set ls. \<forall>k. bl_costs l = Some k \<longrightarrow>
          (\<exists>n. cost_limits_get k c = Some n \<and> micro_units m \<le> micro_units n))" for c m
    unfolding least_ceilings_def by auto
qed

theorem resolve_exact_witness:
  "\<exists>b. resolve [sample_layer 90 8 3, sample_layer 70 9 2] = Inr b \<and>
     limit_of b Deadline \<le> 70 \<and> limit_of b GraphSteps \<le> 8 \<and>
     cost_limits_get (rb_costs b) USD = Some (money_new USD 2)"
proof -
  let ?ls = "[sample_layer 90 8 3, sample_layer 70 9 2]"
  have wf: "list_all budget_limits_wf ?ls" by (simp add: sample_layer_wf)
  have "is_ok (resolve ?ls)"
    using resolve_exact [OF wf] by (simp add: sample_layer_stated MAX_BUDGET_LAYERS_def)
  then obtain b where b: "resolve ?ls = Inr b" by (auto simp: is_ok_iff)
  note exact = conjunct2 [OF resolve_exact [OF wf], rule_format, OF b]
  have stated: "layer_limit (sample_layer 70 9 2) Deadline = Some 70"
      "layer_limit (sample_layer 90 8 3) GraphSteps = Some 8"
      "bl_costs (sample_layer t n u) = Some (CostLimits [money_new USD u])" for t n u
    by (simp_all add: sample_layer_def)
  have usd: "cost_limits_get (CostLimits [money_new USD u]) USD = Some (money_new USD u)" for u
    by (simp add: cost_limits_get_def slice_get_def binary_search_def bsearch_loop.simps)
  have "limit_of b Deadline \<le> 70" "limit_of b GraphSteps \<le> 8"
    using exact stated by (meson list.set_intros)+
  moreover have "cost_limits_get (rb_costs b) USD = Some (money_new USD 2)"
    using exact by (simp add: stated usd)
  ultimately show ?thesis using b by blast
qed

text \<open>
  The order of the layers does not matter: any rearrangement resolves to the same budget, or
  fails with the same error.
\<close>

lemma resolve_order_irrelevant:
  assumes "mset ls = mset ks" and "list_all budget_limits_wf ls"
  shows "resolve ls = resolve ks"
proof -
  have "effective_layer ls = effective_layer ks"
    using assms(2)
    by (intro fold_permuted_eq [where P = budget_limits_wf, OF assms(1)])
      (auto simp: list_all_iff most_restrictive_layers_commute)
  moreover have "length ls = length ks" "ls = [] \<longleftrightarrow> ks = []"
    using assms(1) mset_eq_length by auto
  ultimately show ?thesis by (simp add: resolve_def)
qed

lemma resolve_order_irrelevant_witness:
  "resolve [sample_layer 90 8 3, sample_layer 70 9 2] =
     resolve [sample_layer 70 9 2, sample_layer 90 8 3]"
  by (rule resolve_order_irrelevant) (simp_all add: sample_layer_wf)

text \<open>
  C24. A delegated budget passes the narrowing check iff no dimension exceeds the parent's ceiling and
  every currency it lists is listed by the parent with at least that amount; a reported dimension
  is one that really was widened.
\<close>

theorem narrowing_iff:
  assumes "resolved_budget_wf b"
  shows "(is_ok (validate_narrowing b p) \<longleftrightarrow>
      (\<forall>d. limit_of b d \<le> limit_of p d) \<and>
      (\<forall>c m. cost_limits_get (rb_costs b) c = Some m \<longrightarrow>
        (\<exists>n. cost_limits_get (rb_costs p) c = Some n \<and> micro_units m \<le> micro_units n))) \<and>
    (\<forall>d. validate_narrowing b p = Inl (Widened d) \<longrightarrow> limit_of p d < limit_of b d)"
  using assms validate_narrowing_Widened
  by (simp add: validate_narrowing_ok_iff resolved_budget_wf_def narrower_def cost_narrower_def)

theorem narrowing_iff_witness:
  "is_ok (validate_narrowing (sample_budget 70 8 2) (sample_budget 90 8 3)) \<and>
   \<not> is_ok (validate_narrowing (sample_budget 70 8 4) (sample_budget 90 8 3))"
  using narrowing_iff [OF sample_budget_wf, of 70 8 2 "sample_budget 90 8 3"]
    narrowing_iff [OF sample_budget_wf, of 70 8 4 "sample_budget 90 8 3"]
  by (simp add: sample_budget_cost sample_budget_limit all_dimension_iff)

text \<open>
  Narrowing composes along a delegation chain: when every budget of a chain passes the check
  against the one before it, each budget passes it against every earlier one.
\<close>

lemma delegation_chain:
  assumes "list_all resolved_budget_wf bs"
    and "successively (\<lambda>p c. is_ok (validate_narrowing c p)) bs"
    and "i \<le> j" and "j < length bs"
  shows "is_ok (validate_narrowing (bs ! j) (bs ! i))"
proof -
  have wf: "cost_limits_wf (rb_costs (bs ! k))" if "k < length bs" for k
    using assms(1) that by (auto simp: list_all_length resolved_budget_wf_def)
  have "narrower (bs ! j) (bs ! i)"
    using assms(3,4)
  proof (induction j rule: dec_induct)
    case (step n)
    have "is_ok (validate_narrowing (bs ! Suc n) (bs ! n))"
      using assms(2) step.prems by (simp add: successively_conv_nth)
    then have "narrower (bs ! Suc n) (bs ! n)"
      using validate_narrowing_ok_iff [OF wf [OF step.prems]] by blast
    moreover have "narrower (bs ! n) (bs ! i)" using step by simp
    ultimately show ?case by (rule narrower_trans)
  qed (simp add: narrower_refl)
  then show ?thesis using validate_narrowing_ok_iff [OF wf [OF assms(4)]] by blast
qed

lemma delegation_chain_witness:
  "is_ok (validate_narrowing (sample_budget 50 7 1) (sample_budget 90 8 3))"
proof -
  let ?bs = "[sample_budget 90 8 3, sample_budget 70 8 2, sample_budget 50 7 1]"
  have step: "is_ok (validate_narrowing (sample_budget 70 8 2) (sample_budget 90 8 3))"
      "is_ok (validate_narrowing (sample_budget 50 7 1) (sample_budget 70 8 2))"
    using sample_budget_wf
    by (simp_all add: validate_narrowing_ok_iff resolved_budget_wf_def narrower_def
        cost_narrower_def sample_budget_cost sample_budget_limit all_dimension_iff)
  have "is_ok (validate_narrowing (?bs ! 2) (?bs ! 0))"
    by (rule delegation_chain) (simp_all add: sample_budget_wf step)
  then show ?thesis by simp
qed

end
