(* ===== verification/BudgetUsage.thy ===== *)
theory BudgetUsage
  imports BudgetLimits
begin

text \<open>
  \<open>crates/stateknot-core/src/budget.rs\<close>, expenditure: \<open>BudgetUsage\<close> with its checked accumulation and
  subtraction, and \<open>ResolvedBudget::remaining\<close> with the remaining capacity it returns. Three
  dimensions are high-water marks, the others are cumulative. \<open>usage_of\<close> and \<open>remaining_of\<close> read
  the records by dimension; the events without a known price are read under \<open>Costs\<close>, as the error
  values of the sources do. A \<open>BudgetUsageBuilder\<close> has the fields of the usage it builds and is the
  same record here.
\<close>

section \<open>Usage\<close>

record budget_usage =
  bu_graph_depth :: execution_count
  bu_graph_steps :: execution_count
  bu_model_attempts :: execution_count
  bu_model_turns :: execution_count
  bu_input_tokens :: token_count
  bu_cached_input_tokens :: token_count
  bu_reasoning_tokens :: token_count
  bu_output_tokens :: token_count
  bu_tool_calls :: execution_count
  bu_write_calls :: execution_count
  bu_remote_agent_delegations :: execution_count
  bu_retries :: execution_count
  bu_concurrent_branches :: execution_count
  bu_fan_out :: execution_count
  bu_input_bytes :: byte_count
  bu_output_bytes :: byte_count
  bu_event_bytes :: byte_count
  bu_checkpoint_bytes :: byte_count
  bu_artifact_bytes :: byte_count
  bu_known_costs :: known_costs
  bu_unpriced_cost_events :: execution_count

type_synonym budget_usage_builder = budget_usage

datatype budget_usage_error =
  Regression budget_dimension
| SubsetExceedsInclusive budget_dimension budget_dimension
| UsageOverflow budget_dimension
| UsageCosts cost_collection_error

definition usage_zero :: budget_usage where
  "usage_zero =
     \<lparr>bu_graph_depth = execution_ZERO,
      bu_graph_steps = execution_ZERO,
      bu_model_attempts = execution_ZERO,
      bu_model_turns = execution_ZERO,
      bu_input_tokens = token_ZERO,
      bu_cached_input_tokens = token_ZERO,
      bu_reasoning_tokens = token_ZERO,
      bu_output_tokens = token_ZERO,
      bu_tool_calls = execution_ZERO,
      bu_write_calls = execution_ZERO,
      bu_remote_agent_delegations = execution_ZERO,
      bu_retries = execution_ZERO,
      bu_concurrent_branches = execution_ZERO,
      bu_fan_out = execution_ZERO,
      bu_input_bytes = byte_ZERO,
      bu_output_bytes = byte_ZERO,
      bu_event_bytes = byte_ZERO,
      bu_checkpoint_bytes = byte_ZERO,
      bu_artifact_bytes = byte_ZERO,
      bu_known_costs = known_costs_empty,
      bu_unpriced_cost_events = execution_ZERO\<rparr>"

definition check_subsets :: "budget_usage \<Rightarrow> (budget_usage_error, unit) result" where
  "check_subsets u =
     reject_first
       [(bu_cached_input_tokens u > bu_input_tokens u, SubsetExceedsInclusive CachedInputTokens InputTokens),
        (bu_reasoning_tokens u > bu_output_tokens u, SubsetExceedsInclusive ReasoningTokens OutputTokens),
        (bu_write_calls u > bu_tool_calls u, SubsetExceedsInclusive WriteCalls ToolCalls)]"

definition from_builder :: "budget_usage_builder \<Rightarrow> (budget_usage_error, budget_usage) result" where
  "from_builder builder = and_then (check_subsets builder) (\<lambda>_. Inr builder)"

definition usage_from_wire :: "budget_usage \<Rightarrow> (budget_usage_error, budget_usage) result" where
  "usage_from_wire w = from_builder w"

definition cumulative_only :: "budget_usage \<Rightarrow> budget_usage" where
  "cumulative_only u =
     u\<lparr>bu_graph_depth := execution_ZERO, bu_concurrent_branches := execution_ZERO,
       bu_fan_out := execution_ZERO\<rparr>"

definition units_or_zero :: "money option \<Rightarrow> u64" where
  "units_or_zero m = (case m of None \<Rightarrow> 0 | Some x \<Rightarrow> micro_units x)"

definition monotonic_cost_step ::
  "budget_usage \<Rightarrow> unit \<Rightarrow> money \<Rightarrow> (budget_usage_error, unit) result" where
  "monotonic_cost_step u x cost =
     reject_if (units_or_zero (known_costs_get (bu_known_costs u) (currency cost)) < micro_units cost)
       (Regression Costs)"

definition validate_monotonic_after ::
  "budget_usage \<Rightarrow> budget_usage \<Rightarrow> (budget_usage_error, unit) result" where
  "validate_monotonic_after u previous =
     and_then (reject_first
       [(bu_graph_depth u < bu_graph_depth previous, Regression GraphDepth),
        (bu_graph_steps u < bu_graph_steps previous, Regression GraphSteps),
        (bu_model_attempts u < bu_model_attempts previous, Regression ModelAttempts),
        (bu_model_turns u < bu_model_turns previous, Regression ModelTurns),
        (bu_input_tokens u < bu_input_tokens previous, Regression InputTokens),
        (bu_cached_input_tokens u < bu_cached_input_tokens previous, Regression CachedInputTokens),
        (bu_reasoning_tokens u < bu_reasoning_tokens previous, Regression ReasoningTokens),
        (bu_output_tokens u < bu_output_tokens previous, Regression OutputTokens),
        (bu_tool_calls u < bu_tool_calls previous, Regression ToolCalls),
        (bu_write_calls u < bu_write_calls previous, Regression WriteCalls),
        (bu_remote_agent_delegations u < bu_remote_agent_delegations previous, Regression RemoteAgentDelegations),
        (bu_retries u < bu_retries previous, Regression Retries),
        (bu_concurrent_branches u < bu_concurrent_branches previous, Regression ConcurrentBranches),
        (bu_fan_out u < bu_fan_out previous, Regression FanOut),
        (bu_input_bytes u < bu_input_bytes previous, Regression InputBytes),
        (bu_output_bytes u < bu_output_bytes previous, Regression OutputBytes),
        (bu_event_bytes u < bu_event_bytes previous, Regression EventBytes),
        (bu_checkpoint_bytes u < bu_checkpoint_bytes previous, Regression CheckpointBytes),
        (bu_artifact_bytes u < bu_artifact_bytes previous, Regression ArtifactBytes),
        (bu_unpriced_cost_events u < bu_unpriced_cost_events previous, Regression Costs)]) (\<lambda>_.
     try_fold (monotonic_cost_step u) () (cost_iter (bu_known_costs previous)))"

definition add_execution ::
  "execution_count \<Rightarrow> execution_count \<Rightarrow> budget_dimension \<Rightarrow> (budget_usage_error, execution_count) result" where
  "add_execution l r d = ok_or (execution_checked_add l r) (UsageOverflow d)"

definition add_tokens ::
  "token_count \<Rightarrow> token_count \<Rightarrow> budget_dimension \<Rightarrow> (budget_usage_error, token_count) result" where
  "add_tokens l r d = ok_or (token_checked_add l r) (UsageOverflow d)"

definition add_bytes ::
  "byte_count \<Rightarrow> byte_count \<Rightarrow> budget_dimension \<Rightarrow> (budget_usage_error, byte_count) result" where
  "add_bytes l r d = ok_or (byte_checked_add l r) (UsageOverflow d)"

definition checked_accumulate ::
  "budget_usage \<Rightarrow> budget_usage \<Rightarrow> (budget_usage_error, budget_usage) result" where
  "checked_accumulate u other =
     and_then (add_execution (bu_graph_steps u) (bu_graph_steps other) GraphSteps) (\<lambda>graph_steps.
     and_then (add_execution (bu_model_attempts u) (bu_model_attempts other) ModelAttempts) (\<lambda>model_attempts.
     and_then (add_execution (bu_model_turns u) (bu_model_turns other) ModelTurns) (\<lambda>model_turns.
     and_then (add_tokens (bu_input_tokens u) (bu_input_tokens other) InputTokens) (\<lambda>input_tokens.
     and_then (add_tokens (bu_cached_input_tokens u) (bu_cached_input_tokens other) CachedInputTokens) (\<lambda>cached_input_tokens.
     and_then (add_tokens (bu_reasoning_tokens u) (bu_reasoning_tokens other) ReasoningTokens) (\<lambda>reasoning_tokens.
     and_then (add_tokens (bu_output_tokens u) (bu_output_tokens other) OutputTokens) (\<lambda>output_tokens.
     and_then (add_execution (bu_tool_calls u) (bu_tool_calls other) ToolCalls) (\<lambda>tool_calls.
     and_then (add_execution (bu_write_calls u) (bu_write_calls other) WriteCalls) (\<lambda>write_calls.
     and_then (add_execution (bu_remote_agent_delegations u) (bu_remote_agent_delegations other) RemoteAgentDelegations) (\<lambda>remote_agent_delegations.
     and_then (add_execution (bu_retries u) (bu_retries other) Retries) (\<lambda>retries.
     and_then (add_bytes (bu_input_bytes u) (bu_input_bytes other) InputBytes) (\<lambda>input_bytes.
     and_then (add_bytes (bu_output_bytes u) (bu_output_bytes other) OutputBytes) (\<lambda>output_bytes.
     and_then (add_bytes (bu_event_bytes u) (bu_event_bytes other) EventBytes) (\<lambda>event_bytes.
     and_then (add_bytes (bu_checkpoint_bytes u) (bu_checkpoint_bytes other) CheckpointBytes) (\<lambda>checkpoint_bytes.
     and_then (add_bytes (bu_artifact_bytes u) (bu_artifact_bytes other) ArtifactBytes) (\<lambda>artifact_bytes.
     and_then (map_err UsageCosts
       (known_costs_checked_accumulate (bu_known_costs u) (bu_known_costs other))) (\<lambda>known_costs.
     and_then (add_execution (bu_unpriced_cost_events u) (bu_unpriced_cost_events other) Costs) (\<lambda>unpriced.
     Inr \<lparr>bu_graph_depth = max (bu_graph_depth u) (bu_graph_depth other),
      bu_graph_steps = graph_steps,
      bu_model_attempts = model_attempts,
      bu_model_turns = model_turns,
      bu_input_tokens = input_tokens,
      bu_cached_input_tokens = cached_input_tokens,
      bu_reasoning_tokens = reasoning_tokens,
      bu_output_tokens = output_tokens,
      bu_tool_calls = tool_calls,
      bu_write_calls = write_calls,
      bu_remote_agent_delegations = remote_agent_delegations,
      bu_retries = retries,
      bu_concurrent_branches = max (bu_concurrent_branches u) (bu_concurrent_branches other),
      bu_fan_out = max (bu_fan_out u) (bu_fan_out other),
      bu_input_bytes = input_bytes,
      bu_output_bytes = output_bytes,
      bu_event_bytes = event_bytes,
      bu_checkpoint_bytes = checkpoint_bytes,
      bu_artifact_bytes = artifact_bytes,
      bu_known_costs = known_costs,
      bu_unpriced_cost_events = unpriced\<rparr>))))))))))))))))))"

definition subtract_costs ::
  "known_costs \<Rightarrow> known_costs \<Rightarrow> (cost_collection_error, known_costs) result" where
  "subtract_costs k contribution =
     known_costs_try_new (map (\<lambda>cost. money_new (currency cost)
       (micro_units cost - units_or_zero (known_costs_get contribution (currency cost)))) (cost_iter k))"

definition checked_subtract_cumulative ::
  "budget_usage \<Rightarrow> budget_usage \<Rightarrow> (budget_usage_error, budget_usage) result" where
  "checked_subtract_cumulative u contribution =
     and_then (validate_monotonic_after u (cumulative_only contribution)) (\<lambda>_.
     and_then (ok_or (execution_checked_sub (bu_graph_steps u) (bu_graph_steps contribution)) (Regression GraphSteps)) (\<lambda>graph_steps.
     and_then (ok_or (execution_checked_sub (bu_model_attempts u) (bu_model_attempts contribution)) (Regression ModelAttempts)) (\<lambda>model_attempts.
     and_then (ok_or (execution_checked_sub (bu_model_turns u) (bu_model_turns contribution)) (Regression ModelTurns)) (\<lambda>model_turns.
     and_then (ok_or (token_checked_sub (bu_input_tokens u) (bu_input_tokens contribution)) (Regression InputTokens)) (\<lambda>input_tokens.
     and_then (ok_or (token_checked_sub (bu_cached_input_tokens u) (bu_cached_input_tokens contribution)) (Regression CachedInputTokens)) (\<lambda>cached_input_tokens.
     and_then (ok_or (token_checked_sub (bu_reasoning_tokens u) (bu_reasoning_tokens contribution)) (Regression ReasoningTokens)) (\<lambda>reasoning_tokens.
     and_then (ok_or (token_checked_sub (bu_output_tokens u) (bu_output_tokens contribution)) (Regression OutputTokens)) (\<lambda>output_tokens.
     and_then (ok_or (execution_checked_sub (bu_tool_calls u) (bu_tool_calls contribution)) (Regression ToolCalls)) (\<lambda>tool_calls.
     and_then (ok_or (execution_checked_sub (bu_write_calls u) (bu_write_calls contribution)) (Regression WriteCalls)) (\<lambda>write_calls.
     and_then (ok_or (execution_checked_sub (bu_remote_agent_delegations u) (bu_remote_agent_delegations contribution)) (Regression RemoteAgentDelegations)) (\<lambda>remote_agent_delegations.
     and_then (ok_or (execution_checked_sub (bu_retries u) (bu_retries contribution)) (Regression Retries)) (\<lambda>retries.
     and_then (ok_or (byte_checked_sub (bu_input_bytes u) (bu_input_bytes contribution)) (Regression InputBytes)) (\<lambda>input_bytes.
     and_then (ok_or (byte_checked_sub (bu_output_bytes u) (bu_output_bytes contribution)) (Regression OutputBytes)) (\<lambda>output_bytes.
     and_then (ok_or (byte_checked_sub (bu_event_bytes u) (bu_event_bytes contribution)) (Regression EventBytes)) (\<lambda>event_bytes.
     and_then (ok_or (byte_checked_sub (bu_checkpoint_bytes u) (bu_checkpoint_bytes contribution)) (Regression CheckpointBytes)) (\<lambda>checkpoint_bytes.
     and_then (ok_or (byte_checked_sub (bu_artifact_bytes u) (bu_artifact_bytes contribution)) (Regression ArtifactBytes)) (\<lambda>artifact_bytes.
     and_then (ok_or (execution_checked_sub (bu_unpriced_cost_events u) (bu_unpriced_cost_events contribution))
       (Regression Costs)) (\<lambda>unpriced.
     and_then (map_err UsageCosts (subtract_costs (bu_known_costs u) (bu_known_costs contribution))) (\<lambda>known_costs.
     let difference = u\<lparr>bu_graph_steps := graph_steps,
      bu_model_attempts := model_attempts,
      bu_model_turns := model_turns,
      bu_input_tokens := input_tokens,
      bu_cached_input_tokens := cached_input_tokens,
      bu_reasoning_tokens := reasoning_tokens,
      bu_output_tokens := output_tokens,
      bu_tool_calls := tool_calls,
      bu_write_calls := write_calls,
      bu_remote_agent_delegations := remote_agent_delegations,
      bu_retries := retries,
      bu_input_bytes := input_bytes,
      bu_output_bytes := output_bytes,
      bu_event_bytes := event_bytes,
      bu_checkpoint_bytes := checkpoint_bytes,
      bu_artifact_bytes := artifact_bytes,
      bu_known_costs := known_costs,
      bu_unpriced_cost_events := unpriced\<rparr>
     in and_then (check_subsets difference) (\<lambda>_. Inr difference))))))))))))))))))))"

section \<open>Remaining capacity\<close>

record budget_remaining =
  bm_deadline :: timestamp
  bm_graph_depth :: execution_count
  bm_graph_steps :: execution_count
  bm_model_attempts :: execution_count
  bm_model_turns :: execution_count
  bm_input_tokens :: token_count
  bm_cached_input_tokens :: token_count
  bm_reasoning_tokens :: token_count
  bm_output_tokens :: token_count
  bm_tool_calls :: execution_count
  bm_write_calls :: execution_count
  bm_remote_agent_delegations :: execution_count
  bm_retries :: execution_count
  bm_concurrent_branches :: execution_count
  bm_fan_out :: execution_count
  bm_input_bytes :: byte_count
  bm_output_bytes :: byte_count
  bm_event_bytes :: byte_count
  bm_checkpoint_bytes :: byte_count
  bm_artifact_bytes :: byte_count
  bm_costs :: cost_limits

datatype budget_evaluation_error =
  DeadlineExceeded timestamp timestamp
| ExecutionLimitExceeded budget_dimension execution_count execution_count
| TokenLimitExceeded budget_dimension token_count token_count
| ByteLimitExceeded budget_dimension byte_count byte_count
| CostLimitExceeded money money
| UnbudgetedCurrency currency_code
| UnpricedCost execution_count

definition remaining_execution ::
  "budget_dimension \<Rightarrow> execution_count \<Rightarrow> execution_count \<Rightarrow> (budget_evaluation_error, execution_count) result" where
  "remaining_execution d limit actual =
     ok_or (execution_checked_sub limit actual) (ExecutionLimitExceeded d limit actual)"

definition remaining_tokens ::
  "budget_dimension \<Rightarrow> token_count \<Rightarrow> token_count \<Rightarrow> (budget_evaluation_error, token_count) result" where
  "remaining_tokens d limit actual =
     ok_or (token_checked_sub limit actual) (TokenLimitExceeded d limit actual)"

definition remaining_bytes ::
  "budget_dimension \<Rightarrow> byte_count \<Rightarrow> byte_count \<Rightarrow> (budget_evaluation_error, byte_count) result" where
  "remaining_bytes d limit actual =
     ok_or (byte_checked_sub limit actual) (ByteLimitExceeded d limit actual)"

definition remaining_cost_step ::
  "cost_limits \<Rightarrow> unit \<Rightarrow> money \<Rightarrow> (budget_evaluation_error, unit) result" where
  "remaining_cost_step limits x actual =
     and_then (ok_or (cost_limits_get limits (currency actual)) (UnbudgetedCurrency (currency actual))) (\<lambda>limit.
     reject_if (micro_units actual > micro_units limit) (CostLimitExceeded limit actual))"

definition remaining_costs ::
  "cost_limits \<Rightarrow> budget_usage \<Rightarrow> (budget_evaluation_error, cost_limits) result" where
  "remaining_costs limits u =
     and_then (try_fold (remaining_cost_step limits) () (cost_iter (bu_known_costs u))) (\<lambda>_.
     and_then (reject_if (bu_unpriced_cost_events u \<noteq> execution_ZERO)
                 (UnpricedCost (bu_unpriced_cost_events u))) (\<lambda>_.
     Inr (CostLimits (map (\<lambda>limit. money_new (currency limit)
       (micro_units limit - units_or_zero (known_costs_get (bu_known_costs u) (currency limit))))
       (limit_iter limits)))))"

definition remaining ::
  "resolved_budget \<Rightarrow> budget_usage \<Rightarrow> timestamp \<Rightarrow> (budget_evaluation_error, budget_remaining) result" where
  "remaining b u observed_at =
     and_then (reject_if (observed_at \<ge> rb_deadline b) (DeadlineExceeded (rb_deadline b) observed_at)) (\<lambda>_.
     and_then (remaining_execution GraphDepth (rb_graph_depth b) (bu_graph_depth u)) (\<lambda>graph_depth.
     and_then (remaining_execution GraphSteps (rb_graph_steps b) (bu_graph_steps u)) (\<lambda>graph_steps.
     and_then (remaining_execution ModelAttempts (rb_model_attempts b) (bu_model_attempts u)) (\<lambda>model_attempts.
     and_then (remaining_execution ModelTurns (rb_model_turns b) (bu_model_turns u)) (\<lambda>model_turns.
     and_then (remaining_tokens InputTokens (rb_input_tokens b) (bu_input_tokens u)) (\<lambda>input_tokens.
     and_then (remaining_tokens CachedInputTokens (rb_cached_input_tokens b) (bu_cached_input_tokens u)) (\<lambda>cached_input_tokens.
     and_then (remaining_tokens ReasoningTokens (rb_reasoning_tokens b) (bu_reasoning_tokens u)) (\<lambda>reasoning_tokens.
     and_then (remaining_tokens OutputTokens (rb_output_tokens b) (bu_output_tokens u)) (\<lambda>output_tokens.
     and_then (remaining_execution ToolCalls (rb_tool_calls b) (bu_tool_calls u)) (\<lambda>tool_calls.
     and_then (remaining_execution WriteCalls (rb_write_calls b) (bu_write_calls u)) (\<lambda>write_calls.
     and_then (remaining_execution RemoteAgentDelegations (rb_remote_agent_delegations b) (bu_remote_agent_delegations u)) (\<lambda>remote_agent_delegations.
     and_then (remaining_execution Retries (rb_retries b) (bu_retries u)) (\<lambda>retries.
     and_then (remaining_execution ConcurrentBranches (rb_concurrent_branches b) (bu_concurrent_branches u)) (\<lambda>concurrent_branches.
     and_then (remaining_execution FanOut (rb_fan_out b) (bu_fan_out u)) (\<lambda>fan_out.
     and_then (remaining_bytes InputBytes (rb_input_bytes b) (bu_input_bytes u)) (\<lambda>input_bytes.
     and_then (remaining_bytes OutputBytes (rb_output_bytes b) (bu_output_bytes u)) (\<lambda>output_bytes.
     and_then (remaining_bytes EventBytes (rb_event_bytes b) (bu_event_bytes u)) (\<lambda>event_bytes.
     and_then (remaining_bytes CheckpointBytes (rb_checkpoint_bytes b) (bu_checkpoint_bytes u)) (\<lambda>checkpoint_bytes.
     and_then (remaining_bytes ArtifactBytes (rb_artifact_bytes b) (bu_artifact_bytes u)) (\<lambda>artifact_bytes.
     and_then (remaining_costs (rb_costs b) u) (\<lambda>costs.
     Inr \<lparr>bm_deadline = rb_deadline b,
      bm_graph_depth = graph_depth,
      bm_graph_steps = graph_steps,
      bm_model_attempts = model_attempts,
      bm_model_turns = model_turns,
      bm_input_tokens = input_tokens,
      bm_cached_input_tokens = cached_input_tokens,
      bm_reasoning_tokens = reasoning_tokens,
      bm_output_tokens = output_tokens,
      bm_tool_calls = tool_calls,
      bm_write_calls = write_calls,
      bm_remote_agent_delegations = remote_agent_delegations,
      bm_retries = retries,
      bm_concurrent_branches = concurrent_branches,
      bm_fan_out = fan_out,
      bm_input_bytes = input_bytes,
      bm_output_bytes = output_bytes,
      bm_event_bytes = event_bytes,
      bm_checkpoint_bytes = checkpoint_bytes,
      bm_artifact_bytes = artifact_bytes,
      bm_costs = costs\<rparr>)))))))))))))))))))))"

definition deduct_cumulative ::
  "budget_remaining \<Rightarrow> budget_usage \<Rightarrow> (budget_evaluation_error, budget_remaining) result" where
  "deduct_cumulative r u =
     and_then (remaining_execution GraphSteps (bm_graph_steps r) (bu_graph_steps u)) (\<lambda>graph_steps.
     and_then (remaining_execution ModelAttempts (bm_model_attempts r) (bu_model_attempts u)) (\<lambda>model_attempts.
     and_then (remaining_execution ModelTurns (bm_model_turns r) (bu_model_turns u)) (\<lambda>model_turns.
     and_then (remaining_tokens InputTokens (bm_input_tokens r) (bu_input_tokens u)) (\<lambda>input_tokens.
     and_then (remaining_tokens CachedInputTokens (bm_cached_input_tokens r) (bu_cached_input_tokens u)) (\<lambda>cached_input_tokens.
     and_then (remaining_tokens ReasoningTokens (bm_reasoning_tokens r) (bu_reasoning_tokens u)) (\<lambda>reasoning_tokens.
     and_then (remaining_tokens OutputTokens (bm_output_tokens r) (bu_output_tokens u)) (\<lambda>output_tokens.
     and_then (remaining_execution ToolCalls (bm_tool_calls r) (bu_tool_calls u)) (\<lambda>tool_calls.
     and_then (remaining_execution WriteCalls (bm_write_calls r) (bu_write_calls u)) (\<lambda>write_calls.
     and_then (remaining_execution RemoteAgentDelegations (bm_remote_agent_delegations r) (bu_remote_agent_delegations u)) (\<lambda>remote_agent_delegations.
     and_then (remaining_execution Retries (bm_retries r) (bu_retries u)) (\<lambda>retries.
     and_then (remaining_bytes InputBytes (bm_input_bytes r) (bu_input_bytes u)) (\<lambda>input_bytes.
     and_then (remaining_bytes OutputBytes (bm_output_bytes r) (bu_output_bytes u)) (\<lambda>output_bytes.
     and_then (remaining_bytes EventBytes (bm_event_bytes r) (bu_event_bytes u)) (\<lambda>event_bytes.
     and_then (remaining_bytes CheckpointBytes (bm_checkpoint_bytes r) (bu_checkpoint_bytes u)) (\<lambda>checkpoint_bytes.
     and_then (remaining_bytes ArtifactBytes (bm_artifact_bytes r) (bu_artifact_bytes u)) (\<lambda>artifact_bytes.
     and_then (remaining_costs (bm_costs r) u) (\<lambda>costs.
     Inr (r\<lparr>bm_graph_steps := graph_steps,
      bm_model_attempts := model_attempts,
      bm_model_turns := model_turns,
      bm_input_tokens := input_tokens,
      bm_cached_input_tokens := cached_input_tokens,
      bm_reasoning_tokens := reasoning_tokens,
      bm_output_tokens := output_tokens,
      bm_tool_calls := tool_calls,
      bm_write_calls := write_calls,
      bm_remote_agent_delegations := remote_agent_delegations,
      bm_retries := retries,
      bm_input_bytes := input_bytes,
      bm_output_bytes := output_bytes,
      bm_event_bytes := event_bytes,
      bm_checkpoint_bytes := checkpoint_bytes,
      bm_artifact_bytes := artifact_bytes,
      bm_costs := costs\<rparr>))))))))))))))))))"

section \<open>Usage and capacity by dimension\<close>

fun usage_of :: "budget_usage \<Rightarrow> budget_dimension \<Rightarrow> int" where
  "usage_of u Deadline = 0"
| "usage_of u GraphDepth = int (executions (bu_graph_depth u))"
| "usage_of u GraphSteps = int (executions (bu_graph_steps u))"
| "usage_of u ModelAttempts = int (executions (bu_model_attempts u))"
| "usage_of u ModelTurns = int (executions (bu_model_turns u))"
| "usage_of u InputTokens = int (tokens (bu_input_tokens u))"
| "usage_of u CachedInputTokens = int (tokens (bu_cached_input_tokens u))"
| "usage_of u ReasoningTokens = int (tokens (bu_reasoning_tokens u))"
| "usage_of u OutputTokens = int (tokens (bu_output_tokens u))"
| "usage_of u ToolCalls = int (executions (bu_tool_calls u))"
| "usage_of u WriteCalls = int (executions (bu_write_calls u))"
| "usage_of u RemoteAgentDelegations = int (executions (bu_remote_agent_delegations u))"
| "usage_of u Retries = int (executions (bu_retries u))"
| "usage_of u ConcurrentBranches = int (executions (bu_concurrent_branches u))"
| "usage_of u FanOut = int (executions (bu_fan_out u))"
| "usage_of u InputBytes = int (bytes (bu_input_bytes u))"
| "usage_of u OutputBytes = int (bytes (bu_output_bytes u))"
| "usage_of u EventBytes = int (bytes (bu_event_bytes u))"
| "usage_of u CheckpointBytes = int (bytes (bu_checkpoint_bytes u))"
| "usage_of u ArtifactBytes = int (bytes (bu_artifact_bytes u))"
| "usage_of u Costs = int (executions (bu_unpriced_cost_events u))"

text \<open>What is left of a dimension; what is left of a currency is read with \<open>cost_limits_get\<close>.\<close>

fun remaining_of :: "budget_remaining \<Rightarrow> budget_dimension \<Rightarrow> int" where
  "remaining_of r Deadline = unix_micros (bm_deadline r)"
| "remaining_of r GraphDepth = int (executions (bm_graph_depth r))"
| "remaining_of r GraphSteps = int (executions (bm_graph_steps r))"
| "remaining_of r ModelAttempts = int (executions (bm_model_attempts r))"
| "remaining_of r ModelTurns = int (executions (bm_model_turns r))"
| "remaining_of r InputTokens = int (tokens (bm_input_tokens r))"
| "remaining_of r CachedInputTokens = int (tokens (bm_cached_input_tokens r))"
| "remaining_of r ReasoningTokens = int (tokens (bm_reasoning_tokens r))"
| "remaining_of r OutputTokens = int (tokens (bm_output_tokens r))"
| "remaining_of r ToolCalls = int (executions (bm_tool_calls r))"
| "remaining_of r WriteCalls = int (executions (bm_write_calls r))"
| "remaining_of r RemoteAgentDelegations = int (executions (bm_remote_agent_delegations r))"
| "remaining_of r Retries = int (executions (bm_retries r))"
| "remaining_of r ConcurrentBranches = int (executions (bm_concurrent_branches r))"
| "remaining_of r FanOut = int (executions (bm_fan_out r))"
| "remaining_of r InputBytes = int (bytes (bm_input_bytes r))"
| "remaining_of r OutputBytes = int (bytes (bm_output_bytes r))"
| "remaining_of r EventBytes = int (bytes (bm_event_bytes r))"
| "remaining_of r CheckpointBytes = int (bytes (bm_checkpoint_bytes r))"
| "remaining_of r ArtifactBytes = int (bytes (bm_artifact_bytes r))"
| "remaining_of r Costs = 0"

text \<open>
  From here on a dimension is only unfolded into its field where a proof says so.
\<close>

named_theorems dimension_simps \<open>the field behind a dimension\<close>

declare limit_of.simps [simp del, dimension_simps]
declare usage_of.simps [simp del, dimension_simps]
declare remaining_of.simps [simp del, dimension_simps]

definition high_water :: "budget_dimension \<Rightarrow> bool" where
  "high_water d \<longleftrightarrow> d \<in> {GraphDepth, ConcurrentBranches, FanOut}"

definition budget_usage_wf :: "budget_usage \<Rightarrow> bool" where
  "budget_usage_wf u \<longleftrightarrow> is_ok (check_subsets u) \<and> known_costs_wf (bu_known_costs u)"

section \<open>The fields behind a dimension\<close>

lemmas amount_simps =
  ec.amount_zero tc.amount_zero bc.amount_zero
  ec.amount_le_iff tc.amount_le_iff bc.amount_le_iff
  ec.amount_less_iff tc.amount_less_iff bc.amount_less_iff
  ec.amount_max ec.amount_min tc.amount_min
  ec.add_Some_iff tc.add_Some_iff bc.add_Some_iff
  ec.sub_Some_iff tc.sub_Some_iff bc.sub_Some_iff

lemmas add_defs = add_execution_def add_tokens_def add_bytes_def

lemmas remaining_defs = remaining_execution_def remaining_tokens_def remaining_bytes_def

lemma units_or_zero: "unat (units_or_zero m) = units_of m"
  by (cases m) (simp_all add: units_or_zero_def)

lemma usage_of_bounds: "0 \<le> usage_of u d" "usage_of u d < 2 ^ 64"
  using u64_bound by (cases d; simp add: dimension_simps)+

lemma budget_usage_wf_iff:
  "budget_usage_wf u \<longleftrightarrow>
     known_costs_wf (bu_known_costs u) \<and>
     usage_of u CachedInputTokens \<le> usage_of u InputTokens \<and>
     usage_of u ReasoningTokens \<le> usage_of u OutputTokens \<and>
     usage_of u WriteCalls \<le> usage_of u ToolCalls"
  by (auto simp: budget_usage_wf_def check_subsets_def ok_simps amount_simps not_less dimension_simps)

lemma check_subsets_iff:
  "is_ok (check_subsets u) \<longleftrightarrow>
     usage_of u CachedInputTokens \<le> usage_of u InputTokens \<and>
     usage_of u ReasoningTokens \<le> usage_of u OutputTokens \<and>
     usage_of u WriteCalls \<le> usage_of u ToolCalls"
  by (auto simp: check_subsets_def ok_simps amount_simps not_less dimension_simps)

lemma usage_zero_of [simp]: "usage_of usage_zero d = 0"
  by (cases d) (simp_all add: usage_zero_def amount_simps dimension_simps)

lemma cumulative_only_of: "usage_of (cumulative_only u) d = (if high_water d then 0 else usage_of u d)"
  by (cases d) (simp_all add: cumulative_only_def high_water_def amount_simps dimension_simps)

lemma cumulative_only_costs [simp]: "bu_known_costs (cumulative_only u) = bu_known_costs u"
  by (simp add: cumulative_only_def)

section \<open>Accumulation\<close>

lemma checked_accumulate_of:
  assumes "checked_accumulate u v = Inr w"
  shows "usage_of w d =
    (if high_water d then max (usage_of u d) (usage_of v d) else usage_of u d + usage_of v d)"
  using assms
  by (cases d) (auto simp: checked_accumulate_def result_simps add_defs amount_simps high_water_def dimension_simps)

lemma checked_accumulate_costs:
  "checked_accumulate u v = Inr w \<Longrightarrow>
     known_costs_checked_accumulate (bu_known_costs u) (bu_known_costs v) = Inr (bu_known_costs w)"
  by (auto simp: checked_accumulate_def result_simps)

lemma nat_sum_fits: "\<not> (2 ^ 64 \<le> x + y) \<longleftrightarrow> int x + int y < 18446744073709551616" for x y :: nat
  by simp linarith

lemma count_sum_fits:
  "(\<exists>c. execution_checked_add a b = Some c) \<longleftrightarrow>
     int (executions a) + int (executions b) < 18446744073709551616"
  "(\<exists>x. token_checked_add c d = Some x) \<longleftrightarrow> int (tokens c) + int (tokens d) < 18446744073709551616"
  "(\<exists>x. byte_checked_add e f = Some x) \<longleftrightarrow> int (bytes e) + int (bytes f) < 18446744073709551616"
  unfolding nat_sum_fits [symmetric]
  by (simp_all only: not_None_eq [symmetric] ec.add_None_iff tc.add_None_iff bc.add_None_iff)

lemma checked_accumulate_ok_iff:
  "is_ok (checked_accumulate u v) \<longleftrightarrow>
     (\<forall>d. \<not> high_water d \<longrightarrow> usage_of u d + usage_of v d < 2 ^ 64) \<and>
     is_ok (known_costs_checked_accumulate (bu_known_costs u) (bu_known_costs v))"
  unfolding all_dimension_iff
  by (simp add: checked_accumulate_def ok_simps add_defs high_water_def ok_or_Inr_iff map_err_Inr_iff
      count_sum_fits is_ok_iff [symmetric] conj_ac dimension_simps)

abbreviation spent :: "budget_usage \<Rightarrow> currency_code \<Rightarrow> nat" where
  "spent u c \<equiv> units_of (known_costs_get (bu_known_costs u) c)"

lemma checked_accumulate_wf:
  assumes "checked_accumulate u v = Inr w" and "budget_usage_wf u" and "budget_usage_wf v"
  shows "budget_usage_wf w" and "spent w c = spent u c + spent v c"
    and "known_costs_get (bu_known_costs w) c = None \<longleftrightarrow>
      known_costs_get (bu_known_costs u) c = None \<and> known_costs_get (bu_known_costs v) c = None"
  using known_costs_accumulate_Inr [OF checked_accumulate_costs [OF assms(1)]] assms(2,3)
  by (auto simp: budget_usage_wf_iff checked_accumulate_of [OF assms(1)] high_water_def)

section \<open>Monotonicity and subtraction\<close>

lemma validate_monotonic_ok_iff:
  assumes "known_costs_wf (bu_known_costs p)"
  shows "is_ok (validate_monotonic_after u p) \<longleftrightarrow>
    (\<forall>d. usage_of p d \<le> usage_of u d) \<and> (\<forall>c. spent p c \<le> spent u c)"
proof -
  have "is_ok (validate_monotonic_after u p) \<longleftrightarrow> (\<forall>d. usage_of p d \<le> usage_of u d) \<and>
      (\<forall>m\<in>set (cost_iter (bu_known_costs p)). is_ok (monotonic_cost_step u () m))"
    unfolding all_dimension_iff
    by (simp add: validate_monotonic_after_def ok_simps reject_first_Inr_iff not_less is_ok_try_fold_unit
        ec.amount_le_iff tc.amount_le_iff bc.amount_le_iff conj_ac dimension_simps)
  also have "(\<forall>m\<in>set (cost_iter (bu_known_costs p)). is_ok (monotonic_cost_step u () m)) \<longleftrightarrow>
      (\<forall>c m. known_costs_get (bu_known_costs p) c = Some m \<longrightarrow> unat (micro_units m) \<le> spent u c)"
    using kc.get_currency [OF assms]
    by (simp add: kc.ball_iter_iff [OF assms] monotonic_cost_step_def ok_simps not_less word_le_nat
        units_or_zero)
  also have "\<dots> \<longleftrightarrow> (\<forall>c. spent p c \<le> spent u c)"
    by (auto simp: units_of_def split: option.splits)
  finally show ?thesis .
qed

lemma subtract_costs_ok:
  assumes "known_costs_wf k" and "\<And>c. units_of (known_costs_get v c) \<le> units_of (known_costs_get k c)"
  obtains r where "subtract_costs k v = Inr r" and "known_costs_wf r"
    and "\<And>c. units_of (known_costs_get r c) = units_of (known_costs_get k c) - units_of (known_costs_get v c)"
proof -
  let ?f = "\<lambda>cost. money_new (currency cost)
    (micro_units cost - units_or_zero (known_costs_get v (currency cost)))"
  let ?r = "KnownCosts (map ?f (cost_iter k))"
  have wf: "known_costs_wf ?r"
    using assms(1) by (simp add: known_costs_wf_def slice_wf_def comp_def)
  then have "subtract_costs k v = Inr ?r"
    by (simp add: subtract_costs_def known_costs_try_new_def collect_costs_slice known_costs_wf_def)
  moreover have "units_of (known_costs_get ?r c) =
      units_of (known_costs_get k c) - units_of (known_costs_get v c)" for c
  proof (cases "known_costs_get k c")
    case None
    then have "c \<notin> currency ` set (cost_iter k)" using kc.get_None_iff [OF assms(1)] by blast
    then have "known_costs_get ?r c = None" using kc.get_None_iff [OF wf] by (simp add: image_image)
    with None show ?thesis by simp
  next
    case (Some m)
    then have m: "m \<in> set (cost_iter k)" "currency m = c" using kc.get_Some_iff [OF assms(1)] by auto
    moreover from m(1) have "?f m \<in> ?f ` set (cost_iter k)" by (rule imageI)
    ultimately have "known_costs_get ?r c = Some (?f m)" by (subst kc.get_Some_iff [OF wf]) simp
    moreover have "units_or_zero (known_costs_get v c) \<le> micro_units m"
      using assms(2) [of c] Some by (simp add: word_le_nat units_or_zero)
    ultimately show ?thesis using Some m by (simp add: unat_sub units_or_zero)
  qed
  ultimately show ?thesis using wf that by blast
qed

lemma count_sub_le:
  "executions b \<le> executions a \<Longrightarrow>
     execution_checked_sub a b = Some (ExecutionCount (execution_get a - execution_get b))"
  "tokens d \<le> tokens c \<Longrightarrow> token_checked_sub c d = Some (TokenCount (token_get c - token_get d))"
  "bytes f \<le> bytes e \<Longrightarrow> byte_checked_sub e f = Some (ByteCount (byte_get e - byte_get f))"
  by (simp_all add: execution_checked_sub_def token_checked_sub_def byte_checked_sub_def
      checked_sub_def word_le_nat)

lemma int_unat_diff: "unat b \<le> unat a \<Longrightarrow> int (unat (a - b)) = int (unat a) - int (unat b)"
  for a :: "'n::len word"
  by (simp add: unat_sub word_le_nat of_nat_diff)

lemma checked_subtract_of:
  assumes "checked_subtract_cumulative u v = Inr r"
  shows "usage_of r d = (if high_water d then usage_of u d else usage_of u d - usage_of v d)"
  using assms
  by (cases d) (auto simp: checked_subtract_cumulative_def result_simps amount_simps high_water_def Let_def dimension_simps)

lemma checked_subtract_costs:
  "checked_subtract_cumulative u v = Inr r \<Longrightarrow>
     subtract_costs (bu_known_costs u) (bu_known_costs v) = Inr (bu_known_costs r)"
  by (auto simp: checked_subtract_cumulative_def result_simps Let_def)

lemma checked_subtract_ok:
  assumes "budget_usage_wf u" and "budget_usage_wf v"
    and le: "\<And>d. \<not> high_water d \<Longrightarrow> usage_of v d \<le> usage_of u d" and "\<And>c. spent v c \<le> spent u c"
    and "usage_of u CachedInputTokens - usage_of v CachedInputTokens \<le>
      usage_of u InputTokens - usage_of v InputTokens"
    and "usage_of u ReasoningTokens - usage_of v ReasoningTokens \<le>
      usage_of u OutputTokens - usage_of v OutputTokens"
    and "usage_of u WriteCalls - usage_of v WriteCalls \<le> usage_of u ToolCalls - usage_of v ToolCalls"
  obtains r where "checked_subtract_cumulative u v = Inr r" and "budget_usage_wf r"
    and "\<And>c. spent r c = spent u c - spent v c"
proof -
  have mono: "validate_monotonic_after u (cumulative_only v) = Inr ()"
    using assms(1-4) validate_monotonic_ok_iff [of "cumulative_only v" u]
    by (auto simp: budget_usage_wf_def cumulative_only_of is_ok_iff usage_of_bounds)
  obtain k where k: "subtract_costs (bu_known_costs u) (bu_known_costs v) = Inr k" "known_costs_wf k"
      "\<And>c. units_of (known_costs_get k c) = spent u c - spent v c"
    using subtract_costs_ok [of "bu_known_costs u" "bu_known_costs v"] assms(1,4)
    by (auto simp: budget_usage_wf_def)
  have le': "\<forall>d. \<not> high_water d \<longrightarrow> usage_of v d \<le> usage_of u d" using le by blast
  then have "\<exists>r. checked_subtract_cumulative u v = Inr r"
    using assms(5-7) unfolding all_dimension_iff
    by (simp add: checked_subtract_cumulative_def mono k(1) high_water_def count_sub_le Let_def
        check_subsets_def reject_first.simps reject_if_def amount_simps int_unat_diff
        of_nat_le_iff [symmetric, where 'a = int] of_nat_less_iff [symmetric, where 'a = int] dimension_simps
        del: of_nat_le_iff of_nat_less_iff)
  then obtain r where r: "checked_subtract_cumulative u v = Inr r" ..
  have "bu_known_costs r = k" using checked_subtract_costs [OF r] k(1) by simp
  moreover have "is_ok (check_subsets r)"
    using assms(5-7) by (simp add: check_subsets_iff checked_subtract_of [OF r] high_water_def)
  ultimately show ?thesis using that r k by (simp add: budget_usage_wf_def)
qed

section \<open>Evaluation\<close>

lemma count_sub_fits:
  "(\<exists>x. execution_checked_sub a b = Some x) \<longleftrightarrow> int (executions b) \<le> int (executions a)"
  "(\<exists>x. token_checked_sub c d = Some x) \<longleftrightarrow> int (tokens d) \<le> int (tokens c)"
  "(\<exists>x. byte_checked_sub e f = Some x) \<longleftrightarrow> int (bytes f) \<le> int (bytes e)"
  by (simp_all add: ec.sub_defined_iff tc.sub_defined_iff bc.sub_defined_iff
      ec.amount_le_iff tc.amount_le_iff bc.amount_le_iff)

text \<open>What the charges of a usage may be against given ceilings.\<close>

definition costs_within :: "known_costs \<Rightarrow> cost_limits \<Rightarrow> bool" where
  "costs_within k l \<longleftrightarrow>
     (\<forall>c m. known_costs_get k c = Some m \<longrightarrow>
        (\<exists>n. cost_limits_get l c = Some n \<and> micro_units m \<le> micro_units n))"

lemma remaining_costs_ok_iff:
  assumes "known_costs_wf (bu_known_costs u)"
  shows "is_ok (remaining_costs l u) \<longleftrightarrow> costs_within (bu_known_costs u) l \<and> usage_of u Costs = 0"
proof -
  have "is_ok (remaining_costs l u) \<longleftrightarrow>
      is_ok (try_fold (remaining_cost_step l) () (cost_iter (bu_known_costs u))) \<and>
      bu_unpriced_cost_events u = execution_ZERO"
    by (auto simp: remaining_costs_def result_simps)
  moreover have "bu_unpriced_cost_events u = execution_ZERO \<longleftrightarrow> usage_of u Costs = 0"
    by (simp add: ec.amount_eq_iff dimension_simps amount_simps)
  moreover have "is_ok (try_fold (remaining_cost_step l) () (cost_iter (bu_known_costs u))) \<longleftrightarrow>
      costs_within (bu_known_costs u) l"
    using kc.get_currency [OF assms]
    by (simp add: is_ok_try_fold_unit kc.ball_iter_iff [OF assms] costs_within_def
        remaining_cost_step_def ok_simps ok_or_Inr_iff not_less)
  ultimately show ?thesis by simp
qed

lemma remaining_costs_get:
  assumes "remaining_costs l u = Inr r" and "cost_limits_wf l" and "known_costs_wf (bu_known_costs u)"
  shows "cost_limits_wf r"
    and "cost_limits_get r c =
      map_option (\<lambda>m. money_new c (micro_units m - units_or_zero (known_costs_get (bu_known_costs u) c)))
        (cost_limits_get l c)"
proof -
  let ?f = "\<lambda>m. money_new (currency m)
    (micro_units m - units_or_zero (known_costs_get (bu_known_costs u) (currency m)))"
  have r: "r = CostLimits (map ?f (limit_iter l))"
    using assms(1) by (auto simp: remaining_costs_def result_simps)
  then show wf: "cost_limits_wf r"
    using assms(2) by (simp add: cost_limits_wf_def slice_wf_def comp_def)
  show "cost_limits_get r c =
      map_option (\<lambda>m. money_new c (micro_units m - units_or_zero (known_costs_get (bu_known_costs u) c)))
        (cost_limits_get l c)"
  proof (rule option_ext)
    fix x
    have "cost_limits_get r c = Some x \<longleftrightarrow> (\<exists>m\<in>set (limit_iter l). x = ?f m \<and> currency m = c)"
      by (subst cl.get_Some_iff [OF wf]) (auto simp: r)
    also have "\<dots> \<longleftrightarrow> (\<exists>m. cost_limits_get l c = Some m \<and> x = ?f m)"
      using cl.get_Some_iff [OF assms(2)] by auto
    finally show "cost_limits_get r c = Some x \<longleftrightarrow>
        map_option (\<lambda>m. money_new c (micro_units m - units_or_zero (known_costs_get (bu_known_costs u) c)))
          (cost_limits_get l c) = Some x"
      using cl.get_currency [OF assms(2)] by auto
  qed
qed

lemma remaining_ok_iff:
  assumes "known_costs_wf (bu_known_costs u)"
  shows "is_ok (remaining b u t) \<longleftrightarrow>
    t < rb_deadline b \<and> (\<forall>d. d \<noteq> Deadline \<longrightarrow> usage_of u d \<le> limit_of b d) \<and>
    costs_within (bu_known_costs u) (rb_costs b)"
proof -
  have "is_ok (remaining b u t) \<longleftrightarrow>
      t < rb_deadline b \<and> (\<forall>d. d \<noteq> Deadline \<longrightarrow> d \<noteq> Costs \<longrightarrow> usage_of u d \<le> limit_of b d) \<and>
      is_ok (remaining_costs (rb_costs b) u)"
    unfolding all_dimension_iff
    by (simp add: remaining_def ok_simps remaining_defs ok_or_Inr_iff reject_if_Inr_iff count_sub_fits
        not_le is_ok_iff [symmetric] dimension_simps)
  moreover have "usage_of u Costs = 0 \<longleftrightarrow> usage_of u Costs \<le> limit_of b Costs"
    using usage_of_bounds [of u Costs] by (simp add: limit_of.simps)
  ultimately show ?thesis using remaining_costs_ok_iff [OF assms] by auto
qed

lemma remaining_of_remaining:
  assumes "remaining b u t = Inr r"
  shows "remaining_of r d = (if d = Deadline then limit_of b d else limit_of b d - usage_of u d)"
proof (cases "d = Costs")
  case True
  have "bu_unpriced_cost_events u = execution_ZERO"
    using assms by (auto simp: remaining_def remaining_costs_def result_simps)
  with True show ?thesis by (simp add: dimension_simps amount_simps)
next
  case False
  with assms show ?thesis
    by (cases d) (auto simp: remaining_def result_simps remaining_defs amount_simps dimension_simps)
qed

lemma remaining_costs_of: "remaining b u t = Inr r \<Longrightarrow> remaining_costs (rb_costs b) u = Inr (bm_costs r)"
  by (auto simp: remaining_def result_simps)

lemma remaining_deadline: "remaining b u t = Inr r \<Longrightarrow> bm_deadline r = rb_deadline b \<and> t < rb_deadline b"
  by (auto simp: remaining_def result_simps)

lemma remaining_currencies:
  assumes r: "remaining b u t = Inr r" and "resolved_budget_wf b" and "budget_usage_wf u"
  shows "cost_limits_get (bm_costs r) c = None \<longleftrightarrow> cost_limits_get (rb_costs b) c = None"
    and "int (units_of (cost_limits_get (bm_costs r) c)) =
      int (units_of (cost_limits_get (rb_costs b) c)) - int (spent u c)"
proof -
  have wf: "cost_limits_wf (rb_costs b)" "known_costs_wf (bu_known_costs u)"
    using assms(2,3) by (simp_all add: resolved_budget_wf_def budget_usage_wf_def)
  have within: "costs_within (bu_known_costs u) (rb_costs b)" using remaining_ok_iff [OF wf(2), of b t] r by simp
  note get = remaining_costs_get(2) [OF remaining_costs_of [OF r] wf, of c]
  show "cost_limits_get (bm_costs r) c = None \<longleftrightarrow> cost_limits_get (rb_costs b) c = None"
    by (simp add: get)
  show "int (units_of (cost_limits_get (bm_costs r) c)) =
      int (units_of (cost_limits_get (rb_costs b) c)) - int (spent u c)"
    using within
    by (cases "known_costs_get (bu_known_costs u) c"; cases "cost_limits_get (rb_costs b) c")
      (auto simp: get costs_within_def units_or_zero_def int_unat_diff word_le_nat dest!: spec [of _ c])
qed

lemma deduct_ok_iff:
  assumes "known_costs_wf (bu_known_costs v)"
  shows "is_ok (deduct_cumulative r v) \<longleftrightarrow>
    (\<forall>d. d \<noteq> Deadline \<longrightarrow> \<not> high_water d \<longrightarrow> usage_of v d \<le> remaining_of r d) \<and>
    costs_within (bu_known_costs v) (bm_costs r)"
proof -
  have "is_ok (deduct_cumulative r v) \<longleftrightarrow>
      (\<forall>d. d \<noteq> Deadline \<longrightarrow> \<not> high_water d \<longrightarrow> d \<noteq> Costs \<longrightarrow> usage_of v d \<le> remaining_of r d) \<and>
      is_ok (remaining_costs (bm_costs r) v)"
    unfolding all_dimension_iff
    by (simp add: deduct_cumulative_def ok_simps remaining_defs ok_or_Inr_iff count_sub_fits
        is_ok_iff [symmetric] dimension_simps high_water_def)
  moreover have "usage_of v Costs = 0 \<longleftrightarrow> usage_of v Costs \<le> remaining_of r Costs"
    using usage_of_bounds [of v Costs] by (simp add: remaining_of.simps)
  ultimately show ?thesis using remaining_costs_ok_iff [OF assms] by (auto simp: high_water_def)
qed

lemma deduct_of:
  assumes "deduct_cumulative r v = Inr s"
  shows "remaining_of s d =
    (if d = Deadline \<or> high_water d then remaining_of r d else remaining_of r d - usage_of v d)"
proof (cases "d = Costs")
  case True
  have "bu_unpriced_cost_events v = execution_ZERO"
    using assms by (auto simp: deduct_cumulative_def remaining_costs_def result_simps)
  with True show ?thesis by (simp add: dimension_simps amount_simps)
next
  case False
  with assms show ?thesis
    by (cases d) (auto simp: deduct_cumulative_def result_simps remaining_defs amount_simps
        dimension_simps high_water_def)
qed

lemma deduct_costs: "deduct_cumulative r v = Inr s \<Longrightarrow> remaining_costs (bm_costs r) v = Inr (bm_costs s)"
  by (auto simp: deduct_cumulative_def result_simps)

lemma budget_remaining_eqI:
  assumes "\<And>d. remaining_of r d = remaining_of s d" and "bm_costs r = bm_costs s"
  shows "r = (s :: budget_remaining)"
proof -
  have "\<forall>d. remaining_of r d = remaining_of s d" using assms(1) by blast
  with assms(2) show ?thesis
    unfolding all_dimension_iff
    by (simp add: dimension_simps ec.amount_eq_iff [symmetric] tc.amount_eq_iff [symmetric]
        bc.amount_eq_iff [symmetric] timestamp.expand)
qed

text \<open>Charging two usages one after the other is charging their sum.\<close>

lemma costs_within_sum:
  assumes wf: "budget_usage_wf u" "budget_usage_wf v" "cost_limits_wf l"
    and w: "checked_accumulate u v = Inr w"
    and r: "remaining_costs l u = Inr r"
  shows "costs_within (bu_known_costs w) l \<longleftrightarrow> costs_within (bu_known_costs v) r"
proof -
  have u: "costs_within (bu_known_costs u) l"
    using r remaining_costs_ok_iff [of u l] wf(1) by (simp add: budget_usage_wf_def)
  have get: "cost_limits_get r c = map_option (\<lambda>m. money_new c
      (micro_units m - units_or_zero (known_costs_get (bu_known_costs u) c))) (cost_limits_get l c)" for c
    using remaining_costs_get [OF r wf(3)] wf(1) by (simp add: budget_usage_wf_def)
  have known: "known_costs_get (bu_known_costs w) c = None \<longleftrightarrow>
      known_costs_get (bu_known_costs u) c = None \<and> known_costs_get (bu_known_costs v) c = None"
      "spent w c = spent u c + spent v c" for c
    using checked_accumulate_wf [OF w wf(1,2)] by auto
  let ?cap = "\<lambda>k l c. known_costs_get k c \<noteq> None \<longrightarrow>
    (\<exists>n. cost_limits_get l c = Some n \<and> units_of (known_costs_get k c) \<le> unat (micro_units n))"
  have within: "costs_within k l \<longleftrightarrow> (\<forall>c. ?cap k l c)" for k l
    unfolding costs_within_def by (auto simp: word_le_nat)
  have "?cap (bu_known_costs w) l c \<longleftrightarrow> ?cap (bu_known_costs v) r c" for c
  proof -
    have cap: "?cap (bu_known_costs u) l c" using u unfolding within by blast
    show ?thesis
    proof (cases "cost_limits_get l c")
      case None
      with cap show ?thesis by (auto simp: known get)
    next
      case (Some n)
      with cap have le: "spent u c \<le> unat (micro_units n)"
        by (cases "known_costs_get (bu_known_costs u) c") auto
      then have "unat (micro_units n - units_or_zero (known_costs_get (bu_known_costs u) c)) =
          unat (micro_units n) - spent u c"
        by (simp add: unat_sub word_le_nat units_or_zero)
      with Some le show ?thesis
        by (cases "known_costs_get (bu_known_costs v) c"; cases "known_costs_get (bu_known_costs u) c")
          (auto simp: known get)
    qed
  qed
  then show ?thesis unfolding within by blast
qed

lemma deduct_same_verdict:
  assumes "budget_usage_wf v" and "budget_usage_wf u" and "budget_usage_wf (cumulative_only v)"
    and "cost_limits_wf (rb_costs b)"
    and w: "checked_accumulate u (cumulative_only v) = Inr w" and r: "remaining b u t = Inr r"
  shows "is_ok (remaining b w t) \<longleftrightarrow> is_ok (deduct_cumulative r v)"
proof -
  have wf: "known_costs_wf (bu_known_costs u)" "known_costs_wf (bu_known_costs v)"
      "known_costs_wf (bu_known_costs w)"
    using assms(1,2) checked_accumulate_wf(1) [OF w assms(2,3)] by (auto simp: budget_usage_wf_def)
  have u: "usage_of u d \<le> limit_of b d" if "d \<noteq> Deadline" for d
    using remaining_ok_iff [OF wf(1), of b t] r that by simp
  have "costs_within (bu_known_costs w) (rb_costs b) \<longleftrightarrow> costs_within (bu_known_costs v) (bm_costs r)"
    using costs_within_sum [OF assms(2,3,4) w remaining_costs_of [OF r]] by simp
  moreover have "usage_of w d \<le> limit_of b d \<longleftrightarrow> (\<not> high_water d \<longrightarrow> usage_of v d \<le> remaining_of r d)"
    if "d \<noteq> Deadline" for d
    using u [OF that] usage_of_bounds [of u d] that
    by (auto simp: checked_accumulate_of [OF w] cumulative_only_of remaining_of_remaining [OF r])
  ultimately show ?thesis
    using remaining_deadline [OF r] by (simp add: remaining_ok_iff wf deduct_ok_iff)
qed

lemma deduct_same_capacity:
  assumes "budget_usage_wf v" and "budget_usage_wf u" and "budget_usage_wf (cumulative_only v)"
    and costs: "cost_limits_wf (rb_costs b)"
    and w: "checked_accumulate u (cumulative_only v) = Inr w" and r: "remaining b u t = Inr r"
    and s: "remaining b w t = Inr s" and s': "deduct_cumulative r v = Inr s'"
  shows "s = s'"
proof (rule budget_remaining_eqI)
  have wf: "known_costs_wf (bu_known_costs u)" "known_costs_wf (bu_known_costs v)"
      "known_costs_wf (bu_known_costs w)"
    using assms(1,2) checked_accumulate_wf(1) [OF w assms(2,3)] by (auto simp: budget_usage_wf_def)
  show "remaining_of s d = remaining_of s' d" for d
    using usage_of_bounds [of u d]
    by (simp add: remaining_of_remaining [OF s] deduct_of [OF s'] remaining_of_remaining [OF r]
        checked_accumulate_of [OF w] cumulative_only_of)
  note get_r = remaining_costs_get [OF remaining_costs_of [OF r] costs wf(1)]
  note get_s = remaining_costs_get [OF remaining_costs_of [OF s] costs wf(3)]
  note get_s' = remaining_costs_get [OF deduct_costs [OF s'] get_r(1) wf(2)]
  have "units_or_zero (known_costs_get (bu_known_costs w) c) =
      units_or_zero (known_costs_get (bu_known_costs u) c) + units_or_zero (known_costs_get (bu_known_costs v) c)"
    for c
  proof -
    have "spent w c = spent u c + spent v c"
      using checked_accumulate_wf(2) [OF w assms(2,3)] by simp
    then have "checked_add (units_or_zero (known_costs_get (bu_known_costs u) c))
        (units_or_zero (known_costs_get (bu_known_costs v) c)) =
        Some (units_or_zero (known_costs_get (bu_known_costs w) c))"
      by (simp add: checked_add_Some_iff units_or_zero)
    then show ?thesis by (auto simp: checked_add_def split: if_splits)
  qed
  then show "bm_costs s = bm_costs s'"
    by (intro cl.extensional [OF get_s(1) get_s'(1)] ext)
      (simp add: get_s(2) get_s'(2) get_r(2) option.map_comp comp_def diff_diff_eq)
qed

text \<open>A sample usage: one number for every count, one charge.\<close>

definition sample_usage :: "u64 \<Rightarrow> u64 \<Rightarrow> budget_usage" where
  "sample_usage n m =
     \<lparr>bu_graph_depth = ExecutionCount n,
      bu_graph_steps = ExecutionCount n,
      bu_model_attempts = ExecutionCount n,
      bu_model_turns = ExecutionCount n,
      bu_input_tokens = TokenCount n,
      bu_cached_input_tokens = TokenCount n,
      bu_reasoning_tokens = TokenCount n,
      bu_output_tokens = TokenCount n,
      bu_tool_calls = ExecutionCount n,
      bu_write_calls = ExecutionCount n,
      bu_remote_agent_delegations = ExecutionCount n,
      bu_retries = ExecutionCount n,
      bu_concurrent_branches = ExecutionCount n,
      bu_fan_out = ExecutionCount n,
      bu_input_bytes = ByteCount n,
      bu_output_bytes = ByteCount n,
      bu_event_bytes = ByteCount n,
      bu_checkpoint_bytes = ByteCount n,
      bu_artifact_bytes = ByteCount n,
      bu_known_costs = KnownCosts [money_new USD m],
      bu_unpriced_cost_events = ExecutionCount 0\<rparr>"

lemma sample_usage_of:
  "usage_of (sample_usage n m) d = (if d = Deadline \<or> d = Costs then 0 else int (unat n))"
  by (cases d) (simp_all add: sample_usage_def dimension_simps)

lemma sample_usage_wf: "budget_usage_wf (sample_usage n m)"
  by (simp add: budget_usage_wf_iff sample_usage_of)
    (simp add: sample_usage_def known_costs_wf_def slice_wf_def MAX_COST_CURRENCIES_def)

lemma sample_usage_cost:
  "known_costs_get (bu_known_costs (sample_usage n m)) c = (if c = USD then Some (money_new USD m) else None)"
  "charged (bu_known_costs (sample_usage n m)) = {USD}"
  by (simp_all add: sample_usage_def known_costs_get_def slice_get_def binary_search_def
      bsearch_loop.simps charged_def)

lemma sample_accumulate: "\<exists>w. checked_accumulate (sample_usage 3 2) (sample_usage 4 1) = Inr w"
proof -
  have "is_ok (checked_accumulate (sample_usage 3 2) (sample_usage 4 1))"
    unfolding checked_accumulate_ok_iff
    using known_costs_accumulate_ok_iff [of "bu_known_costs (sample_usage 3 2)"
        "bu_known_costs (sample_usage 4 1)"] sample_usage_wf
    by (simp add: sample_usage_of sample_usage_cost budget_usage_wf_def MAX_COST_CURRENCIES_def)
  then show ?thesis by (simp add: is_ok_iff)
qed

section \<open>What accounting guarantees\<close>

text \<open>
  C18. Accumulating two usages succeeds iff no cumulative dimension and no currency overflows 64 bits
  and at most sixteen currencies are charged. The result adds every cumulative dimension and every
  currency, takes the maximum of the three high-water dimensions, keeps the subset dimensions below
  their totals, and passes the monotonicity check against both of the usages it was made from.
\<close>

theorem accumulate_exact:
  assumes "budget_usage_wf u" and "budget_usage_wf v"
  shows "(is_ok (checked_accumulate u v) \<longleftrightarrow>
      (\<forall>d. \<not> high_water d \<longrightarrow> usage_of u d + usage_of v d < 2 ^ 64) \<and>
      (\<forall>c. spent u c + spent v c < 2 ^ 64) \<and>
      card (charged (bu_known_costs u) \<union> charged (bu_known_costs v)) \<le> MAX_COST_CURRENCIES) \<and>
    (\<forall>w. checked_accumulate u v = Inr w \<longrightarrow>
      (\<forall>d. usage_of w d = (if high_water d then max (usage_of u d) (usage_of v d)
                           else usage_of u d + usage_of v d)) \<and>
      (\<forall>c. spent w c = spent u c + spent v c) \<and> budget_usage_wf w \<and>
      is_ok (validate_monotonic_after w u) \<and> is_ok (validate_monotonic_after w v))"
proof (intro conjI allI impI)
  have costs: "known_costs_wf (bu_known_costs u)" "known_costs_wf (bu_known_costs v)"
    using assms by (simp_all add: budget_usage_wf_def)
  show "is_ok (checked_accumulate u v) \<longleftrightarrow>
      (\<forall>d. \<not> high_water d \<longrightarrow> usage_of u d + usage_of v d < 2 ^ 64) \<and>
      (\<forall>c. spent u c + spent v c < 2 ^ 64) \<and>
      card (charged (bu_known_costs u) \<union> charged (bu_known_costs v)) \<le> MAX_COST_CURRENCIES"
    unfolding checked_accumulate_ok_iff known_costs_accumulate_ok_iff [OF costs] by blast
  fix w
  assume w: "checked_accumulate u v = Inr w"
  show "usage_of w d = (if high_water d then max (usage_of u d) (usage_of v d)
      else usage_of u d + usage_of v d)" for d
    by (rule checked_accumulate_of [OF w])
  show "spent w c = spent u c + spent v c" for c
    by (rule checked_accumulate_wf(2) [OF w assms])
  show "budget_usage_wf w"
    by (rule checked_accumulate_wf(1) [OF w assms])
  show "is_ok (validate_monotonic_after w u)" "is_ok (validate_monotonic_after w v)"
    using checked_accumulate_wf(2) [OF w assms] usage_of_bounds
    by (simp_all add: validate_monotonic_ok_iff costs checked_accumulate_of [OF w])
qed

theorem accumulate_exact_witness:
  "\<exists>w. checked_accumulate (sample_usage 3 2) (sample_usage 4 1) = Inr w \<and>
     usage_of w GraphSteps = 7 \<and> usage_of w FanOut = 4 \<and> spent w USD = 3 \<and>
     is_ok (validate_monotonic_after w (sample_usage 3 2))"
proof -
  obtain w where w: "checked_accumulate (sample_usage 3 2) (sample_usage 4 1) = Inr w"
    using sample_accumulate ..
  have "(\<forall>d. usage_of w d = (if high_water d then 4 else usage_of (sample_usage 3 2) d + usage_of (sample_usage 4 1) d)) \<and>
      spent w USD = 3 \<and> is_ok (validate_monotonic_after w (sample_usage 3 2))"
    using accumulate_exact [OF sample_usage_wf sample_usage_wf, of 3 2 4 1] w
    by (auto simp: sample_usage_cost sample_usage_of high_water_def)
  then show ?thesis using w by (auto simp: high_water_def sample_usage_of)
qed

text \<open>
  Subtracting a contribution that was accumulated gives the earlier usage back: every cumulative
  dimension and every currency returns to its earlier amount, the high-water marks stay, and the
  subtraction never fails or underflows.
\<close>

lemma accumulate_subtract_roundtrip:
  assumes "budget_usage_wf u" and "budget_usage_wf v" and "checked_accumulate u v = Inr w"
  shows "\<exists>r. checked_subtract_cumulative w v = Inr r \<and> budget_usage_wf r \<and>
    (\<forall>d. usage_of r d = (if high_water d then usage_of w d else usage_of u d)) \<and>
    (\<forall>c. spent r c = spent u c)"
proof -
  note w = checked_accumulate_of [OF assms(3)] checked_accumulate_wf [OF assms(3,1,2)]
  obtain r where r: "checked_subtract_cumulative w v = Inr r" "budget_usage_wf r"
      "\<And>c. spent r c = spent w c - spent v c"
  proof (rule checked_subtract_ok [of w v])
    show "usage_of v d \<le> usage_of w d" if "\<not> high_water d" for d
      using that usage_of_bounds [of u d] by (simp add: w(1))
    show "spent v c \<le> spent w c" for c by (simp add: w(3))
  qed (use assms(1,2) w(2) in \<open>auto simp: w(1) high_water_def budget_usage_wf_iff\<close>)
  then show ?thesis
    using checked_subtract_of [OF r(1)] by (intro exI [of _ r]) (simp add: w(1,3))
qed

lemma accumulate_subtract_roundtrip_witness:
  "\<exists>w r. checked_accumulate (sample_usage 3 2) (sample_usage 4 1) = Inr w \<and>
     checked_subtract_cumulative w (sample_usage 4 1) = Inr r \<and>
     usage_of r GraphSteps = 3 \<and> spent r USD = 2"
proof -
  obtain w where w: "checked_accumulate (sample_usage 3 2) (sample_usage 4 1) = Inr w"
    using sample_accumulate ..
  obtain r where "checked_subtract_cumulative w (sample_usage 4 1) = Inr r"
      "\<forall>d. usage_of r d = (if high_water d then usage_of w d else usage_of (sample_usage 3 2) d)"
      "\<forall>c. spent r c = spent (sample_usage 3 2) c"
    using accumulate_subtract_roundtrip [OF sample_usage_wf sample_usage_wf w] by blast
  then show ?thesis using w by (auto simp: high_water_def sample_usage_of sample_usage_cost)
qed

text \<open>
  C21. Evaluating a budget succeeds iff the clock is strictly before the deadline, no dimension
  exceeds its ceiling, every charge is in a listed currency within its ceiling, and no event is
  unpriced. The remaining capacity is exactly ceiling minus usage in every dimension and currency.
\<close>

theorem remaining_exact:
  assumes "resolved_budget_wf b" and "budget_usage_wf u"
  shows "(is_ok (remaining b u t) \<longleftrightarrow>
      t < rb_deadline b \<and> (\<forall>d. d \<noteq> Deadline \<longrightarrow> usage_of u d \<le> limit_of b d) \<and>
      costs_within (bu_known_costs u) (rb_costs b)) \<and>
    (\<forall>r. remaining b u t = Inr r \<longrightarrow> bm_deadline r = rb_deadline b \<and>
      (\<forall>d. d \<noteq> Deadline \<longrightarrow> remaining_of r d = limit_of b d - usage_of u d) \<and>
      (\<forall>c. (cost_limits_get (bm_costs r) c = None \<longleftrightarrow> cost_limits_get (rb_costs b) c = None) \<and>
        int (units_of (cost_limits_get (bm_costs r) c)) =
          int (units_of (cost_limits_get (rb_costs b) c)) - int (spent u c)))"
proof (intro conjI allI impI)
  have wf: "cost_limits_wf (rb_costs b)" "known_costs_wf (bu_known_costs u)"
    using assms by (simp_all add: resolved_budget_wf_def budget_usage_wf_def)
  show "is_ok (remaining b u t) \<longleftrightarrow>
      t < rb_deadline b \<and> (\<forall>d. d \<noteq> Deadline \<longrightarrow> usage_of u d \<le> limit_of b d) \<and>
      costs_within (bu_known_costs u) (rb_costs b)"
    by (rule remaining_ok_iff [OF wf(2)])
  fix r
  assume r: "remaining b u t = Inr r"
  show "bm_deadline r = rb_deadline b" using remaining_deadline [OF r] by simp
  show "remaining_of r d = limit_of b d - usage_of u d" if "d \<noteq> Deadline" for d
    using remaining_of_remaining [OF r] that by simp
  fix c
  show "cost_limits_get (bm_costs r) c = None \<longleftrightarrow> cost_limits_get (rb_costs b) c = None"
    by (rule remaining_currencies(1) [OF r assms])
  show "int (units_of (cost_limits_get (bm_costs r) c)) =
      int (units_of (cost_limits_get (rb_costs b) c)) - int (spent u c)"
    by (rule remaining_currencies(2) [OF r assms])
qed

theorem remaining_exact_witness:
  "is_ok (remaining (sample_budget 90 8 3) (sample_usage 3 2) (Timestamp 50)) \<and>
   \<not> is_ok (remaining (sample_budget 90 8 3) (sample_usage 3 2) (Timestamp 90)) \<and>
   \<not> is_ok (remaining (sample_budget 90 8 3) (sample_usage 3 4) (Timestamp 50))"
  using remaining_exact [OF sample_budget_wf sample_usage_wf, of 90 8 3 3 2 "Timestamp 50"]
    remaining_exact [OF sample_budget_wf sample_usage_wf, of 90 8 3 3 2 "Timestamp 90"]
    remaining_exact [OF sample_budget_wf sample_usage_wf, of 90 8 3 3 4 "Timestamp 50"]
  by (simp add: costs_within_def sample_usage_cost sample_budget_cost sample_usage_of
      sample_budget_limit sample_budget_deadline all_dimension_iff)

text \<open>
  Deducting further cumulative charges from an evaluated capacity is the same as evaluating the
  budget once with the accumulated usage: one succeeds iff the other does, with the same capacity.
\<close>

lemma deduct_stepwise:
  assumes "resolved_budget_wf b" and "budget_usage_wf u" and "budget_usage_wf v"
    and "checked_accumulate u (cumulative_only v) = Inr w"
    and "is_ok (remaining b u t)"
  shows "remaining b w t = Inr s \<longleftrightarrow> (\<exists>r. remaining b u t = Inr r \<and> deduct_cumulative r v = Inr s)"
proof -
  obtain r where r: "remaining b u t = Inr r" using assms(5) by (auto simp: is_ok_iff)
  have "budget_usage_wf (cumulative_only v)"
    using assms(3) by (simp add: budget_usage_wf_iff cumulative_only_of high_water_def)
  note wf = assms(2) this
  have costs: "cost_limits_wf (rb_costs b)" using assms(1) by (simp add: resolved_budget_wf_def)
  have ok: "is_ok (remaining b w t) \<longleftrightarrow> is_ok (deduct_cumulative r v)"
    by (rule deduct_same_verdict [OF assms(3) wf costs assms(4) r])
  have "remaining b w t = deduct_cumulative r v" if "is_ok (remaining b w t)"
    using that deduct_same_capacity [OF assms(3) wf costs assms(4) r] ok by (auto simp: is_ok_iff)
  then show ?thesis using ok r by (auto simp: is_ok_iff)
qed

lemma deduct_stepwise_witness:
  "\<exists>w. checked_accumulate (sample_usage 3 2) (cumulative_only (sample_usage 4 1)) = Inr w \<and>
     (\<forall>s. remaining (sample_budget 90 8 3) w (Timestamp 50) = Inr s \<longleftrightarrow>
       (\<exists>r. remaining (sample_budget 90 8 3) (sample_usage 3 2) (Timestamp 50) = Inr r \<and>
            deduct_cumulative r (sample_usage 4 1) = Inr s))"
proof -
  have "is_ok (remaining (sample_budget 90 8 3) (sample_usage 3 2) (Timestamp 50))"
    using remaining_ok_iff [of "sample_usage 3 2" "sample_budget 90 8 3" "Timestamp 50"] sample_usage_wf
    by (simp add: budget_usage_wf_def costs_within_def sample_usage_cost sample_budget_cost
        sample_usage_of sample_budget_limit sample_budget_deadline all_dimension_iff)
  moreover have "is_ok (checked_accumulate (sample_usage 3 2) (cumulative_only (sample_usage 4 1)))"
    using sample_accumulate checked_accumulate_ok_iff
    by (simp add: checked_accumulate_ok_iff cumulative_only_of is_ok_iff)
  ultimately show ?thesis
    using deduct_stepwise [OF sample_budget_wf sample_usage_wf sample_usage_wf]
    by (auto simp: is_ok_iff)
qed

end
