(* ===== verification/Reservation.thy ===== *)
theory Reservation
  imports BudgetUsage
begin

text \<open>
  \<open>crates/stateknot-core/src/budget_reservation.rs\<close>: cumulative reservations and the capacity check
  that admits work against accounted usage and all outstanding reservations.
\<close>

section \<open>Reservations\<close>

datatype reservation = CumulativeBudgetReservation (amount: budget_usage)

datatype reservation_error =
  HighWaterDimension budget_dimension
| ReservationUnpricedCost
| TooManyReservations
| ReservationUsage budget_usage_error
| ReservationCosts cost_collection_error
| Capacity budget_evaluation_error

definition MAX_RESERVATIONS :: nat where "MAX_RESERVATIONS = 256"

definition reservation_new :: "budget_usage \<Rightarrow> (reservation_error, reservation) result" where
  "reservation_new a =
     and_then (reject_first
       [(bu_graph_depth a \<noteq> execution_ZERO, HighWaterDimension GraphDepth),
        (bu_concurrent_branches a \<noteq> execution_ZERO, HighWaterDimension ConcurrentBranches),
        (bu_fan_out a \<noteq> execution_ZERO, HighWaterDimension FanOut),
        (bu_unpriced_cost_events a \<noteq> execution_ZERO, ReservationUnpricedCost)]) (\<lambda>_.
     Inr (CumulativeBudgetReservation a))"

text \<open>The builder starts from zero usage; each builder method sets one field.\<close>

definition from_budget :: "resolved_budget \<Rightarrow> (reservation_error, reservation) result" where
  "from_budget b =
     and_then (map_err ReservationCosts (known_costs_try_new (limit_iter (rb_costs b)))) (\<lambda>costs.
     and_then (map_err ReservationUsage (from_builder (usage_zero
       \<lparr>bu_graph_steps := rb_graph_steps b,
        bu_model_attempts := rb_model_attempts b,
        bu_model_turns := rb_model_turns b,
        bu_input_tokens := rb_input_tokens b,
        bu_cached_input_tokens := rb_cached_input_tokens b,
        bu_reasoning_tokens := rb_reasoning_tokens b,
        bu_output_tokens := rb_output_tokens b,
        bu_tool_calls := rb_tool_calls b,
        bu_write_calls := rb_write_calls b,
        bu_remote_agent_delegations := rb_remote_agent_delegations b,
        bu_retries := rb_retries b,
        bu_input_bytes := rb_input_bytes b,
        bu_output_bytes := rb_output_bytes b,
        bu_event_bytes := rb_event_bytes b,
        bu_checkpoint_bytes := rb_checkpoint_bytes b,
        bu_artifact_bytes := rb_artifact_bytes b,
        bu_known_costs := costs\<rparr>))) reservation_new)"

definition project_step ::
  "budget_usage \<Rightarrow> reservation \<Rightarrow> (reservation_error, budget_usage) result" where
  "project_step projected r = map_err ReservationUsage (checked_accumulate projected (amount r))"

definition check_capacity ::
  "resolved_budget \<Rightarrow> budget_usage \<Rightarrow> reservation list \<Rightarrow> timestamp \<Rightarrow>
     (reservation_error, budget_remaining) result" where
  "check_capacity parent accounted outstanding observed_at =
     and_then (reject_if (length outstanding > MAX_RESERVATIONS) TooManyReservations) (\<lambda>_.
     and_then (try_fold project_step accounted outstanding) (\<lambda>projected.
     map_err Capacity (remaining parent projected observed_at)))"

definition reservation_from_wire :: "budget_usage \<Rightarrow> (reservation_error, reservation) result" where
  "reservation_from_wire w = reservation_new w"

section \<open>Well-formed reservations\<close>

definition reservation_wf :: "reservation \<Rightarrow> bool" where
  "reservation_wf r \<longleftrightarrow> budget_usage_wf (amount r) \<and> is_ok (reservation_new (amount r))"

lemma reservation_new_Inr_iff:
  "reservation_new a = Inr r \<longleftrightarrow>
     r = CumulativeBudgetReservation a \<and> (\<forall>d. high_water d \<or> d = Costs \<longrightarrow> usage_of a d = 0)"
  unfolding all_dimension_iff
  by (auto simp: reservation_new_def result_simps high_water_def dimension_simps ec.amount_eq_iff
      ec.amount_zero)

lemma reservation_wf_iff:
  "reservation_wf r \<longleftrightarrow>
     budget_usage_wf (amount r) \<and> (\<forall>d. high_water d \<or> d = Costs \<longrightarrow> usage_of (amount r) d = 0)"
  by (auto simp: reservation_wf_def is_ok_iff reservation_new_Inr_iff)

section \<open>Projected usage\<close>

lemma project_step_Inr_iff [result_simps]:
  "project_step u r = Inr w \<longleftrightarrow> checked_accumulate u (amount r) = Inr w"
  by (simp add: project_step_def result_simps)

text \<open>The exact totals of accounted usage and reservations, over the natural numbers.\<close>

definition total_of :: "budget_usage \<Rightarrow> reservation list \<Rightarrow> budget_dimension \<Rightarrow> int" where
  "total_of u rs d = usage_of u d + (\<Sum>r\<leftarrow>rs. usage_of (amount r) d)"

definition total_spent :: "budget_usage \<Rightarrow> reservation list \<Rightarrow> currency_code \<Rightarrow> nat" where
  "total_spent u rs c = spent u c + (\<Sum>r\<leftarrow>rs. spent (amount r) c)"

definition total_charged :: "budget_usage \<Rightarrow> reservation list \<Rightarrow> currency_code set" where
  "total_charged u rs = charged (bu_known_costs u) \<union> (\<Union>r\<in>set rs. charged (bu_known_costs (amount r)))"

lemma totals_Nil [simp]:
  "total_of u [] d = usage_of u d" "total_spent u [] c = spent u c"
  "total_charged u [] = charged (bu_known_costs u)"
  by (simp_all add: total_of_def total_spent_def total_charged_def)

lemma charged_iff: "known_costs_wf k \<Longrightarrow> c \<in> charged k \<longleftrightarrow> known_costs_get k c \<noteq> None"
  by (simp only: charged_def kc.get_None_iff) simp

lemma totals_step:
  assumes "checked_accumulate u (amount r) = Inr w" and "budget_usage_wf u" and "reservation_wf r"
  shows "total_of w rs d = total_of u (r # rs) d" "total_spent w rs c = total_spent u (r # rs) c"
    "total_charged w rs = total_charged u (r # rs)"
proof -
  have r: "budget_usage_wf (amount r)" "high_water d \<Longrightarrow> usage_of (amount r) d = 0"
    using assms(3) by (auto simp: reservation_wf_iff)
  note w = checked_accumulate_wf [OF assms(1,2) r(1)]
  show "total_of w rs d = total_of u (r # rs) d"
    using r(2) usage_of_bounds [of u d] by (simp add: total_of_def checked_accumulate_of [OF assms(1)])
  show "total_spent w rs c = total_spent u (r # rs) c"
    by (simp add: total_spent_def w(2))
  have "charged (bu_known_costs w) = charged (bu_known_costs u) \<union> charged (bu_known_costs (amount r))"
    using w assms(2) r(1) by (auto simp: charged_iff budget_usage_wf_def)
  then show "total_charged w rs = total_charged u (r # rs)"
    by (auto simp: total_charged_def)
qed

lemma projected:
  assumes "try_fold project_step u rs = Inr w" and "budget_usage_wf u" and "list_all reservation_wf rs"
  shows "budget_usage_wf w \<and> (\<forall>d. usage_of w d = total_of u rs d) \<and>
    (\<forall>c. spent w c = total_spent u rs c) \<and> charged (bu_known_costs w) = total_charged u rs"
  using assms
proof (induction rs arbitrary: u)
  case (Cons r rs)
  then obtain x where x: "checked_accumulate u (amount r) = Inr x" "try_fold project_step x rs = Inr w"
    by (auto simp: result_simps)
  have "budget_usage_wf x"
    using checked_accumulate_wf(1) [OF x(1)] Cons.prems by (simp add: reservation_wf_def)
  then show ?case
    using Cons.IH [OF x(2)] Cons.prems totals_step [OF x(1)] by simp
qed simp

lemma reserved_nonneg: "0 \<le> (\<Sum>r\<leftarrow>rs. usage_of (amount r) d)"
  by (rule sum_list_nonneg) (auto simp: usage_of_bounds)

lemma total_step_le:
  "total_of u [r] d \<le> total_of u (r # rs) d" "total_spent u [r] c \<le> total_spent u (r # rs) c"
  "total_charged u [r] \<subseteq> total_charged u (r # rs)"
  by (auto simp: total_of_def total_spent_def total_charged_def reserved_nonneg)

lemma finite_total_charged [simp]: "finite (total_charged u rs)"
  by (simp add: total_charged_def charged_def)

lemma projected_ok:
  assumes "budget_usage_wf u" and "list_all reservation_wf rs"
    and "\<And>d. \<not> high_water d \<Longrightarrow> total_of u rs d < 2 ^ 64" and "\<And>c. total_spent u rs c < 2 ^ 64"
    and "card (total_charged u rs) \<le> MAX_COST_CURRENCIES"
  shows "\<exists>w. try_fold project_step u rs = Inr w"
  using assms
proof (induction rs arbitrary: u)
  case (Cons r rs)
  have r: "reservation_wf r" "budget_usage_wf (amount r)"
    using Cons.prems(2) by (simp_all add: reservation_wf_def)
  have "is_ok (known_costs_checked_accumulate (bu_known_costs u) (bu_known_costs (amount r)))"
  proof -
    have "spent u c + spent (amount r) c < 2 ^ 64" for c
      using Cons.prems(4) [of c] total_step_le(2) [of u r c rs] by (simp add: total_spent_def)
    moreover have "card (charged (bu_known_costs u) \<union> charged (bu_known_costs (amount r))) \<le>
        card (total_charged u (r # rs))"
      by (rule card_mono [OF finite_total_charged]) (auto simp: total_charged_def)
    ultimately show ?thesis
      using Cons.prems(1,5) r(2) by (simp add: known_costs_accumulate_ok_iff budget_usage_wf_def)
  qed
  moreover have "usage_of u d + usage_of (amount r) d < 2 ^ 64" if "\<not> high_water d" for d
    using Cons.prems(3) [OF that] reserved_nonneg [where rs = rs and d = d] by (simp add: total_of_def)
  ultimately have "is_ok (checked_accumulate u (amount r))"
    unfolding checked_accumulate_ok_iff by blast
  then obtain x where x: "checked_accumulate u (amount r) = Inr x" by (auto simp: is_ok_iff)
  note step = totals_step [OF x Cons.prems(1) r(1)]
  have "\<exists>w. try_fold project_step x rs = Inr w"
    using Cons.prems checked_accumulate_wf(1) [OF x Cons.prems(1) r(2)]
    by (intro Cons.IH) (simp_all add: step)
  moreover have "project_step u r = Inr x" using x by (simp add: result_simps)
  ultimately show ?case by simp
qed simp

section \<open>Capacity\<close>

text \<open>Every charged currency is listed and the total charged in it is within the ceiling.\<close>

definition spending_within :: "(currency_code \<Rightarrow> nat) \<Rightarrow> currency_code set \<Rightarrow> cost_limits \<Rightarrow> bool" where
  "spending_within f C l \<longleftrightarrow>
     (\<forall>c\<in>C. \<exists>n. cost_limits_get l c = Some n \<and> f c \<le> unat (micro_units n))"

lemma costs_within_iff:
  "known_costs_wf k \<Longrightarrow>
     costs_within k l \<longleftrightarrow> spending_within (\<lambda>c. units_of (known_costs_get k c)) (charged k) l"
  unfolding costs_within_def spending_within_def Ball_def
  by (simp only: charged_iff) (auto simp: word_le_nat)

lemma spending_within_card:
  assumes "spending_within f C l" and "cost_limits_wf l"
  shows "card C \<le> MAX_COST_CURRENCIES"
proof -
  have "C \<subseteq> currency ` set (limit_iter l)"
    using assms by (auto simp: spending_within_def cl.get_Some_iff)
  then have "card C \<le> card (currency ` set (limit_iter l))" by (intro card_mono) simp_all
  also have "\<dots> \<le> length (limit_iter l)" by (metis card_length length_map list.set_map)
  also have "\<dots> \<le> MAX_COST_CURRENCIES" using assms(2) by (rule cl.bounded)
  finally show ?thesis .
qed

lemma limit_of_bound: "d \<noteq> Deadline \<Longrightarrow> limit_of b d < 2 ^ 64"
  using u64_bound by (cases d; simp add: dimension_simps)

lemma total_spent_absent:
  assumes "budget_usage_wf u" and "list_all reservation_wf rs" and "c \<notin> total_charged u rs"
  shows "total_spent u rs c = 0"
proof -
  have "spent v c = 0" if "budget_usage_wf v" "c \<notin> charged (bu_known_costs v)" for v
    using that charged_iff [of "bu_known_costs v" c] by (simp add: budget_usage_wf_def)
  then show ?thesis
    using assms by (auto simp: total_spent_def total_charged_def list_all_iff reservation_wf_def)
qed

lemma check_capacity_ok_iff:
  assumes "resolved_budget_wf p" and "budget_usage_wf u" and "list_all reservation_wf rs"
  shows "is_ok (check_capacity p u rs t) \<longleftrightarrow>
    length rs \<le> MAX_RESERVATIONS \<and> t < rb_deadline p \<and>
    (\<forall>d. d \<noteq> Deadline \<longrightarrow> total_of u rs d \<le> limit_of p d) \<and>
    spending_within (total_spent u rs) (total_charged u rs) (rb_costs p)"
    (is "_ \<longleftrightarrow> ?fits")
proof -
  have ok: "is_ok (check_capacity p u rs t) \<longleftrightarrow> length rs \<le> MAX_RESERVATIONS \<and>
      (\<exists>w. try_fold project_step u rs = Inr w \<and> is_ok (remaining p w t))"
    by (simp add: check_capacity_def ok_simps reject_if_Inr_iff not_less)
  have eval: "is_ok (remaining p w t) \<longleftrightarrow> t < rb_deadline p \<and>
      (\<forall>d. d \<noteq> Deadline \<longrightarrow> total_of u rs d \<le> limit_of p d) \<and>
      spending_within (total_spent u rs) (total_charged u rs) (rb_costs p)"
    if "try_fold project_step u rs = Inr w" for w
    using projected [OF that assms(2,3)]
    by (simp add: remaining_ok_iff budget_usage_wf_def costs_within_iff)
  have "\<exists>w. try_fold project_step u rs = Inr w" if ?fits
  proof (rule projected_ok [OF assms(2,3)])
    show "total_of u rs d < 2 ^ 64" if "\<not> high_water d" for d
    proof (cases "d = Deadline")
      case True
      then show ?thesis by (simp add: total_of_def dimension_simps sum_list_0)
    next
      case False
      with \<open>?fits\<close> limit_of_bound [of d p] show ?thesis by fastforce
    qed
    show "total_spent u rs c < 2 ^ 64" for c
    proof (cases "c \<in> total_charged u rs")
      case True
      with \<open>?fits\<close> obtain n :: money where "total_spent u rs c \<le> unat (micro_units n)"
        by (auto simp: spending_within_def)
      with unat_bound [of "micro_units n"] show ?thesis by simp
    next
      case False
      then show ?thesis using total_spent_absent [OF assms(2,3)] by simp
    qed
    show "card (total_charged u rs) \<le> MAX_COST_CURRENCIES"
      using \<open>?fits\<close> spending_within_card assms(1) by (auto simp: resolved_budget_wf_def)
  qed
  with ok eval show ?thesis by blast
qed

lemma from_budget_Inr:
  assumes "resolved_budget_wf b"
  obtains r where "from_budget b = Inr r" and "reservation_wf r"
    and "\<And>d. d \<noteq> Deadline \<Longrightarrow>
      usage_of (amount r) d = (if high_water d then 0 else limit_of b d)"
    and "\<And>c. known_costs_get (bu_known_costs (amount r)) c = cost_limits_get (rb_costs b) c"
proof -
  have wf: "slice_wf (limit_iter (rb_costs b))"
    using assms by (simp add: resolved_budget_wf_def cost_limits_wf_def)
  have costs: "known_costs_try_new (limit_iter (rb_costs b)) = Inr (KnownCosts (limit_iter (rb_costs b)))"
    by (simp add: known_costs_try_new_def collect_costs_slice [OF wf])
  have subsets: "rb_cached_input_tokens b \<le> rb_input_tokens b" "rb_reasoning_tokens b \<le> rb_output_tokens b"
      "rb_write_calls b \<le> rb_tool_calls b"
    using assms by (simp_all add: resolved_budget_wf_def resolved_validate_def ok_simps not_less)
  then obtain r where r: "from_budget b = Inr r"
    by (simp add: from_budget_def costs from_builder_def check_subsets_def reject_first.simps
        not_less [symmetric] reservation_new_def usage_zero_def)
  have of: "usage_of (amount r) d = (if high_water d then 0 else limit_of b d)" if "d \<noteq> Deadline" for d
    using r that
    by (cases d) (auto simp: from_budget_def costs from_builder_def result_simps
        reservation_new_Inr_iff usage_zero_def high_water_def dimension_simps amount_simps)
  have known: "bu_known_costs (amount r) = KnownCosts (limit_iter (rb_costs b))"
    using r by (auto simp: from_budget_def costs from_builder_def result_simps reservation_new_Inr_iff)
  have "reservation_wf r"
    using wf subsets
    by (auto simp: reservation_wf_iff budget_usage_wf_iff of known known_costs_wf_def high_water_def
        limit_of.simps amount_simps)
  moreover have "known_costs_get (bu_known_costs (amount r)) c = cost_limits_get (rb_costs b) c" for c
    by (simp add: known known_costs_get_def cost_limits_get_def)
  ultimately show ?thesis using r of that by blast
qed

lemma limit_of_nonneg: "d \<noteq> Deadline \<Longrightarrow> 0 \<le> limit_of b d"
  by (cases d) (simp_all add: dimension_simps)

lemma usage_zero_costs: "bu_known_costs usage_zero = KnownCosts []"
  by (simp add: usage_zero_def known_costs_empty_def)

lemma sample_reservation: "reservation_wf (CumulativeBudgetReservation (cumulative_only (sample_usage n m)))"
  using sample_usage_wf [of n m]
  by (auto simp: reservation_wf_iff budget_usage_wf_iff cumulative_only_of high_water_def sample_usage_of)

section \<open>What the capacity check guarantees\<close>

text \<open>
  C5. The capacity check admits accounted usage and outstanding reservations iff there are at most 256
  of them, the deadline is in the future, and the exact totals, which cannot wrap, are within every
  ceiling: no dimension and no currency is ever over-committed, and nothing that fits is refused.
  What it returns is exactly the ceiling minus the total, in every dimension and in every currency the
  budget lists.
\<close>

theorem capacity_exact:
  assumes "resolved_budget_wf p" and "budget_usage_wf u" and "list_all reservation_wf rs"
  shows "(is_ok (check_capacity p u rs t) \<longleftrightarrow>
      length rs \<le> MAX_RESERVATIONS \<and> t < rb_deadline p \<and>
      (\<forall>d. d \<noteq> Deadline \<longrightarrow> total_of u rs d \<le> limit_of p d) \<and>
      spending_within (total_spent u rs) (total_charged u rs) (rb_costs p)) \<and>
    (\<forall>r. check_capacity p u rs t = Inr r \<longrightarrow> bm_deadline r = rb_deadline p \<and>
      (\<forall>d. d \<noteq> Deadline \<longrightarrow> remaining_of r d = limit_of p d - total_of u rs d) \<and>
      (\<forall>c. (cost_limits_get (bm_costs r) c = None \<longleftrightarrow> cost_limits_get (rb_costs p) c = None) \<and>
        int (units_of (cost_limits_get (bm_costs r) c)) =
          int (units_of (cost_limits_get (rb_costs p) c)) - int (total_spent u rs c)))"
proof (intro conjI allI impI)
  show "is_ok (check_capacity p u rs t) \<longleftrightarrow>
      length rs \<le> MAX_RESERVATIONS \<and> t < rb_deadline p \<and>
      (\<forall>d. d \<noteq> Deadline \<longrightarrow> total_of u rs d \<le> limit_of p d) \<and>
      spending_within (total_spent u rs) (total_charged u rs) (rb_costs p)"
    by (rule check_capacity_ok_iff [OF assms])
  fix r
  assume "check_capacity p u rs t = Inr r"
  then obtain w where w: "try_fold project_step u rs = Inr w" and r: "remaining p w t = Inr r"
    by (auto simp: check_capacity_def result_simps)
  note total = projected [OF w assms(2,3)]
  show "bm_deadline r = rb_deadline p" using remaining_deadline [OF r] by simp
  show "remaining_of r d = limit_of p d - total_of u rs d" if "d \<noteq> Deadline" for d
    using total remaining_of_remaining [OF r] that by simp
  fix c
  show "cost_limits_get (bm_costs r) c = None \<longleftrightarrow> cost_limits_get (rb_costs p) c = None"
    using total remaining_currencies(1) [OF r assms(1)] by blast
  show "int (units_of (cost_limits_get (bm_costs r) c)) =
      int (units_of (cost_limits_get (rb_costs p) c)) - int (total_spent u rs c)"
    using total remaining_currencies(2) [OF r assms(1)] by metis
qed

theorem capacity_exact_witness:
  "(\<exists>r. check_capacity (sample_budget 90 8 3) (sample_usage 3 2)
     [CumulativeBudgetReservation (cumulative_only (sample_usage 5 1))] (Timestamp 50) = Inr r \<and>
     units_of (cost_limits_get (bm_costs r) USD) = 0) \<and>
   \<not> is_ok (check_capacity (sample_budget 90 8 3) (sample_usage 3 2)
     [CumulativeBudgetReservation (cumulative_only (sample_usage 5 1)),
      CumulativeBudgetReservation (cumulative_only (sample_usage 1 0))] (Timestamp 50))"
proof -
  let ?r = "CumulativeBudgetReservation (cumulative_only (sample_usage 5 1))"
  let ?s = "CumulativeBudgetReservation (cumulative_only (sample_usage 1 0))"
  have "total_of (sample_usage 3 2) [?r, ?s] GraphSteps = 9" "limit_of (sample_budget 90 8 3) GraphSteps = 8"
    by (simp_all add: total_of_def cumulative_only_of sample_usage_of sample_budget_limit high_water_def)
  then have "\<not> (\<forall>d. d \<noteq> Deadline \<longrightarrow>
      total_of (sample_usage 3 2) [?r, ?s] d \<le> limit_of (sample_budget 90 8 3) d)"
    by (intro notI) (auto dest: spec [of _ GraphSteps])
  moreover have "is_ok (check_capacity (sample_budget 90 8 3) (sample_usage 3 2) [?r] (Timestamp 50))"
    using capacity_exact [OF sample_budget_wf sample_usage_wf, of "[?r]" 90 8 3 3 2 "Timestamp 50"]
    by (simp add: sample_reservation MAX_RESERVATIONS_def sample_budget_deadline spending_within_def
        total_of_def total_spent_def total_charged_def cumulative_only_of sample_usage_of
        sample_budget_limit sample_usage_cost sample_budget_cost high_water_def all_dimension_iff)
  then obtain r where r: "check_capacity (sample_budget 90 8 3) (sample_usage 3 2) [?r] (Timestamp 50) = Inr r"
    by (auto simp: is_ok_iff)
  moreover have "int (units_of (cost_limits_get (bm_costs r) USD)) =
      int (units_of (cost_limits_get (rb_costs (sample_budget 90 8 3)) USD)) - int (total_spent (sample_usage 3 2) [?r] USD)"
    using capacity_exact [OF sample_budget_wf sample_usage_wf, of "[?r]" 90 8 3 3 2 "Timestamp 50"] r
    by (simp add: sample_reservation)
  then have "units_of (cost_limits_get (bm_costs r) USD) = 0"
    by (simp add: total_spent_def sample_usage_cost sample_budget_cost)
  ultimately show ?thesis
    using capacity_exact [OF sample_budget_wf sample_usage_wf, of "[?r, ?s]" 90 8 3 3 2 "Timestamp 50"]
    by (simp add: sample_reservation MAX_RESERVATIONS_def sample_budget_deadline spending_within_def
        total_of_def total_spent_def total_charged_def cumulative_only_of sample_usage_of
        sample_budget_limit sample_usage_cost sample_budget_cost high_water_def all_dimension_iff)
qed

text \<open>
  A delegated budget that passes the narrowing check can always be reserved in full from its
  parent while nothing else is accounted or reserved: its reservation exists and the parent's capacity
  check accepts it at every time before the parent's deadline.
\<close>

lemma narrowed_budget_is_reservable:
  assumes "resolved_budget_wf p" and "resolved_budget_wf b"
    and "is_ok (validate_narrowing b p)" and "t < rb_deadline p"
  shows "\<exists>r. from_budget b = Inr r \<and> is_ok (check_capacity p usage_zero [r] t)"
proof -
  have narrow: "narrower b p"
    using assms(2,3) by (simp add: validate_narrowing_ok_iff resolved_budget_wf_def)
  obtain r where r: "from_budget b = Inr r" "reservation_wf r"
      "\<And>d. d \<noteq> Deadline \<Longrightarrow> usage_of (amount r) d = (if high_water d then 0 else limit_of b d)"
      "\<And>c. known_costs_get (bu_known_costs (amount r)) c = cost_limits_get (rb_costs b) c"
    using from_budget_Inr [OF assms(2)] by blast
  have zero: "budget_usage_wf usage_zero" "spent usage_zero c = 0" "charged (bu_known_costs usage_zero) = {}"
    for c by (simp_all add: budget_usage_wf_iff usage_zero_costs known_costs_wf_def slice_wf_def
        known_costs_get_def slice_get_def binary_search_def charged_def)
  have wf: "known_costs_wf (bu_known_costs (amount r))"
    using r(2) by (simp add: reservation_wf_def budget_usage_wf_def)
  have "total_of usage_zero [r] d \<le> limit_of p d" if "d \<noteq> Deadline" for d
    using narrow that limit_of_nonneg [OF that, of p] by (auto simp: total_of_def r(3) narrower_def)
  moreover have "spending_within (total_spent usage_zero [r]) (total_charged usage_zero [r]) (rb_costs p)"
    using narrow
    by (auto simp: spending_within_def total_spent_def total_charged_def zero charged_iff [OF wf] r(4)
        narrower_def cost_narrower_def word_le_nat)
  ultimately show ?thesis
    using check_capacity_ok_iff [OF assms(1) zero(1), of "[r]" t] assms(4) r(1,2)
    by (simp add: MAX_RESERVATIONS_def)
qed

lemma narrowed_budget_is_reservable_witness:
  "\<exists>r. from_budget (sample_budget 70 8 2) = Inr r \<and>
     is_ok (check_capacity (sample_budget 90 8 3) usage_zero [r] (Timestamp 50))"
proof -
  have "is_ok (validate_narrowing (sample_budget 70 8 2) (sample_budget 90 8 3))"
    using sample_budget_wf
    by (simp add: validate_narrowing_ok_iff resolved_budget_wf_def narrower_def cost_narrower_def
        sample_budget_cost sample_budget_limit all_dimension_iff)
  then show ?thesis
    by (intro narrowed_budget_is_reservable) (simp_all add: sample_budget_wf sample_budget_deadline)
qed

end
