(* ===== verification/Ids.thy ===== *)
theory Ids
  imports Prelude "HOL-Library.Char_ord" "HOL-Library.List_Lexorder"
begin

text \<open>
  \<open>crates/stateknot-core/src/ids.rs\<close>: tenant and scheduler-shard identifiers, submission keys, and the
  generated identifiers the other components carry. Text is a list of bytes. A generated identifier
  wraps a UUID of 128 bits; reading and writing its text belongs to the \<open>uuid\<close> crate.
\<close>

section \<open>ASCII classes\<close>

definition byte_of :: "char \<Rightarrow> nat" where "byte_of c = of_char c"

definition is_ascii_lowercase :: "char \<Rightarrow> bool" where
  "is_ascii_lowercase c \<longleftrightarrow> 97 \<le> byte_of c \<and> byte_of c \<le> 122"

definition is_ascii_uppercase_char :: "char \<Rightarrow> bool" where
  "is_ascii_uppercase_char c \<longleftrightarrow> 65 \<le> byte_of c \<and> byte_of c \<le> 90"

definition is_ascii_digit_char :: "char \<Rightarrow> bool" where
  "is_ascii_digit_char c \<longleftrightarrow> 48 \<le> byte_of c \<and> byte_of c \<le> 57"

definition is_ascii_alphanumeric :: "char \<Rightarrow> bool" where
  "is_ascii_alphanumeric c \<longleftrightarrow>
     is_ascii_lowercase c \<or> is_ascii_uppercase_char c \<or> is_ascii_digit_char c"

section \<open>Tenants and scheduler shards\<close>

datatype tenant_id = TenantId (tenant_str: string)
datatype scheduler_shard_id = SchedulerShardId (shard_str: string)

instantiation tenant_id :: linorder
begin

definition less_eq_tenant_id :: "tenant_id \<Rightarrow> tenant_id \<Rightarrow> bool" where
  "less_eq_tenant_id s t \<longleftrightarrow> tenant_str s \<le> tenant_str t"

definition less_tenant_id :: "tenant_id \<Rightarrow> tenant_id \<Rightarrow> bool" where
  "less_tenant_id s t \<longleftrightarrow> tenant_str s < tenant_str t"

instance
  by standard (auto simp: less_eq_tenant_id_def less_tenant_id_def tenant_id.expand)

end

datatype tenant_id_error =
  TenantEmpty
| TenantTooLong nat nat
| TenantPathLike
| TenantInvalidByte nat

definition tenant_byte :: "char \<Rightarrow> bool" where
  "tenant_byte c \<longleftrightarrow>
     is_ascii_alphanumeric c \<or> c \<in> {CHR ''.'', CHR ''_'', CHR '':'', CHR ''-''}"

definition TENANT_MAX_LEN :: nat where "TENANT_MAX_LEN = 128"

definition validate_tenant_id :: "string \<Rightarrow> (tenant_id_error, unit) result" where
  "validate_tenant_id v =
     and_then (reject_if (v = []) TenantEmpty) (\<lambda>_.
     and_then (reject_if (length v > TENANT_MAX_LEN) (TenantTooLong TENANT_MAX_LEN (length v))) (\<lambda>_.
     and_then (reject_if (v = ''.'' \<or> v = ''..'') TenantPathLike) (\<lambda>_.
     (case position (\<lambda>c. \<not> tenant_byte c) v of
        Some index \<Rightarrow> Inl (TenantInvalidByte index)
      | None \<Rightarrow> Inr ()))))"

definition tenant_new :: "string \<Rightarrow> (tenant_id_error, tenant_id) result" where
  "tenant_new v = and_then (validate_tenant_id v) (\<lambda>_. Inr (TenantId v))"

datatype scheduler_shard_id_error =
  ShardEmpty
| ShardTooLong nat nat
| ShardPathLike
| ShardInvalidByte nat

definition shard_byte :: "char \<Rightarrow> bool" where
  "shard_byte c \<longleftrightarrow>
     is_ascii_alphanumeric c \<or> c \<in> {CHR ''.'', CHR ''_'', CHR '':'', CHR ''-''}"

definition SHARD_MAX_LEN :: nat where "SHARD_MAX_LEN = 128"

definition validate_scheduler_shard_id :: "string \<Rightarrow> (scheduler_shard_id_error, unit) result" where
  "validate_scheduler_shard_id v =
     and_then (reject_if (v = []) ShardEmpty) (\<lambda>_.
     and_then (reject_if (length v > SHARD_MAX_LEN) (ShardTooLong SHARD_MAX_LEN (length v))) (\<lambda>_.
     and_then (reject_if (v = ''.'' \<or> v = ''..'') ShardPathLike) (\<lambda>_.
     (case position (\<lambda>c. \<not> shard_byte c) v of
        Some index \<Rightarrow> Inl (ShardInvalidByte index)
      | None \<Rightarrow> Inr ()))))"

definition shard_new :: "string \<Rightarrow> (scheduler_shard_id_error, scheduler_shard_id) result" where
  "shard_new v = and_then (validate_scheduler_shard_id v) (\<lambda>_. Inr (SchedulerShardId v))"

section \<open>Submission keys\<close>

datatype agent_submission_key = AgentSubmissionKey (key_str: string)

datatype agent_submission_key_error =
  KeyTooShort nat nat
| KeyTooLong nat nat
| KeyInvalidByte nat

definition submission_key_byte :: "char \<Rightarrow> bool" where
  "submission_key_byte c \<longleftrightarrow>
     is_ascii_alphanumeric c \<or> c \<in> {CHR ''.'', CHR ''_'', CHR 0x7E, CHR ''-''}"

definition KEY_MIN_LEN :: nat where "KEY_MIN_LEN = 16"
definition KEY_MAX_LEN :: nat where "KEY_MAX_LEN = 128"

definition validate_agent_submission_key :: "string \<Rightarrow> (agent_submission_key_error, unit) result" where
  "validate_agent_submission_key v =
     and_then (reject_if (length v < KEY_MIN_LEN) (KeyTooShort KEY_MIN_LEN (length v))) (\<lambda>_.
     and_then (reject_if (length v > KEY_MAX_LEN) (KeyTooLong KEY_MAX_LEN (length v))) (\<lambda>_.
     (case position (\<lambda>c. \<not> submission_key_byte c) v of
        Some index \<Rightarrow> Inl (KeyInvalidByte index)
      | None \<Rightarrow> Inr ())))"

definition submission_key_new :: "string \<Rightarrow> (agent_submission_key_error, agent_submission_key) result" where
  "submission_key_new v = and_then (validate_agent_submission_key v) (\<lambda>_. Inr (AgentSubmissionKey v))"

text \<open>
  The bytes that \<open>digest_for\<close> hashes. The hash function is the one of the \<open>sha2\<close> crate, a parameter.
\<close>

definition submission_DOMAIN :: string where
  "submission_DOMAIN = ''stateknot.agent-submission-key.v1'' @ [CHR 0x00]"

definition submission_preimage :: "agent_submission_key \<Rightarrow> tenant_id \<Rightarrow> string" where
  "submission_preimage k t = submission_DOMAIN @ tenant_str t @ [CHR 0x00] @ key_str k"

definition digest_for :: "(string \<Rightarrow> 'd) \<Rightarrow> agent_submission_key \<Rightarrow> tenant_id \<Rightarrow> 'd" where
  "digest_for sha256 k t = sha256 (submission_preimage k t)"

section \<open>Generated identifiers\<close>

type_synonym uuid = "128 word"

datatype run_id = RunId (run_uuid: uuid)
datatype thread_id = ThreadId (thread_uuid: uuid)
datatype invocation_id = InvocationId (invocation_uuid: uuid)
datatype attempt_id = AttemptId (attempt_uuid: uuid)
datatype interrupt_id = InterruptId (interrupt_uuid: uuid)
datatype timer_id = TimerId (timer_uuid: uuid)
datatype failure_id = FailureId (failure_uuid: uuid)
datatype event_id = EventId (event_uuid: uuid)

datatype scheduler_reservation_id = SchedulerReservationId (reservation_uuid: uuid)

text \<open>
  The variant, the version, the parser and the hyphenated printer of a UUID are those of the \<open>uuid\<close>
  crate, parameters here.
\<close>

datatype generated_id_error = InvalidUuid | NonCanonical | WrongVersion | WrongVariant

definition validate_generated_uuid ::
  "(uuid \<Rightarrow> bool) \<Rightarrow> (uuid \<Rightarrow> bool) \<Rightarrow> uuid \<Rightarrow> (generated_id_error, uuid) result" where
  "validate_generated_uuid rfc4122 sort_rand u =
     and_then (reject_if (\<not> rfc4122 u) WrongVariant) (\<lambda>_.
     and_then (reject_if (\<not> sort_rand u) WrongVersion) (\<lambda>_. Inr u))"

definition parse_generated_uuid ::
  "(string \<Rightarrow> uuid option) \<Rightarrow> (uuid \<Rightarrow> string) \<Rightarrow> (uuid \<Rightarrow> bool) \<Rightarrow> (uuid \<Rightarrow> bool) \<Rightarrow> string \<Rightarrow>
     (generated_id_error, uuid) result" where
  "parse_generated_uuid parse_str hyphenated rfc4122 sort_rand s =
     and_then (ok_or (parse_str s) InvalidUuid) (\<lambda>parsed.
     and_then (reject_if (hyphenated parsed \<noteq> s) NonCanonical) (\<lambda>_.
     validate_generated_uuid rfc4122 sort_rand parsed))"

section \<open>Grammars\<close>

lemma validate_generated_uuid_iff [simp]:
  "validate_generated_uuid rfc4122 sort_rand u = Inr v \<longleftrightarrow> rfc4122 u \<and> sort_rand u \<and> v = u"
  by (auto simp: validate_generated_uuid_def result_simps)

lemma tenant_new_iff:
  "tenant_new v = Inr t \<longleftrightarrow>
     t = TenantId v \<and> v \<noteq> [] \<and> length v \<le> TENANT_MAX_LEN \<and> v \<notin> {''.'', ''..''} \<and> list_all tenant_byte v"
  by (auto simp: tenant_new_def validate_tenant_id_def result_simps not_less)

lemma submission_key_new_iff:
  "submission_key_new v = Inr k \<longleftrightarrow>
     k = AgentSubmissionKey v \<and> KEY_MIN_LEN \<le> length v \<and> length v \<le> KEY_MAX_LEN \<and>
     list_all submission_key_byte v"
  by (auto simp: submission_key_new_def validate_agent_submission_key_def result_simps not_less)

lemma tenant_byte_not_nul: "\<not> tenant_byte (CHR 0x00)"
  by code_simp

text \<open>Two texts without the delimiter are recovered from their delimited concatenation.\<close>

lemma delimited_inject:
  assumes "d \<notin> set xs" and "d \<notin> set us"
  shows "xs @ d # ys = us @ d # vs \<longleftrightarrow> xs = us \<and> ys = vs"
  using assms
proof (induction xs arbitrary: us)
  case Nil
  then show ?case by (cases us) auto
next
  case (Cons x xs)
  then show ?case by (cases us) auto
qed

text \<open>
  The bytes hashed for a submission key determine both the tenant and the key: for accepted tenants,
  equal preimages mean the same tenant and the same key, so no choice of key in one tenant can produce
  the preimage of another tenant's key.
\<close>

lemma submission_preimage_unambiguous:
  assumes "tenant_new s = Inr t" and "tenant_new s' = Inr t'"
  shows "submission_preimage k t = submission_preimage k' t' \<longleftrightarrow> t = t' \<and> k = k'"
proof -
  have "CHR 0x00 \<notin> set (tenant_str t)" "CHR 0x00 \<notin> set (tenant_str t')"
    using assms tenant_byte_not_nul by (auto simp: tenant_new_iff list_all_iff)
  then show ?thesis
    by (cases t; cases t'; cases k; cases k') (simp add: submission_preimage_def delimited_inject)
qed

lemma submission_preimage_unambiguous_witness:
  "submission_preimage (AgentSubmissionKey ''0123456789abcdef'') (TenantId ''acme'') \<noteq>
     submission_preimage (AgentSubmissionKey ''0123456789abcdef'') (TenantId ''acme.eu'')"
proof -
  have "tenant_new ''acme'' = Inr (TenantId ''acme'')" "tenant_new ''acme.eu'' = Inr (TenantId ''acme.eu'')"
    by code_simp+
  from submission_preimage_unambiguous [OF this] show ?thesis by simp
qed

end
