(* ===== verification/Transitions.thy ===== *)
theory Transitions
  imports Main
begin

text \<open>
  The interface of the state machines of the development: a step relation with an invariant and a rank
  that never decreases. A machine whose every step raises the rank by exactly one extends it.
  \<open>Lease\<close>, \<open>Run\<close>, \<open>ToolInvocation\<close> and \<open>FairStore\<close> interpret these locales on their own step relations.
\<close>

locale ranked_machine =
  fixes step :: "'s \<Rightarrow> 's \<Rightarrow> bool"
    and inv :: "'s \<Rightarrow> bool"
    and rank :: "'s \<Rightarrow> nat"
  assumes step_inv: "step s t \<Longrightarrow> inv s \<Longrightarrow> inv t"
    and step_rank: "step s t \<Longrightarrow> inv s \<Longrightarrow> rank s \<le> rank t"
begin

lemma reach_inv: "rtranclp step s t \<Longrightarrow> inv s \<Longrightarrow> inv t"
  by (induction rule: rtranclp_induct) (auto intro: step_inv)

lemma reach_rank: "rtranclp step s t \<Longrightarrow> inv s \<Longrightarrow> rank s \<le> rank t"
proof (induction rule: rtranclp_induct)
  case (step t u)
  then have "inv t" by (blast intro: reach_inv)
  then show ?case using step step_rank by fastforce
qed simp

text \<open>A property that every step keeps holds in every state reached from one that has it.\<close>

lemma reach_keeps:
  assumes "rtranclp step s t" and "inv s" and "P s"
    and "\<And>u v. inv u \<Longrightarrow> P u \<Longrightarrow> step u v \<Longrightarrow> P v"
  shows "P t"
  using assms(1-3)
proof (induction rule: rtranclp_induct)
  case (step t u)
  then show ?case using assms(4) reach_inv by blast
qed simp

end

locale counting_machine = ranked_machine +
  assumes step_counts: "step s t \<Longrightarrow> inv s \<Longrightarrow> rank t = Suc (rank s)"
begin

lemma steps_count: "(step ^^ n) s t \<Longrightarrow> inv s \<Longrightarrow> rank t = rank s + n"
proof (induction n arbitrary: t)
  case (Suc n)
  then obtain u where u: "(step ^^ n) s u" "step u t" by auto
  then have "inv u" using reach_inv Suc.prems(2) relpowp_imp_rtranclp by metis
  then show ?case using Suc u step_counts by simp
qed simp

lemma no_return: "tranclp step s t \<Longrightarrow> inv s \<Longrightarrow> rank s < rank t"
proof (induction rule: tranclp_induct)
  case (step t u)
  then have "inv t" by (blast intro: reach_inv tranclp_into_rtranclp)
  then show ?case using step step_counts by fastforce
qed (simp add: step_counts)

end

end
