(* ===== verification/Lease.thy ===== *)
theory Lease
  imports Ids Time Transitions
begin

text \<open>
  \<open>crates/stateknot-core/src/lease.rs\<close>: exclusive execution leases with fencing epochs. A lease is the
  current row of a run; renewal and supersession produce the next row. The step relation \<open>lease_step\<close>
  ranges over both, and the theorems speak about any sequence of them.
\<close>

section \<open>Fencing epochs\<close>

definition MAX_DATABASE_ORDINAL :: u64 where "MAX_DATABASE_ORDINAL = 9223372036854775807"

datatype fencing_epoch = FencingEpoch (epoch_get: u64)

datatype fencing_epoch_error = EpochZero | EpochAboveMaximum | EpochInvalidFormat | EpochNonCanonical

definition epoch_FIRST :: fencing_epoch where "epoch_FIRST = FencingEpoch 1"

definition epoch_new :: "u64 \<Rightarrow> (fencing_epoch_error, fencing_epoch) result" where
  "epoch_new v =
     and_then (reject_if (v = 0) EpochZero) (\<lambda>_.
     and_then (reject_if (v > MAX_DATABASE_ORDINAL) EpochAboveMaximum) (\<lambda>_. Inr (FencingEpoch v)))"

definition epoch_checked_next :: "fencing_epoch \<Rightarrow> fencing_epoch option" where
  "epoch_checked_next e =
     (if epoch_get e = MAX_DATABASE_ORDINAL then None else Some (FencingEpoch (epoch_get e + 1)))"

fun epoch_from_decimal_error :: "unsigned_decimal_error \<Rightarrow> fencing_epoch_error" where
  "epoch_from_decimal_error Empty = EpochInvalidFormat"
| "epoch_from_decimal_error (InvalidCharacter _) = EpochInvalidFormat"
| "epoch_from_decimal_error LeadingZero = EpochNonCanonical"
| "epoch_from_decimal_error (TooLong _ _) = EpochAboveMaximum"
| "epoch_from_decimal_error Overflow = EpochAboveMaximum"

definition epoch_from_str :: "string \<Rightarrow> (fencing_epoch_error, fencing_epoch) result" where
  "epoch_from_str s =
     and_then (map_err epoch_from_decimal_error (parse_bounded_u64 s MAX_DATABASE_ORDINAL)) epoch_new"

section \<open>Leases\<close>

record run_fence =
  fence_tenant_id :: tenant_id
  fence_run_id :: run_id
  fence_attempt_id :: attempt_id
  fence_epoch :: fencing_epoch

record run_lease =
  fence :: run_fence
  acquired_at :: timestamp
  renewed_at :: timestamp
  expires_at :: timestamp

datatype run_lease_validation_error =
  TenantMismatch
| RunMismatch
| AttemptMismatch attempt_id attempt_id
| EpochMismatch fencing_epoch fencing_epoch
| ObservationBeforeAcquisition timestamp timestamp
| ObservationBeforeRenewal timestamp timestamp
| Expired timestamp timestamp

datatype run_lease_error =
  RenewalBeforeAcquisition timestamp timestamp
| ExpiryNotAfterObservation timestamp timestamp
| FenceError run_lease_validation_error
| RenewalClockRegression timestamp timestamp
| RenewalTooLate timestamp timestamp
| ExpiryNotExtended timestamp timestamp
| AttemptReused attempt_id
| SupersessionClockRegression timestamp timestamp
| EpochOverflow

definition fence_new :: "tenant_id \<Rightarrow> run_id \<Rightarrow> attempt_id \<Rightarrow> fencing_epoch \<Rightarrow> run_fence" where
  "fence_new t r a e =
     \<lparr>fence_tenant_id = t, fence_run_id = r, fence_attempt_id = a, fence_epoch = e\<rparr>"

definition from_observations ::
  "run_fence \<Rightarrow> timestamp \<Rightarrow> timestamp \<Rightarrow> timestamp \<Rightarrow> (run_lease_error, run_lease) result" where
  "from_observations f acq ren ex =
     and_then (reject_if (ren < acq) (RenewalBeforeAcquisition acq ren)) (\<lambda>_.
     and_then (reject_if (ex \<le> ren) (ExpiryNotAfterObservation ren ex)) (\<lambda>_.
     Inr \<lparr>fence = f, acquired_at = acq, renewed_at = ren, expires_at = ex\<rparr>))"

definition lease_restore ::
  "run_fence \<Rightarrow> timestamp \<Rightarrow> timestamp \<Rightarrow> timestamp \<Rightarrow> (run_lease_error, run_lease) result" where
  "lease_restore f acquired renewed expires = from_observations f acquired renewed expires"

definition lease_new ::
  "run_fence \<Rightarrow> timestamp \<Rightarrow> timestamp \<Rightarrow> (run_lease_error, run_lease) result" where
  "lease_new f acquired expires = from_observations f acquired acquired expires"

definition lease_first ::
  "tenant_id \<Rightarrow> run_id \<Rightarrow> attempt_id \<Rightarrow> timestamp \<Rightarrow> timestamp \<Rightarrow> (run_lease_error, run_lease) result" where
  "lease_first t r a acquired expires = lease_new (fence_new t r a epoch_FIRST) acquired expires"

definition validate_fence :: "run_lease \<Rightarrow> run_fence \<Rightarrow> (run_lease_validation_error, unit) result" where
  "validate_fence l f =
     reject_first
       [(fence_tenant_id f \<noteq> fence_tenant_id (fence l), TenantMismatch),
        (fence_run_id f \<noteq> fence_run_id (fence l), RunMismatch),
        (fence_attempt_id f \<noteq> fence_attempt_id (fence l),
           AttemptMismatch (fence_attempt_id (fence l)) (fence_attempt_id f)),
        (fence_epoch f \<noteq> fence_epoch (fence l),
           EpochMismatch (fence_epoch (fence l)) (fence_epoch f))]"

definition validate_write ::
  "run_lease \<Rightarrow> run_fence \<Rightarrow> timestamp \<Rightarrow> (run_lease_validation_error, unit) result" where
  "validate_write l f observed =
     and_then (validate_fence l f) (\<lambda>_.
     reject_first
       [(observed < acquired_at l, ObservationBeforeAcquisition (acquired_at l) observed),
        (observed < renewed_at l, ObservationBeforeRenewal (renewed_at l) observed),
        (observed \<ge> expires_at l, Expired (expires_at l) observed)])"

definition renewed ::
  "run_lease \<Rightarrow> run_fence \<Rightarrow> timestamp \<Rightarrow> timestamp \<Rightarrow> (run_lease_error, run_lease) result" where
  "renewed l f at expires =
     and_then (map_err FenceError (validate_fence l f)) (\<lambda>_.
     and_then (reject_first
       [(at < renewed_at l, RenewalClockRegression (renewed_at l) at),
        (at \<ge> expires_at l, RenewalTooLate (expires_at l) at),
        (expires \<le> expires_at l, ExpiryNotExtended (expires_at l) expires)]) (\<lambda>_.
     from_observations (fence l) (acquired_at l) at expires))"

definition superseded ::
  "run_lease \<Rightarrow> attempt_id \<Rightarrow> timestamp \<Rightarrow> timestamp \<Rightarrow> (run_lease_error, run_lease) result" where
  "superseded l a at expires =
     and_then (reject_if (a = fence_attempt_id (fence l)) (AttemptReused a)) (\<lambda>_.
     and_then (reject_if (at < renewed_at l) (SupersessionClockRegression (renewed_at l) at)) (\<lambda>_.
     and_then (ok_or (epoch_checked_next (fence_epoch (fence l))) EpochOverflow) (\<lambda>e.
     lease_new (fence_new (fence_tenant_id (fence l)) (fence_run_id (fence l)) a e) at expires)))"

section \<open>Sequences of leases\<close>

inductive lease_step :: "run_lease \<Rightarrow> run_lease \<Rightarrow> bool" where
  renew: "renewed l f at expires = Inr m \<Longrightarrow> lease_step l m"
| supersede: "superseded l a at expires = Inr m \<Longrightarrow> lease_step l m"

inductive_cases lease_stepE: "lease_step l m"

abbreviation epoch_of :: "run_lease \<Rightarrow> nat" where
  "epoch_of l \<equiv> unat (epoch_get (fence_epoch (fence l)))"

definition lease_wf :: "run_lease \<Rightarrow> bool" where
  "lease_wf l \<longleftrightarrow>
     acquired_at l \<le> renewed_at l \<and> renewed_at l < expires_at l \<and>
     0 < epoch_get (fence_epoch (fence l)) \<and> epoch_get (fence_epoch (fence l)) \<le> MAX_DATABASE_ORDINAL"

lemma fence_eq_iff:
  "(f :: run_fence) = g \<longleftrightarrow> fence_tenant_id f = fence_tenant_id g \<and> fence_run_id f = fence_run_id g \<and>
     fence_attempt_id f = fence_attempt_id g \<and> fence_epoch f = fence_epoch g"
  by auto

lemma validate_fence_iff [result_simps]: "validate_fence l f = Inr u \<longleftrightarrow> f = fence l"
  by (simp add: validate_fence_def reject_first_Inr_iff fence_eq_iff)

lemma validate_write_ok_iff:
  "is_ok (validate_write l f t) \<longleftrightarrow>
     f = fence l \<and> acquired_at l \<le> t \<and> renewed_at l \<le> t \<and> t < expires_at l"
  by (auto simp: validate_write_def ok_simps result_simps not_less not_le)

lemma renewed_Inr_iff:
  "lease_wf l \<Longrightarrow> renewed l f at expires = Inr m \<longleftrightarrow>
     f = fence l \<and> renewed_at l \<le> at \<and> at < expires_at l \<and> expires_at l < expires \<and>
     m = l\<lparr>renewed_at := at, expires_at := expires\<rparr>"
  by (auto simp: renewed_def result_simps from_observations_def not_less not_le lease_wf_def)

lemma epoch_next_iff:
  assumes "lease_wf l"
  shows "epoch_checked_next (fence_epoch (fence l)) = Some e \<longleftrightarrow>
    unat (epoch_get e) = Suc (epoch_of l) \<and> epoch_get e \<le> MAX_DATABASE_ORDINAL"
proof -
  let ?v = "epoch_get (fence_epoch (fence l))"
  have max: "unat MAX_DATABASE_ORDINAL = 9223372036854775807" by (simp add: MAX_DATABASE_ORDINAL_def)
  have v: "unat ?v \<le> 9223372036854775807"
    using assms by (simp add: lease_wf_def word_le_nat max)
  then have "unat (?v + 1) = Suc (unat ?v)" by (simp add: unat_word_ariths)
  moreover have "e = FencingEpoch (?v + 1) \<longleftrightarrow> epoch_get e = ?v + 1" by (cases e) auto
  ultimately show ?thesis
    using v by (auto simp: epoch_checked_next_def word_eq_nat word_le_nat max)
qed

lemma superseded_Inr_iff:
  assumes "lease_wf l"
  shows "superseded l a at expires = Inr m \<longleftrightarrow>
    a \<noteq> fence_attempt_id (fence l) \<and> renewed_at l \<le> at \<and> at < expires \<and>
    epoch_of m = Suc (epoch_of l) \<and> epoch_get (fence_epoch (fence m)) \<le> MAX_DATABASE_ORDINAL \<and>
    fence_tenant_id (fence m) = fence_tenant_id (fence l) \<and> fence_run_id (fence m) = fence_run_id (fence l) \<and>
    fence_attempt_id (fence m) = a \<and> acquired_at m = at \<and> renewed_at m = at \<and> expires_at m = expires"
  by (auto simp: superseded_def result_simps epoch_next_iff [OF assms] lease_new_def from_observations_def
      fence_new_def not_less not_le)

lemma lease_step_wf: "lease_step l m \<Longrightarrow> lease_wf l \<Longrightarrow> lease_wf m"
proof (erule lease_stepE)
  fix f at expires
  assume wf: "lease_wf l" and m: "renewed l f at expires = Inr m"
  show "lease_wf m" using m wf unfolding renewed_Inr_iff [OF wf] by (auto simp: lease_wf_def)
next
  fix a at expires
  assume wf: "lease_wf l" and m: "superseded l a at expires = Inr m"
  then show "lease_wf m" unfolding superseded_Inr_iff [OF wf] by (auto simp: lease_wf_def word_less_nat)
qed

lemma lease_step_epoch:
  assumes "lease_step l m" and "lease_wf l"
  shows "fence m = fence l \<or> epoch_of m = Suc (epoch_of l)"
  using assms by (auto elim!: lease_stepE simp: renewed_Inr_iff superseded_Inr_iff)

interpretation leases: ranked_machine lease_step lease_wf epoch_of
proof
  fix l m
  assume step: "lease_step l m" and wf: "lease_wf l"
  show "lease_wf m" by (rule lease_step_wf [OF step wf])
  show "epoch_of l \<le> epoch_of m" using lease_step_epoch [OF step wf] by auto
qed

lemma lease_step_observations:
  assumes "lease_step l m" and "lease_wf l"
  shows "renewed_at l \<le> renewed_at m" and "fence_tenant_id (fence m) = fence_tenant_id (fence l)"
    and "fence_run_id (fence m) = fence_run_id (fence l)"
    and "fence m = fence l \<Longrightarrow> expires_at l < expires_at m"
  using assms by (auto elim!: lease_stepE simp: renewed_Inr_iff superseded_Inr_iff)

lemma lease_first_wf:
  assumes "lease_first t r a acquired expires = Inr l"
  shows "lease_wf l \<and> epoch_of l = 1"
  using assms
  by (auto simp: lease_first_def lease_new_def from_observations_def result_simps lease_wf_def
      fence_new_def epoch_FIRST_def MAX_DATABASE_ORDINAL_def not_less not_le)

text \<open>A concrete history: a first lease, its successor, and a renewal of the successor.\<close>

definition sample_fence :: "uuid \<Rightarrow> u64 \<Rightarrow> run_fence" where
  "sample_fence a e = fence_new (TenantId ''acme'') (RunId 7) (AttemptId a) (FencingEpoch e)"

definition sample_lease :: "uuid \<Rightarrow> u64 \<Rightarrow> int \<Rightarrow> int \<Rightarrow> int \<Rightarrow> run_lease" where
  "sample_lease a e acq ren ex =
     \<lparr>fence = sample_fence a e, acquired_at = Timestamp acq, renewed_at = Timestamp ren,
      expires_at = Timestamp ex\<rparr>"

lemma sample_lease_wf: "lease_wf (sample_lease 1 1 0 0 10)"
  by (simp add: lease_wf_def sample_lease_def sample_fence_def fence_new_def MAX_DATABASE_ORDINAL_def)

lemma sample_history:
  "superseded (sample_lease 1 1 0 0 10) (AttemptId 2) (Timestamp 5) (Timestamp 20) =
     Inr (sample_lease 2 2 5 5 20)"
  "renewed (sample_lease 2 2 5 5 20) (sample_fence 2 2) (Timestamp 8) (Timestamp 30) =
     Inr (sample_lease 2 2 5 8 30)"
  by code_simp+

section \<open>What leases guarantee\<close>

text \<open>
  C10. A stale writer is fenced off for good: once a lease has been superseded, no later lease of the
  run, after any further renewals and supersessions, accepts a write with the old fence, whatever the
  clock shows.
\<close>

theorem superseded_fence_never_writes:
  assumes "lease_wf l" and "superseded l a at expires = Inr m" and "rtranclp lease_step m k"
  shows "\<not> is_ok (validate_write k (fence l) t)"
proof -
  have step: "lease_step l m" using assms(2) by (rule lease_step.supersede)
  have "epoch_of l < epoch_of m" using assms(1,2) by (simp add: superseded_Inr_iff)
  also have "epoch_of m \<le> epoch_of k"
    using assms(1,3) step by (blast intro: leases.reach_rank lease_step_wf)
  finally have "fence l \<noteq> fence k" by auto
  then show ?thesis by (simp add: validate_write_ok_iff)
qed

theorem superseded_fence_never_writes_witness:
  "\<not> is_ok (validate_write (sample_lease 2 2 5 8 30) (sample_fence 1 1) (Timestamp 9))"
proof -
  have "rtranclp lease_step (sample_lease 2 2 5 5 20) (sample_lease 2 2 5 8 30)"
    using sample_history(2) by (blast intro: lease_step.renew)
  from superseded_fence_never_writes [OF sample_lease_wf sample_history(1) this]
  show ?thesis by (simp add: sample_lease_def)
qed

text \<open>
  C26. Along any sequence of renewals and supersessions of a valid lease, the tenant and the run stay,
  the observation clock never goes back, the epoch never decreases, and two leases with the same epoch
  are held by the same attempt, the later one with an expiry at least as late.
\<close>

theorem lease_history:
  assumes "lease_wf l" and "rtranclp lease_step l m"
  shows "lease_wf m \<and> epoch_of l \<le> epoch_of m \<and> renewed_at l \<le> renewed_at m \<and>
    fence_tenant_id (fence m) = fence_tenant_id (fence l) \<and> fence_run_id (fence m) = fence_run_id (fence l) \<and>
    (epoch_of m = epoch_of l \<longrightarrow> fence m = fence l \<and> expires_at l \<le> expires_at m)"
  using assms(2)
proof (induction rule: rtranclp_induct)
  case base
  then show ?case using assms(1) by simp
next
  case (step k m)
  from step.IH have wf: "lease_wf k" and le: "epoch_of l \<le> epoch_of k" "renewed_at l \<le> renewed_at k"
    and same: "fence_tenant_id (fence k) = fence_tenant_id (fence l)"
      "fence_run_id (fence k) = fence_run_id (fence l)"
    and IH: "epoch_of k = epoch_of l \<Longrightarrow> fence k = fence l \<and> expires_at l \<le> expires_at k"
    by blast+
  note obs = lease_step_observations [OF step.hyps(2) wf] and ep = lease_step_epoch [OF step.hyps(2) wf]
  have grow: "epoch_of k \<le> epoch_of m" using ep by auto
  have "fence m = fence l \<and> expires_at l \<le> expires_at m" if "epoch_of m = epoch_of l"
  proof -
    have "fence m = fence k" "epoch_of k = epoch_of l" using ep that le(1) by auto
    then show ?thesis using IH obs(4) by (auto intro: order_trans less_imp_le)
  qed
  moreover have "lease_wf m" by (rule lease_step_wf [OF step.hyps(2) wf])
  ultimately show ?case
    using le grow obs(1-3) same by (auto intro: order_trans)
qed

theorem lease_history_witness:
  "lease_wf (sample_lease 2 2 5 8 30) \<and> epoch_of (sample_lease 1 1 0 0 10) \<le> epoch_of (sample_lease 2 2 5 8 30)"
proof -
  have "rtranclp lease_step (sample_lease 1 1 0 0 10) (sample_lease 2 2 5 8 30)"
    using lease_step.supersede [OF sample_history(1)] lease_step.renew [OF sample_history(2)]
    by (meson rtranclp.rtrancl_into_rtrancl rtranclp.rtrancl_refl)
  from lease_history [OF sample_lease_wf this] show ?thesis by blast
qed

text \<open>
  The lease operations do exactly what they are documented to do: a write is accepted iff the fence
  is the current one and the clock is between the last renewal and the exclusive expiry; a renewal keeps
  the fence and strictly extends a live lease; a supersession takes a new attempt and the next epoch.
\<close>

lemma lease_operations_exact:
  assumes "lease_wf l"
  shows "(is_ok (validate_write l f t) \<longleftrightarrow> f = fence l \<and> renewed_at l \<le> t \<and> t < expires_at l) \<and>
    (renewed l f t e = Inr m \<longleftrightarrow>
       f = fence l \<and> renewed_at l \<le> t \<and> t < expires_at l \<and> expires_at l < e \<and>
       m = l\<lparr>renewed_at := t, expires_at := e\<rparr>) \<and>
    (is_ok (superseded l a t e) \<longleftrightarrow>
       a \<noteq> fence_attempt_id (fence l) \<and> renewed_at l \<le> t \<and> t < e \<and>
       epoch_get (fence_epoch (fence l)) \<noteq> MAX_DATABASE_ORDINAL)"
proof (intro conjI)
  show "is_ok (validate_write l f t) \<longleftrightarrow> f = fence l \<and> renewed_at l \<le> t \<and> t < expires_at l"
    using assms by (auto simp: validate_write_ok_iff lease_wf_def)
  show "renewed l f t e = Inr m \<longleftrightarrow>
       f = fence l \<and> renewed_at l \<le> t \<and> t < expires_at l \<and> expires_at l < e \<and>
       m = l\<lparr>renewed_at := t, expires_at := e\<rparr>"
    by (rule renewed_Inr_iff [OF assms])
  show "is_ok (superseded l a t e) \<longleftrightarrow>
       a \<noteq> fence_attempt_id (fence l) \<and> renewed_at l \<le> t \<and> t < e \<and>
       epoch_get (fence_epoch (fence l)) \<noteq> MAX_DATABASE_ORDINAL"
    by (auto simp: superseded_def ok_simps result_simps lease_new_def from_observations_def
        epoch_checked_next_def not_less not_le)
qed

lemma lease_operations_exact_witness:
  "is_ok (validate_write (sample_lease 1 1 0 0 10) (sample_fence 1 1) (Timestamp 9)) \<and>
   \<not> is_ok (validate_write (sample_lease 1 1 0 0 10) (sample_fence 1 1) (Timestamp 10))"
  using lease_operations_exact [OF sample_lease_wf, of "sample_fence 1 1" "Timestamp 9"]
    lease_operations_exact [OF sample_lease_wf, of "sample_fence 1 1" "Timestamp 10"]
  by (simp add: sample_lease_def)

end
