(* ===== verification/Failure.thy ===== *)
theory Failure
  imports Ids Time "HOL-Library.Multiset"
begin

text \<open>
  \<open>crates/stateknot-core/src/failure.rs\<close>: stable failure identifiers, public messages, and a failure's
  category with its recovery advice. Identifiers are lists of bytes, messages lists of Unicode scalar
  values. The payload of a failure that no rule reads (its structured details and private source) is a
  type parameter.
\<close>

section \<open>Stable identifiers\<close>

datatype failure_identifier_error =
  IdentifierEmpty
| IdentifierTooLong nat nat
| InvalidSegmentStart nat
| InvalidByte nat

definition identifier_byte :: "char \<Rightarrow> bool" where
  "identifier_byte c \<longleftrightarrow>
     is_ascii_lowercase c \<or> is_ascii_digit_char c \<or> c \<in> {CHR ''_'', CHR ''-''}"

text \<open>The scanning loop: the state is the flag \<open>at_segment_start\<close>, the index counts bytes.\<close>

fun scan_identifier :: "bool \<Rightarrow> nat \<Rightarrow> string \<Rightarrow> (failure_identifier_error, bool) result" where
  "scan_identifier at_segment_start index [] = Inr at_segment_start"
| "scan_identifier at_segment_start index (byte # bytes) =
     (if at_segment_start then
        if \<not> is_ascii_lowercase byte then Inl (InvalidSegmentStart index)
        else scan_identifier False (index + 1) bytes
      else if byte = CHR ''.'' then scan_identifier True (index + 1) bytes
      else if \<not> identifier_byte byte then Inl (InvalidByte index)
      else scan_identifier False (index + 1) bytes)"

definition IDENTIFIER_MAX_LEN :: nat where "IDENTIFIER_MAX_LEN = 128"

definition validate_failure_identifier :: "string \<Rightarrow> (failure_identifier_error, unit) result" where
  "validate_failure_identifier v =
     and_then (reject_if (v = []) IdentifierEmpty) (\<lambda>_.
     and_then (reject_if (length v > IDENTIFIER_MAX_LEN) (IdentifierTooLong IDENTIFIER_MAX_LEN (length v))) (\<lambda>_.
     and_then (scan_identifier True 0 v) (\<lambda>at_segment_start.
     reject_if at_segment_start (InvalidSegmentStart (length v)))))"

section \<open>Public messages\<close>

unbundle bit_operations_syntax

type_synonym scalar = nat

definition len_utf8 :: "scalar \<Rightarrow> nat" where
  "len_utf8 c = (if c < 0x80 then 1 else if c < 0x800 then 2 else if c < 0x10000 then 3 else 4)"

definition utf8_len :: "scalar list \<Rightarrow> nat" where
  "utf8_len s = sum_list (map len_utf8 s)"

text \<open>\<open>char::is_whitespace\<close> (Unicode \<open>White_Space\<close>) and \<open>char::is_control\<close> (category \<open>Cc\<close>).\<close>

definition is_whitespace :: "scalar \<Rightarrow> bool" where
  "is_whitespace c \<longleftrightarrow>
     (9 \<le> c \<and> c \<le> 13) \<or> c = 0x20 \<or> c = 0x85 \<or> c = 0xA0 \<or> c = 0x1680 \<or>
     (0x2000 \<le> c \<and> c \<le> 0x200A) \<or> c = 0x2028 \<or> c = 0x2029 \<or> c = 0x202F \<or> c = 0x205F \<or> c = 0x3000"

definition is_control :: "scalar \<Rightarrow> bool" where
  "is_control c \<longleftrightarrow> c < 0x20 \<or> (0x7F \<le> c \<and> c \<le> 0x9F)"

definition is_unicode_noncharacter :: "scalar \<Rightarrow> bool" where
  "is_unicode_noncharacter c \<longleftrightarrow>
     (0xFDD0 \<le> c \<and> c \<le> 0xFDEF) \<or> c AND 0xFFFE = 0xFFFE"

definition is_bidi_formatting_control :: "scalar \<Rightarrow> bool" where
  "is_bidi_formatting_control c \<longleftrightarrow>
     c = 0x61C \<or> c = 0x200E \<or> c = 0x200F \<or> (0x202A \<le> c \<and> c \<le> 0x202E) \<or> (0x2066 \<le> c \<and> c \<le> 0x2069)"

definition disallowed_scalar :: "scalar \<Rightarrow> bool" where
  "disallowed_scalar c \<longleftrightarrow>
     is_control c \<or> is_bidi_formatting_control c \<or> c = 0x2028 \<or> c = 0x2029 \<or> is_unicode_noncharacter c"

datatype failure_message_error =
  MessageEmpty
| MessageTooLong nat nat
| SurroundingWhitespace
| DisallowedScalar nat

definition MESSAGE_MAX_BYTES :: nat where "MESSAGE_MAX_BYTES = 1024"

definition validate_failure_message :: "scalar list \<Rightarrow> (failure_message_error, unit) result" where
  "validate_failure_message v =
     and_then (reject_if (v = []) MessageEmpty) (\<lambda>_.
     and_then (reject_if (utf8_len v > MESSAGE_MAX_BYTES) (MessageTooLong MESSAGE_MAX_BYTES (utf8_len v))) (\<lambda>_.
     and_then (reject_if (is_whitespace (hd v) \<or> is_whitespace (last v)) SurroundingWhitespace) (\<lambda>_.
     (case position disallowed_scalar v of
        Some index \<Rightarrow> Inl (DisallowedScalar (utf8_len (take index v)))
      | None \<Rightarrow> Inr ()))))"

section \<open>Categories and recovery advice\<close>

datatype failure_category =
  InvalidInput
| Unauthenticated
| PermissionDenied
| PolicyDenied
| NotFound
| Conflict
| Unsupported
| RateLimited
| CategoryDeadlineExceeded
| CategoryCancelled
| DependencyUnavailable
| DataCorruption
| AmbiguousExternalOutcome
| Internal

datatype retry_advice =
  Never
| SafeAfter duration_millis
| ReconcileFirst

definition safe_after_delay :: "retry_advice \<Rightarrow> duration_millis option" where
  "safe_after_delay a = (case a of SafeAfter delay \<Rightarrow> Some delay | _ \<Rightarrow> None)"

definition requires_reconciliation :: "retry_advice \<Rightarrow> bool" where
  "requires_reconciliation a \<longleftrightarrow> a = ReconcileFirst"

text \<open>The wire form of recovery advice: an object with the members \<open>kind\<close> and \<open>delay\<close>, in any order.\<close>

datatype retry_advice_kind = KindNever | KindSafeAfter | KindReconcileFirst

datatype retry_advice_member = MemberKind retry_advice_kind | MemberDelay duration_millis

datatype retry_advice_wire_error =
  DuplicateKind
| DuplicateDelay
| MissingKind
| MissingDelay
| UnknownDelay

definition visit_member ::
  "retry_advice_kind option \<times> duration_millis option \<Rightarrow> retry_advice_member \<Rightarrow>
     (retry_advice_wire_error, retry_advice_kind option \<times> duration_millis option) result" where
  "visit_member s m =
     (case m of
        MemberKind k \<Rightarrow> and_then (reject_if (fst s \<noteq> None) DuplicateKind) (\<lambda>_. Inr (Some k, snd s))
      | MemberDelay d \<Rightarrow> and_then (reject_if (snd s \<noteq> None) DuplicateDelay) (\<lambda>_. Inr (fst s, Some d)))"

definition visit_map :: "retry_advice_member list \<Rightarrow> (retry_advice_wire_error, retry_advice) result" where
  "visit_map ms =
     and_then (try_fold visit_member (None, None) ms) (\<lambda>(kind, delay).
     and_then (ok_or kind MissingKind) (\<lambda>k.
     (case (k, delay) of
        (KindNever, None) \<Rightarrow> Inr Never
      | (KindSafeAfter, Some d) \<Rightarrow> Inr (SafeAfter d)
      | (KindReconcileFirst, None) \<Rightarrow> Inr ReconcileFirst
      | (KindSafeAfter, None) \<Rightarrow> Inl MissingDelay
      | (_, Some d) \<Rightarrow> Inl UnknownDelay)))"

fun advice_members :: "retry_advice \<Rightarrow> retry_advice_member list" where
  "advice_members Never = [MemberKind KindNever]"
| "advice_members (SafeAfter d) = [MemberKind KindSafeAfter, MemberDelay d]"
| "advice_members ReconcileFirst = [MemberKind KindReconcileFirst]"

section \<open>Failures\<close>

record 'p failure =
  fl_id :: failure_id
  fl_category :: failure_category
  fl_code :: string
  fl_origin :: string
  fl_message :: "scalar list"
  fl_retry_advice :: retry_advice
  fl_details :: "'p option"
  fl_caused_by_event_id :: "event_id option"

datatype failure_build_error =
  AmbiguousOutcomeRequiresReconciliation
| ReconciliationRequiresAmbiguousOutcome

definition validate_failure_recovery ::
  "failure_category \<Rightarrow> retry_advice \<Rightarrow> (failure_build_error, unit) result" where
  "validate_failure_recovery category advice =
     (if category = AmbiguousExternalOutcome then
        if advice = ReconcileFirst then Inr () else Inl AmbiguousOutcomeRequiresReconciliation
      else if advice = ReconcileFirst then Inl ReconciliationRequiresAmbiguousOutcome
      else Inr ())"

definition failure_new ::
  "failure_id \<Rightarrow> failure_category \<Rightarrow> string \<Rightarrow> string \<Rightarrow> scalar list \<Rightarrow> retry_advice \<Rightarrow>
     (failure_build_error, 'p failure) result" where
  "failure_new i category code origin message advice =
     and_then (validate_failure_recovery category advice) (\<lambda>_.
     Inr \<lparr>fl_id = i, fl_category = category, fl_code = code, fl_origin = origin, fl_message = message,
          fl_retry_advice = advice, fl_details = None, fl_caused_by_event_id = None\<rparr>)"

definition with_details :: "'p \<Rightarrow> 'p failure \<Rightarrow> 'p failure" where
  "with_details d f = f\<lparr>fl_details := Some d\<rparr>"

definition with_caused_by_event :: "event_id \<Rightarrow> 'p failure \<Rightarrow> 'p failure" where
  "with_caused_by_event e f = f\<lparr>fl_caused_by_event_id := Some e\<rparr>"

section \<open>The identifier grammar\<close>

text \<open>
  The grammar the sources document, as a specification: one or more segments joined by dots, each a
  lowercase letter followed by lowercase letters, digits, underscores and hyphens.
\<close>

fun identifier_segment :: "string \<Rightarrow> bool" where
  "identifier_segment [] = False"
| "identifier_segment (c # cs) \<longleftrightarrow> is_ascii_lowercase c \<and> list_all identifier_byte cs"

fun join_dots :: "string list \<Rightarrow> string" where
  "join_dots [] = []"
| "join_dots [s] = s"
| "join_dots (s # t # ss) = s @ CHR ''.'' # join_dots (t # ss)"

definition segmented :: "string \<Rightarrow> bool" where
  "segmented v \<longleftrightarrow> (\<exists>ss. ss \<noteq> [] \<and> list_all identifier_segment ss \<and> v = join_dots ss)"

definition continued :: "string \<Rightarrow> bool" where
  "continued v \<longleftrightarrow>
     (\<exists>cs ss. list_all identifier_byte cs \<and> list_all identifier_segment ss \<and> v = join_dots (cs # ss))"

lemma dot_not_identifier_byte: "\<not> identifier_byte (CHR ''.'')"
  by code_simp

lemma join_dots_Cons: "join_dots ((c # cs) # ss) = c # join_dots (cs # ss)"
  by (cases ss) simp_all

lemma join_dots_empty_head: "ss \<noteq> [] \<Longrightarrow> join_dots ([] # ss) = CHR ''.'' # join_dots ss"
  by (cases ss) simp_all

lemma segmented_Nil: "\<not> segmented []"
proof
  assume "segmented []"
  then obtain s ss where "identifier_segment s" "[] = join_dots (s # ss)"
    by (auto simp: segmented_def neq_Nil_conv)
  then show False by (cases s) (simp_all add: join_dots_Cons)
qed

lemma segmented_Cons: "segmented (c # v) \<longleftrightarrow> is_ascii_lowercase c \<and> continued v"
proof
  assume "segmented (c # v)"
  then obtain s ss where s: "identifier_segment s" "list_all identifier_segment ss"
      "c # v = join_dots (s # ss)"
    by (auto simp: segmented_def neq_Nil_conv)
  then show "is_ascii_lowercase c \<and> continued v"
    by (cases s) (auto simp: join_dots_Cons continued_def)
next
  assume "is_ascii_lowercase c \<and> continued v"
  then obtain cs ss where "is_ascii_lowercase c" "list_all identifier_byte cs"
      "list_all identifier_segment ss" "v = join_dots (cs # ss)"
    by (auto simp: continued_def)
  then show "segmented (c # v)"
    unfolding segmented_def by (intro exI [of _ "(c # cs) # ss"]) (simp add: join_dots_Cons)
qed

lemma continued_Nil: "continued []"
  unfolding continued_def by (rule exI [of _ "[]"], rule exI [of _ "[]"]) simp

lemma continued_Cons:
  "continued (c # v) \<longleftrightarrow> c = CHR ''.'' \<and> segmented v \<or> identifier_byte c \<and> continued v"
proof
  assume "continued (c # v)"
  then obtain cs ss where c: "list_all identifier_byte cs" "list_all identifier_segment ss"
      "c # v = join_dots (cs # ss)"
    by (auto simp: continued_def)
  then show "c = CHR ''.'' \<and> segmented v \<or> identifier_byte c \<and> continued v"
  proof (cases cs)
    case Nil
    with c show ?thesis by (cases "ss = []") (auto simp: join_dots_empty_head segmented_def)
  next
    case (Cons d ds)
    with c show ?thesis by (auto simp: join_dots_Cons continued_def)
  qed
next
  assume "c = CHR ''.'' \<and> segmented v \<or> identifier_byte c \<and> continued v"
  then show "continued (c # v)"
  proof
    assume "c = CHR ''.'' \<and> segmented v"
    then obtain ss where "ss \<noteq> []" "list_all identifier_segment ss" "c # v = join_dots ([] # ss)"
      by (auto simp: segmented_def join_dots_empty_head)
    then show ?thesis unfolding continued_def by (intro exI [of _ "[]"] exI [of _ ss]) simp
  next
    assume "identifier_byte c \<and> continued v"
    then obtain cs ss where "list_all identifier_byte (c # cs)" "list_all identifier_segment ss"
        "c # v = join_dots ((c # cs) # ss)"
      by (auto simp: continued_def join_dots_Cons)
    then show ?thesis unfolding continued_def by blast
  qed
qed

lemma scan_identifier_iff:
  "scan_identifier b i v = Inr False \<longleftrightarrow> (if b then segmented v else continued v)"
proof (induction b i v rule: scan_identifier.induct)
  case (2 b i c v)
  then show ?case
    using dot_not_identifier_byte by (auto simp: segmented_Cons continued_Cons)
qed (simp add: segmented_Nil continued_Nil)

text \<open>
  C25. The identifier check accepts exactly the documented grammar within 128 bytes: non-empty segments
  joined by single dots, each starting with a lowercase letter.
\<close>

theorem identifier_grammar:
  "is_ok (validate_failure_identifier v) \<longleftrightarrow>
     length v \<le> 128 \<and>
     (\<exists>ss. ss \<noteq> [] \<and> list_all identifier_segment ss \<and> v = join_dots ss)"
proof -
  have "is_ok (validate_failure_identifier v) \<longleftrightarrow>
      v \<noteq> [] \<and> length v \<le> 128 \<and> scan_identifier True 0 v = Inr False"
    by (auto simp: validate_failure_identifier_def ok_simps reject_if_Inr_iff IDENTIFIER_MAX_LEN_def)
  moreover have "v \<noteq> []" if "segmented v"
    using that segmented_Nil by blast
  ultimately show ?thesis by (auto simp: scan_identifier_iff segmented_def)
qed

section \<open>Recovery advice\<close>

definition members_of ::
  "retry_advice_kind option \<times> duration_millis option \<Rightarrow> retry_advice_member list" where
  "members_of s =
     (case fst s of None \<Rightarrow> [] | Some k \<Rightarrow> [MemberKind k]) @
     (case snd s of None \<Rightarrow> [] | Some d \<Rightarrow> [MemberDelay d])"

lemma visited_members:
  assumes "try_fold visit_member s ms = Inr t"
  shows "mset ms + mset (members_of s) = mset (members_of t)"
  using assms
proof (induction ms arbitrary: s)
  case (Cons m ms)
  then obtain x where x: "visit_member s m = Inr x" "try_fold visit_member x ms = Inr t"
    by (auto simp: result_simps)
  have "mset (members_of x) = add_mset m (mset (members_of s))"
    using x(1) by (cases s; cases m) (auto simp: visit_member_def members_of_def result_simps)
  with Cons.IH [OF x(2)] show ?case by simp
qed simp

lemma mset_two: "mset xs = {#a, b#} \<longleftrightarrow> xs = [a, b] \<or> xs = [b, a]"
proof
  assume m: "mset xs = {#a, b#}"
  then have "length xs = 2" using mset_eq_length [of xs "[a, b]"] by simp
  then obtain x y where "xs = [x, y]" by (auto simp: length_Suc_conv numeral_2_eq_2)
  with m show "xs = [a, b] \<or> xs = [b, a]" by (auto simp: add_eq_conv_ex)
qed auto

text \<open>
  Recovery advice survives the wire in any member order, and the reader accepts nothing else: it
  returns an advice iff the members are a rearrangement of the ones written for it.
\<close>

lemma retry_advice_wire:
  "visit_map ms = Inr a \<longleftrightarrow> mset ms = mset (advice_members a)"
proof
  assume "visit_map ms = Inr a"
  then obtain kind d k where kd: "try_fold visit_member (None, None) ms = Inr (kind, d)" "kind = Some k"
      "(case (k, d) of
          (KindNever, None) \<Rightarrow> Inr Never
        | (KindSafeAfter, Some d) \<Rightarrow> Inr (SafeAfter d)
        | (KindReconcileFirst, None) \<Rightarrow> Inr ReconcileFirst
        | (KindSafeAfter, None) \<Rightarrow> Inl MissingDelay
        | (_, Some d) \<Rightarrow> Inl UnknownDelay) = Inr a"
    by (auto simp: visit_map_def and_then_Inr_iff ok_or_Inr_iff)
  then show "mset ms = mset (advice_members a)"
    using visited_members [OF kd(1)] by (cases k; cases d) (auto simp: members_of_def)
next
  assume "mset ms = mset (advice_members a)"
  then have "ms \<in> {xs. mset xs = mset (advice_members a)}" by simp
  then show "visit_map ms = Inr a"
    by (cases a) (auto simp: visit_map_def visit_member_def mset_two)
qed

end
