(* ===== verification/Run.thy ===== *)
theory Run
  imports BudgetUsage Failure Transitions
begin

text \<open>
  \<open>crates/stateknot-core/src/run.rs\<close>: the durable lifecycle of one admitted run, with its wait
  conditions, failures, cancellation records and transitions. What the lifecycle carries but never
  reads (the agent identity, the output of a result, the details of a failure) is the type parameter
  \<open>'p\<close>. \<open>run_apply\<close> is \<open>RunLifecycle::apply\<close>; \<open>run_step\<close> ranges over all transitions whose parts were
  built by their validating constructors, which is all the type system of the sources lets through.
\<close>

section \<open>Identity and results\<close>

record 'p provenance =
  pv_tenant_id :: tenant_id
  pv_run_id :: run_id
  pv_thread_id :: thread_id
  pv_invocation_id :: invocation_id
  pv_agent :: 'p

record 'p agent_result =
  ar_provenance :: "'p provenance"
  ar_completed_at :: timestamp
  ar_output :: 'p
  ar_usage :: budget_usage

section \<open>Revisions and statuses\<close>

datatype run_revision = RunRevision (revision_count: execution_count)

definition revision_ZERO :: run_revision where "revision_ZERO = RunRevision execution_ZERO"

definition revision_checked_next :: "run_revision \<Rightarrow> run_revision option" where
  "revision_checked_next r =
     map_option RunRevision (execution_checked_add (revision_count r) (ExecutionCount 1))"

datatype run_status =
  Pending
| Active
| Waiting
| CancellationRequested
| Succeeded
| Failed
| Cancelled

definition is_terminal :: "run_status \<Rightarrow> bool" where
  "is_terminal s \<longleftrightarrow> s = Succeeded \<or> s = Failed \<or> s = Cancelled"

section \<open>Wait conditions\<close>

datatype run_interrupt_kind = Approval | Input | Authentication | ExternalSignal | Reconciliation

record run_interrupt =
  ri_interrupt_id :: interrupt_id
  ri_kind :: run_interrupt_kind
  ri_requested_at :: timestamp
  ri_expires_at :: "timestamp option"

datatype run_interrupt_error = ExpiryNotAfterRequest timestamp timestamp

definition interrupt_new ::
  "interrupt_id \<Rightarrow> run_interrupt_kind \<Rightarrow> timestamp \<Rightarrow> timestamp option \<Rightarrow>
     (run_interrupt_error, run_interrupt) result" where
  "interrupt_new i kind requested expires =
     and_then (case expires of
         Some e \<Rightarrow> reject_if (e \<le> requested) (ExpiryNotAfterRequest requested e)
       | None \<Rightarrow> Inr ()) (\<lambda>_.
     Inr \<lparr>ri_interrupt_id = i, ri_kind = kind, ri_requested_at = requested, ri_expires_at = expires\<rparr>)"

datatype run_timer_kind = Sleep | RetryBackoff

record run_timer =
  rt_timer_id :: timer_id
  rt_kind :: run_timer_kind
  rt_scheduled_at :: timestamp
  rt_due_at :: timestamp

datatype run_timer_error = DueNotAfterSchedule timestamp timestamp

definition timer_new ::
  "timer_id \<Rightarrow> run_timer_kind \<Rightarrow> timestamp \<Rightarrow> timestamp \<Rightarrow> (run_timer_error, run_timer) result" where
  "timer_new i kind scheduled due =
     and_then (reject_if (due \<le> scheduled) (DueNotAfterSchedule scheduled due)) (\<lambda>_.
     Inr \<lparr>rt_timer_id = i, rt_kind = kind, rt_scheduled_at = scheduled, rt_due_at = due\<rparr>)"

datatype run_wait = Interrupt run_interrupt | Timer run_timer

fun as_interrupt :: "run_wait \<Rightarrow> run_interrupt option" where
  "as_interrupt (Interrupt i) = Some i"
| "as_interrupt (Timer t) = None"

fun as_timer :: "run_wait \<Rightarrow> run_timer option" where
  "as_timer (Timer t) = Some t"
| "as_timer (Interrupt i) = None"

fun wait_registered_at :: "run_wait \<Rightarrow> timestamp" where
  "wait_registered_at (Interrupt i) = ri_requested_at i"
| "wait_registered_at (Timer t) = rt_scheduled_at t"

fun identity_uuid :: "run_wait \<Rightarrow> uuid" where
  "identity_uuid (Interrupt i) = interrupt_uuid (ri_interrupt_id i)"
| "identity_uuid (Timer t) = timer_uuid (rt_timer_id t)"

record run_waits =
  waits_values :: "run_wait list"
  waits_registered_at :: timestamp

definition WAITS_MAX_LEN :: nat where "WAITS_MAX_LEN = 64"

datatype run_waits_error =
  WaitsEmpty
| WaitsTooMany nat nat
| DuplicateIdentity
| MixedRegistrationTimes timestamp timestamp

definition collect_wait ::
  "run_wait list \<times> timestamp option \<Rightarrow> run_wait \<Rightarrow>
     (run_waits_error, run_wait list \<times> timestamp option) result" where
  "collect_wait s v =
     (let (collected, registered) = s; at = wait_registered_at v
      in and_then (reject_if (length collected = WAITS_MAX_LEN)
                     (WaitsTooMany WAITS_MAX_LEN (WAITS_MAX_LEN + 1))) (\<lambda>_.
         and_then (case registered of
             Some expected \<Rightarrow> reject_if (at \<noteq> expected) (MixedRegistrationTimes expected at)
           | None \<Rightarrow> Inr ()) (\<lambda>_.
         and_then (reject_if (list_ex (\<lambda>w. identity_uuid w = identity_uuid v) collected)
                     DuplicateIdentity) (\<lambda>_.
         Inr (collected @ [v], Some (case registered of Some expected \<Rightarrow> expected | None \<Rightarrow> at))))))"

definition waits_try_new :: "run_wait list \<Rightarrow> (run_waits_error, run_waits) result" where
  "waits_try_new vs =
     and_then (try_fold collect_wait ([], None) vs) (\<lambda>(collected, registered).
     and_then (ok_or registered WaitsEmpty) (\<lambda>at.
     Inr \<lparr>waits_values = collected, waits_registered_at = at\<rparr>))"

definition waits_interrupt :: "run_waits \<Rightarrow> interrupt_id \<Rightarrow> run_interrupt option" where
  "waits_interrupt w i =
     List.find (\<lambda>x. ri_interrupt_id x = i) (List.map_filter as_interrupt (waits_values w))"

definition waits_timer :: "run_waits \<Rightarrow> timer_id \<Rightarrow> run_timer option" where
  "waits_timer w i = List.find (\<lambda>x. rt_timer_id x = i) (List.map_filter as_timer (waits_values w))"

definition from_remaining :: "run_wait list \<Rightarrow> timestamp \<Rightarrow> run_waits option" where
  "from_remaining vs at =
     (if vs = [] then None else Some \<lparr>waits_values = vs, waits_registered_at = at\<rparr>)"

definition without_interrupt :: "run_waits \<Rightarrow> interrupt_id \<Rightarrow> run_waits option" where
  "without_interrupt w i =
     from_remaining
       (filter (\<lambda>v. case as_interrupt v of None \<Rightarrow> True | Some x \<Rightarrow> ri_interrupt_id x \<noteq> i) (waits_values w))
       (waits_registered_at w)"

definition without_timer :: "run_waits \<Rightarrow> timer_id \<Rightarrow> run_waits option" where
  "without_timer w i =
     from_remaining
       (filter (\<lambda>v. case as_timer v of None \<Rightarrow> True | Some x \<Rightarrow> rt_timer_id x \<noteq> i) (waits_values w))
       (waits_registered_at w)"

section \<open>Terminal records\<close>

record 'p run_failure =
  rf_failure :: "'p failure"
  rf_completed_at :: timestamp
  rf_usage :: budget_usage

datatype run_failure_error = CancellationRequiresCancellationPath

definition run_failure_new ::
  "'p failure \<Rightarrow> timestamp \<Rightarrow> budget_usage \<Rightarrow> (run_failure_error, 'p run_failure) result" where
  "run_failure_new f completed usage =
     and_then (reject_if (fl_category f = CategoryCancelled) CancellationRequiresCancellationPath) (\<lambda>_.
     Inr \<lparr>rf_failure = f, rf_completed_at = completed, rf_usage = usage\<rparr>)"

record 'p cancellation_request =
  cr_failure :: "'p failure"
  cr_requested_at :: timestamp

datatype run_cancellation_error =
  CategoryNotCancelled failure_category
| RetryAdviceNotNever retry_advice
| CompletionBeforeRequest timestamp timestamp

definition cancellation_request_new ::
  "'p failure \<Rightarrow> timestamp \<Rightarrow> (run_cancellation_error, 'p cancellation_request) result" where
  "cancellation_request_new f requested =
     and_then (reject_if (fl_category f \<noteq> CategoryCancelled) (CategoryNotCancelled (fl_category f))) (\<lambda>_.
     and_then (reject_if (fl_retry_advice f \<noteq> Never) (RetryAdviceNotNever (fl_retry_advice f))) (\<lambda>_.
     Inr \<lparr>cr_failure = f, cr_requested_at = requested\<rparr>))"

record 'p run_cancellation =
  rc_request :: "'p cancellation_request"
  rc_completed_at :: timestamp
  rc_usage :: budget_usage

definition cancellation_new ::
  "'p cancellation_request \<Rightarrow> timestamp \<Rightarrow> budget_usage \<Rightarrow>
     (run_cancellation_error, 'p run_cancellation) result" where
  "cancellation_new request completed usage =
     and_then (reject_if (completed < cr_requested_at request)
                 (CompletionBeforeRequest (cr_requested_at request) completed)) (\<lambda>_.
     Inr \<lparr>rc_request = request, rc_completed_at = completed, rc_usage = usage\<rparr>)"

section \<open>The state machine\<close>

datatype 'p run_state =
  StPending
| StActive timestamp
| StWaiting run_waits timestamp
| StCancellationRequested "'p cancellation_request"
| StSucceeded "'p agent_result"
| StFailed "'p run_failure"
| StCancelled "'p run_cancellation"

fun state_status :: "'p run_state \<Rightarrow> run_status" where
  "state_status StPending = Pending"
| "state_status (StActive _) = Active"
| "state_status (StWaiting _ _) = Waiting"
| "state_status (StCancellationRequested _) = CancellationRequested"
| "state_status (StSucceeded _) = Succeeded"
| "state_status (StFailed _) = Failed"
| "state_status (StCancelled _) = Cancelled"

fun state_changed_at :: "timestamp \<Rightarrow> 'p run_state \<Rightarrow> timestamp" where
  "state_changed_at admitted StPending = admitted"
| "state_changed_at admitted (StActive activated) = activated"
| "state_changed_at admitted (StWaiting waits changed) = changed"
| "state_changed_at admitted (StCancellationRequested request) = cr_requested_at request"
| "state_changed_at admitted (StSucceeded r) = ar_completed_at r"
| "state_changed_at admitted (StFailed f) = rf_completed_at f"
| "state_changed_at admitted (StCancelled c) = rc_completed_at c"

record 'p run_lifecycle =
  lc_provenance :: "'p provenance"
  lc_admitted_at :: timestamp
  lc_revision :: run_revision
  lc_state :: "'p run_state"

definition lifecycle_admitted :: "'p provenance \<Rightarrow> timestamp \<Rightarrow> 'p run_lifecycle" where
  "lifecycle_admitted p at =
     \<lparr>lc_provenance = p, lc_admitted_at = at, lc_revision = revision_ZERO, lc_state = StPending\<rparr>"

abbreviation lc_status :: "'p run_lifecycle \<Rightarrow> run_status" where
  "lc_status l \<equiv> state_status (lc_state l)"

abbreviation lc_changed_at :: "'p run_lifecycle \<Rightarrow> timestamp" where
  "lc_changed_at l \<equiv> state_changed_at (lc_admitted_at l) (lc_state l)"

definition lc_waits :: "'p run_lifecycle \<Rightarrow> run_waits option" where
  "lc_waits l = (case lc_state l of StWaiting w _ \<Rightarrow> Some w | _ \<Rightarrow> None)"

definition lc_cancellation_request :: "'p run_lifecycle \<Rightarrow> 'p cancellation_request option" where
  "lc_cancellation_request l =
     (case lc_state l of
        StCancellationRequested request \<Rightarrow> Some request
      | StCancelled c \<Rightarrow> Some (rc_request c)
      | _ \<Rightarrow> None)"

definition lc_result :: "'p run_lifecycle \<Rightarrow> 'p agent_result option" where
  "lc_result l = (case lc_state l of StSucceeded r \<Rightarrow> Some r | _ \<Rightarrow> None)"

definition lc_terminal_failure :: "'p run_lifecycle \<Rightarrow> 'p failure option" where
  "lc_terminal_failure l =
     (case lc_state l of
        StFailed f \<Rightarrow> Some (rf_failure f)
      | StCancelled c \<Rightarrow> Some (cr_failure (rc_request c))
      | _ \<Rightarrow> None)"

definition lc_terminal_usage :: "'p run_lifecycle \<Rightarrow> budget_usage option" where
  "lc_terminal_usage l =
     (case lc_state l of
        StSucceeded r \<Rightarrow> Some (ar_usage r)
      | StFailed f \<Rightarrow> Some (rf_usage f)
      | StCancelled c \<Rightarrow> Some (rc_usage c)
      | _ \<Rightarrow> None)"

datatype run_transition_kind =
  KStart | KWait | KResolveInterrupt | KFireTimer | KRequestCancellation | KConfirmCancellation
| KSucceed | KFail

datatype 'p run_transition =
  Start timestamp
| Wait run_waits
| ResolveInterrupt interrupt_id timestamp
| FireTimer timer_id timestamp
| RequestCancellation "'p cancellation_request"
| ConfirmCancellation timestamp budget_usage
| Succeed "'p agent_result"
| Fail "'p run_failure"

fun transition_kind :: "'p run_transition \<Rightarrow> run_transition_kind" where
  "transition_kind (Start _) = KStart"
| "transition_kind (Wait _) = KWait"
| "transition_kind (ResolveInterrupt _ _) = KResolveInterrupt"
| "transition_kind (FireTimer _ _) = KFireTimer"
| "transition_kind (RequestCancellation _) = KRequestCancellation"
| "transition_kind (ConfirmCancellation _ _) = KConfirmCancellation"
| "transition_kind (Succeed _) = KSucceed"
| "transition_kind (Fail _) = KFail"

fun transition_changed_at :: "'p run_transition \<Rightarrow> timestamp" where
  "transition_changed_at (Start started) = started"
| "transition_changed_at (Wait waits) = waits_registered_at waits"
| "transition_changed_at (ResolveInterrupt _ resolved) = resolved"
| "transition_changed_at (FireTimer _ fired) = fired"
| "transition_changed_at (RequestCancellation request) = cr_requested_at request"
| "transition_changed_at (ConfirmCancellation completed _) = completed"
| "transition_changed_at (Succeed r) = ar_completed_at r"
| "transition_changed_at (Fail f) = rf_completed_at f"

fun transition_allowed :: "run_status \<Rightarrow> run_transition_kind \<Rightarrow> bool" where
  "transition_allowed Pending k \<longleftrightarrow> k \<in> {KStart, KRequestCancellation, KFail}"
| "transition_allowed Active k \<longleftrightarrow> k \<in> {KRequestCancellation, KFail, KWait, KSucceed}"
| "transition_allowed Waiting k \<longleftrightarrow> k \<in> {KRequestCancellation, KFail, KResolveInterrupt, KFireTimer}"
| "transition_allowed CancellationRequested k \<longleftrightarrow> k = KConfirmCancellation"
| "transition_allowed _ k \<longleftrightarrow> False"

datatype 'p run_transition_error =
  InvalidTransition run_status run_transition_kind
| ClockRegression timestamp timestamp
| InterruptNotOutstanding interrupt_id
| InterruptExpired interrupt_id timestamp timestamp
| TimerNotOutstanding timer_id
| TimerNotDue timer_id timestamp timestamp
| ResultProvenanceMismatch "'p provenance" "'p provenance"
| CancellationError run_cancellation_error
| RevisionOverflow

definition resolve_interrupt ::
  "run_waits \<Rightarrow> interrupt_id \<Rightarrow> timestamp \<Rightarrow> ('p run_transition_error, 'p run_state) result" where
  "resolve_interrupt waits i resolved =
     and_then (ok_or (waits_interrupt waits i) (InterruptNotOutstanding i)) (\<lambda>interrupt.
     and_then (case ri_expires_at interrupt of
         Some e \<Rightarrow> reject_if (resolved \<ge> e) (InterruptExpired i e resolved)
       | None \<Rightarrow> Inr ()) (\<lambda>_.
     Inr (case without_interrupt waits i of
         Some w \<Rightarrow> StWaiting w resolved
       | None \<Rightarrow> StActive resolved)))"

definition fire_timer ::
  "run_waits \<Rightarrow> timer_id \<Rightarrow> timestamp \<Rightarrow> ('p run_transition_error, 'p run_state) result" where
  "fire_timer waits i fired =
     and_then (ok_or (waits_timer waits i) (TimerNotOutstanding i)) (\<lambda>timer.
     and_then (reject_if (fired < rt_due_at timer) (TimerNotDue i (rt_due_at timer) fired)) (\<lambda>_.
     Inr (case without_timer waits i of
         Some w \<Rightarrow> StWaiting w fired
       | None \<Rightarrow> StActive fired)))"

definition apply_transition ::
  "'p provenance \<Rightarrow> 'p run_state \<Rightarrow> 'p run_transition \<Rightarrow>
     ('p run_transition_error, 'p run_state) result" where
  "apply_transition p st t =
     (case (st, t) of
        (StPending, Start started) \<Rightarrow> Inr (StActive started)
      | (StActive _, Wait waits) \<Rightarrow> Inr (StWaiting waits (waits_registered_at waits))
      | (StWaiting waits _, ResolveInterrupt i resolved) \<Rightarrow> resolve_interrupt waits i resolved
      | (StWaiting waits _, FireTimer i fired) \<Rightarrow> fire_timer waits i fired
      | (StPending, RequestCancellation request) \<Rightarrow> Inr (StCancellationRequested request)
      | (StActive _, RequestCancellation request) \<Rightarrow> Inr (StCancellationRequested request)
      | (StWaiting _ _, RequestCancellation request) \<Rightarrow> Inr (StCancellationRequested request)
      | (StCancellationRequested request, ConfirmCancellation completed usage) \<Rightarrow>
          map_ok StCancelled (map_err CancellationError (cancellation_new request completed usage))
      | (StActive _, Succeed r) \<Rightarrow>
          and_then (reject_if (ar_provenance r \<noteq> p) (ResultProvenanceMismatch p (ar_provenance r))) (\<lambda>_.
          Inr (StSucceeded r))
      | (StPending, Fail f) \<Rightarrow> Inr (StFailed f)
      | (StActive _, Fail f) \<Rightarrow> Inr (StFailed f)
      | (StWaiting _ _, Fail f) \<Rightarrow> Inr (StFailed f)
      | _ \<Rightarrow> Inl (InvalidTransition (state_status st) (transition_kind t)))"

definition run_apply ::
  "'p run_lifecycle \<Rightarrow> 'p run_transition \<Rightarrow> ('p run_transition_error, 'p run_lifecycle) result" where
  "run_apply l t =
     and_then (reject_if (\<not> transition_allowed (lc_status l) (transition_kind t))
                 (InvalidTransition (lc_status l) (transition_kind t))) (\<lambda>_.
     and_then (reject_if (transition_changed_at t < lc_changed_at l)
                 (ClockRegression (lc_changed_at l) (transition_changed_at t))) (\<lambda>_.
     and_then (apply_transition (lc_provenance l) (lc_state l) t) (\<lambda>next_state.
     and_then (ok_or (revision_checked_next (lc_revision l)) RevisionOverflow) (\<lambda>revision.
     Inr \<lparr>lc_provenance = lc_provenance l, lc_admitted_at = lc_admitted_at l,
          lc_revision = revision, lc_state = next_state\<rparr>))))"

datatype 'p run_lifecycle_error =
  PendingRevisionNotZero run_revision
| AdvancedStateAtZeroRevision run_status
| StateBeforeAdmission timestamp timestamp
| WaitingChangeBeforeRegistration timestamp timestamp
| SnapshotProvenanceMismatch "'p provenance" "'p provenance"

definition validate_snapshot :: "'p run_lifecycle \<Rightarrow> ('p run_lifecycle_error, unit) result" where
  "validate_snapshot l =
     and_then (reject_first
       [(lc_status l = Pending \<and> lc_revision l \<noteq> revision_ZERO, PendingRevisionNotZero (lc_revision l)),
        (lc_status l \<noteq> Pending \<and> lc_revision l = revision_ZERO, AdvancedStateAtZeroRevision (lc_status l)),
        (lc_changed_at l < lc_admitted_at l, StateBeforeAdmission (lc_admitted_at l) (lc_changed_at l))]) (\<lambda>_.
     and_then (case lc_state l of
         StWaiting waits changed \<Rightarrow>
           reject_if (changed < waits_registered_at waits)
             (WaitingChangeBeforeRegistration (waits_registered_at waits) changed)
       | _ \<Rightarrow> Inr ()) (\<lambda>_.
     (case lc_state l of
         StSucceeded r \<Rightarrow>
           reject_if (ar_provenance r \<noteq> lc_provenance l)
             (SnapshotProvenanceMismatch (lc_provenance l) (ar_provenance r))
       | _ \<Rightarrow> Inr ())))"

definition lifecycle_from_wire :: "'p run_lifecycle \<Rightarrow> ('p run_lifecycle_error, 'p run_lifecycle) result" where
  "lifecycle_from_wire w = and_then (validate_snapshot w) (\<lambda>_. Inr w)"

section \<open>Batches of waits\<close>

definition waits_wf :: "run_waits \<Rightarrow> bool" where
  "waits_wf w \<longleftrightarrow>
     waits_values w \<noteq> [] \<and> length (waits_values w) \<le> WAITS_MAX_LEN \<and>
     distinct (map identity_uuid (waits_values w)) \<and>
     (\<forall>v\<in>set (waits_values w). wait_registered_at v = waits_registered_at w)"

definition batch_time :: "run_wait list \<Rightarrow> timestamp option" where
  "batch_time vs = (if vs = [] then None else Some (wait_registered_at (hd vs)))"

definition batch_ok :: "run_wait list \<Rightarrow> bool" where
  "batch_ok vs \<longleftrightarrow>
     length vs \<le> WAITS_MAX_LEN \<and> distinct (map identity_uuid vs) \<and>
     (\<forall>v\<in>set vs. batch_time vs = Some (wait_registered_at v))"

lemma list_ex_key: "list_ex (\<lambda>w. f w = y) xs \<longleftrightarrow> y \<in> f ` set xs"
  by (induction xs) auto

lemma collect_wait_iff:
  "collect_wait (vs, batch_time vs) v = Inr s \<longleftrightarrow>
     length vs \<noteq> WAITS_MAX_LEN \<and> (vs \<noteq> [] \<longrightarrow> wait_registered_at v = wait_registered_at (hd vs)) \<and>
     identity_uuid v \<notin> identity_uuid ` set vs \<and> s = (vs @ [v], batch_time (vs @ [v]))"
  by (cases vs) (auto simp: collect_wait_def batch_time_def result_simps list_ex_key Let_def)

lemma collect_loop_iff:
  "try_fold collect_wait ([], None) vs = Inr s \<longleftrightarrow> batch_ok vs \<and> s = (vs, batch_time vs)"
proof (induction vs arbitrary: s rule: rev_induct)
  case Nil
  then show ?case by (auto simp: batch_ok_def batch_time_def)
next
  case (snoc v vs)
  have "try_fold collect_wait ([], None) (vs @ [v]) = Inr s \<longleftrightarrow>
      batch_ok vs \<and> collect_wait (vs, batch_time vs) v = Inr s"
    by (cases s) (auto simp: try_fold_append and_then_Inr_iff snoc.IH)
  also have "\<dots> \<longleftrightarrow> batch_ok (vs @ [v]) \<and> s = (vs @ [v], batch_time (vs @ [v]))"
  proof (cases vs)
    case Nil
    then show ?thesis
      using collect_wait_iff [of "[]" v s] by (simp add: batch_ok_def batch_time_def WAITS_MAX_LEN_def)
  next
    case (Cons u us)
    then have t: "batch_time (vs @ [v]) = Some (wait_registered_at u)" "batch_time vs = Some (wait_registered_at u)"
      by (simp_all add: batch_time_def)
    show ?thesis
      unfolding collect_wait_iff unfolding batch_ok_def t using Cons by (auto simp: WAITS_MAX_LEN_def)
  qed
  finally show ?case .
qed

lemma waits_try_new_iff:
  "waits_try_new vs = Inr w \<longleftrightarrow> waits_values w = vs \<and> waits_wf w"
proof -
  have "waits_try_new vs = Inr w \<longleftrightarrow> batch_ok vs \<and> batch_time vs = Some (waits_registered_at w) \<and> waits_values w = vs"
    by (cases w) (auto simp: waits_try_new_def and_then_Inr_iff collect_loop_iff ok_or_Inr_iff)
  also have "\<dots> \<longleftrightarrow> waits_values w = vs \<and> waits_wf w"
    by (cases vs) (auto simp: batch_ok_def batch_time_def waits_wf_def)
  finally show ?thesis .
qed

lemma find_interrupt_iff:
  "distinct (map identity_uuid vs) \<Longrightarrow>
     List.find (\<lambda>x. ri_interrupt_id x = i) (List.map_filter as_interrupt vs) = Some x \<longleftrightarrow>
       Interrupt x \<in> set vs \<and> ri_interrupt_id x = i"
proof (induction vs)
  case (Cons v vs)
  show ?case
  proof (cases v)
    case (Interrupt j)
    have "ri_interrupt_id x \<noteq> ri_interrupt_id j" if "Interrupt x \<in> set vs"
    proof -
      have "identity_uuid (Interrupt x) \<in> identity_uuid ` set vs" using that by (rule imageI)
      then show ?thesis using Cons.prems Interrupt by auto
    qed
    then show ?thesis
      using Cons Interrupt by (auto simp: List.map_filter_simps)
  qed (use Cons in \<open>auto simp: List.map_filter_simps\<close>)
qed (simp add: List.map_filter_simps)

lemma find_timer_iff:
  "distinct (map identity_uuid vs) \<Longrightarrow>
     List.find (\<lambda>x. rt_timer_id x = i) (List.map_filter as_timer vs) = Some x \<longleftrightarrow>
       Timer x \<in> set vs \<and> rt_timer_id x = i"
proof (induction vs)
  case (Cons v vs)
  show ?case
  proof (cases v)
    case (Timer j)
    have "rt_timer_id x \<noteq> rt_timer_id j" if "Timer x \<in> set vs"
    proof -
      have "identity_uuid (Timer x) \<in> identity_uuid ` set vs" using that by (rule imageI)
      then show ?thesis using Cons.prems Timer by auto
    qed
    then show ?thesis
      using Cons Timer by (auto simp: List.map_filter_simps)
  qed (use Cons in \<open>auto simp: List.map_filter_simps\<close>)
qed (simp add: List.map_filter_simps)

lemma waits_interrupt_iff:
  "waits_wf w \<Longrightarrow> waits_interrupt w i = Some x \<longleftrightarrow>
     Interrupt x \<in> set (waits_values w) \<and> ri_interrupt_id x = i"
  by (simp add: waits_interrupt_def waits_wf_def find_interrupt_iff)

lemma waits_timer_iff:
  "waits_wf w \<Longrightarrow> waits_timer w i = Some x \<longleftrightarrow> Timer x \<in> set (waits_values w) \<and> rt_timer_id x = i"
  by (simp add: waits_timer_def waits_wf_def find_timer_iff)

lemma from_remaining_wf:
  assumes "waits_wf w" and "from_remaining (filter p (waits_values w)) (waits_registered_at w) = Some u"
  shows "waits_wf u" and "waits_registered_at u = waits_registered_at w"
    and "waits_values u = filter p (waits_values w)"
proof -
  have "length (filter p (waits_values w)) \<le> WAITS_MAX_LEN"
    using assms(1) length_filter_le order_trans unfolding waits_wf_def by blast
  then show "waits_wf u" "waits_registered_at u = waits_registered_at w"
      "waits_values u = filter p (waits_values w)"
    using assms by (auto simp: from_remaining_def waits_wf_def distinct_map_filter split: if_splits)
qed

section \<open>Steps and their invariant\<close>

definition request_wf :: "'p cancellation_request \<Rightarrow> bool" where
  "request_wf r \<longleftrightarrow> is_ok (cancellation_request_new (cr_failure r) (cr_requested_at r))"

definition run_failure_wf :: "'p run_failure \<Rightarrow> bool" where
  "run_failure_wf f \<longleftrightarrow> is_ok (run_failure_new (rf_failure f) (rf_completed_at f) (rf_usage f))"

fun transition_wf :: "'p run_transition \<Rightarrow> bool" where
  "transition_wf (Wait w) \<longleftrightarrow> waits_wf w"
| "transition_wf (RequestCancellation r) \<longleftrightarrow> request_wf r"
| "transition_wf (Fail f) \<longleftrightarrow> run_failure_wf f"
| "transition_wf _ \<longleftrightarrow> True"

fun state_wf :: "'p run_state \<Rightarrow> bool" where
  "state_wf (StWaiting w _) \<longleftrightarrow> waits_wf w"
| "state_wf (StCancellationRequested r) \<longleftrightarrow> request_wf r"
| "state_wf (StFailed f) \<longleftrightarrow> run_failure_wf f"
| "state_wf (StCancelled c) \<longleftrightarrow> request_wf (rc_request c) \<and> cr_requested_at (rc_request c) \<le> rc_completed_at c"
| "state_wf _ \<longleftrightarrow> True"

definition lifecycle_wf :: "'p run_lifecycle \<Rightarrow> bool" where
  "lifecycle_wf l \<longleftrightarrow> is_ok (validate_snapshot l) \<and> state_wf (lc_state l)"

inductive run_step :: "'p run_lifecycle \<Rightarrow> 'p run_lifecycle \<Rightarrow> bool" where
  "transition_wf t \<Longrightarrow> run_apply l t = Inr m \<Longrightarrow> run_step l m"

inductive_cases run_stepE: "run_step l m"

abbreviation revision_of :: "'p run_lifecycle \<Rightarrow> nat" where
  "revision_of l \<equiv> executions (revision_count (lc_revision l))"

lemma revision_next_iff:
  "revision_checked_next r = Some n \<longleftrightarrow>
     executions (revision_count n) = Suc (executions (revision_count r))"
  by (cases n) (auto simp: revision_checked_next_def ec.add_Some_iff)

lemma revision_next_room:
  "(\<exists>n. revision_checked_next r = Some n) \<longleftrightarrow> executions (revision_count r) < 2 ^ 64 - 1"
proof -
  have "(\<exists>n. revision_checked_next r = Some n) \<longleftrightarrow> revision_checked_next r \<noteq> None" by simp
  also have "\<dots> \<longleftrightarrow> executions (revision_count r) < 2 ^ 64 - 1"
    by (auto simp: revision_checked_next_def ec.add_None_iff)
  finally show ?thesis .
qed

lemma run_apply_iff:
  "run_apply l t = Inr m \<longleftrightarrow>
     transition_allowed (lc_status l) (transition_kind t) \<and> lc_changed_at l \<le> transition_changed_at t \<and>
     apply_transition (lc_provenance l) (lc_state l) t = Inr (lc_state m) \<and>
     revision_of m = Suc (revision_of l) \<and>
     lc_provenance m = lc_provenance l \<and> lc_admitted_at m = lc_admitted_at l"
  by (cases m) (auto simp: run_apply_def result_simps revision_next_iff not_less)

lemma run_apply_exists:
  assumes "transition_allowed (lc_status l) (transition_kind t)" and "lc_changed_at l \<le> transition_changed_at t"
    and "apply_transition (lc_provenance l) (lc_state l) t = Inr st" and "revision_of l < 2 ^ 64 - 1"
  shows "\<exists>m. run_apply l t = Inr m \<and> lc_state m = st"
proof -
  obtain n where n: "revision_checked_next (lc_revision l) = Some n" using assms(4) revision_next_room by blast
  have "\<not> transition_changed_at t < lc_changed_at l" using assms(2) by simp
  then show ?thesis unfolding run_apply_def assms(3) n using assms(1) by simp
qed

lemma snapshot_ok_iff:
  "is_ok (validate_snapshot l) \<longleftrightarrow>
     (lc_status l = Pending \<longleftrightarrow> revision_of l = 0) \<and> lc_admitted_at l \<le> lc_changed_at l \<and>
     (\<forall>w c. lc_state l = StWaiting w c \<longrightarrow> waits_registered_at w \<le> c) \<and>
     (\<forall>r. lc_state l = StSucceeded r \<longrightarrow> ar_provenance r = lc_provenance l)"
proof -
  have "lc_revision l = revision_ZERO \<longleftrightarrow> revision_of l = 0"
    by (cases "lc_revision l") (simp add: revision_ZERO_def ec.amount_eq_iff ec.amount_zero)
  then show ?thesis
    by (cases "lc_state l") (auto simp: validate_snapshot_def ok_simps reject_first_Inr_iff reject_if_Inr_iff not_less)
qed

lemma resolve_interrupt_iff:
  assumes "waits_wf w"
  shows "resolve_interrupt w i at = Inr st \<longleftrightarrow>
    (\<exists>x. Interrupt x \<in> set (waits_values w) \<and> ri_interrupt_id x = i \<and>
      (\<forall>e. ri_expires_at x = Some e \<longrightarrow> at < e)) \<and>
    st = (case without_interrupt w i of Some u \<Rightarrow> StWaiting u at | None \<Rightarrow> StActive at)"
  by (auto simp: resolve_interrupt_def result_simps waits_interrupt_iff [OF assms] not_le
      split: option.splits)

lemma fire_timer_iff:
  assumes "waits_wf w"
  shows "fire_timer w i at = Inr st \<longleftrightarrow>
    (\<exists>x. Timer x \<in> set (waits_values w) \<and> rt_timer_id x = i \<and> rt_due_at x \<le> at) \<and>
    st = (case without_timer w i of Some u \<Rightarrow> StWaiting u at | None \<Rightarrow> StActive at)"
  by (auto simp: fire_timer_def result_simps waits_timer_iff [OF assms] not_less)

lemma remaining_state:
  assumes "waits_wf w"
    and "st = (case from_remaining (filter p (waits_values w)) (waits_registered_at w) of
      Some u \<Rightarrow> StWaiting u at | None \<Rightarrow> StActive at)"
  shows "state_wf st \<and> state_changed_at adm st = at \<and> state_status st \<in> {Waiting, Active} \<and>
    (\<forall>u c. st = StWaiting u c \<longrightarrow> waits_registered_at u = waits_registered_at w \<and> c = at)"
proof (cases "from_remaining (filter p (waits_values w)) (waits_registered_at w)")
  case None
  then show ?thesis using assms(2) by simp
next
  case (Some u)
  show ?thesis
    using from_remaining_wf(1,2) [OF assms(1) Some] assms(2) Some by simp
qed

text \<open>The lifecycle graph the sources document, over statuses only.\<close>

inductive status_step :: "run_status \<Rightarrow> run_status \<Rightarrow> bool" where
  start: "status_step Pending Active"
| suspend: "status_step Active Waiting"
| resolve_some: "status_step Waiting Waiting"
| resolve_last: "status_step Waiting Active"
| succeed: "status_step Active Succeeded"
| request: "s \<in> {Pending, Active, Waiting} \<Longrightarrow> status_step s CancellationRequested"
| fail: "s \<in> {Pending, Active, Waiting} \<Longrightarrow> status_step s Failed"
| confirm: "status_step CancellationRequested Cancelled"

inductive_simps status_step_iff: "status_step s t"

lemma cancellation_new_iff:
  "cancellation_new r t u = Inr c \<longleftrightarrow>
     cr_requested_at r \<le> t \<and> c = \<lparr>rc_request = r, rc_completed_at = t, rc_usage = u\<rparr>"
  by (auto simp: cancellation_new_def result_simps not_less)

text \<open>What one transition makes of a state, whatever the transition.\<close>

definition follows :: "'p provenance \<Rightarrow> run_status \<Rightarrow> timestamp \<Rightarrow> 'p run_state \<Rightarrow> bool" where
  "follows p s at st \<longleftrightarrow>
     state_wf st \<and> (\<forall>adm. state_changed_at adm st = at) \<and> status_step s (state_status st) \<and>
     (\<forall>w c. st = StWaiting w c \<longrightarrow> waits_registered_at w \<le> c) \<and>
     (\<forall>r. st = StSucceeded r \<longrightarrow> ar_provenance r = p)"

lemma resolution_follows:
  assumes "waits_wf w" and "waits_registered_at w \<le> at"
    and "st = (case from_remaining (filter q (waits_values w)) (waits_registered_at w) of
      Some u \<Rightarrow> StWaiting u at | None \<Rightarrow> StActive at)"
  shows "follows p Waiting at st"
  using remaining_state [OF assms(1,3)] assms(2)
  by (cases st) (auto simp: follows_def status_step_iff)

lemma apply_transition_follows:
  assumes ok: "apply_transition p st t = Inr st'" and wf: "state_wf st" "transition_wf t"
    and past: "\<And>w c. st = StWaiting w c \<Longrightarrow> waits_registered_at w \<le> transition_changed_at t"
  shows "follows p (state_status st) (transition_changed_at t) st'"
proof (cases t)
  case (ResolveInterrupt i at)
  then obtain w c where st: "st = StWaiting w c" and r: "resolve_interrupt w i at = Inr st'"
    using ok by (cases st) (auto simp: apply_transition_def)
  show ?thesis
    unfolding st ResolveInterrupt state_status.simps transition_changed_at.simps
    using r wf(1) past [OF st] st ResolveInterrupt
    by (intro resolution_follows) (auto simp: resolve_interrupt_iff without_interrupt_def)
next
  case (FireTimer i at)
  then obtain w c where st: "st = StWaiting w c" and r: "fire_timer w i at = Inr st'"
    using ok by (cases st) (auto simp: apply_transition_def)
  show ?thesis
    unfolding st FireTimer state_status.simps transition_changed_at.simps
    using r wf(1) past [OF st] st FireTimer
    by (intro resolution_follows) (auto simp: fire_timer_iff without_timer_def)
qed (use ok wf in \<open>(cases st; force simp: apply_transition_def result_simps cancellation_new_iff status_step_iff follows_def)+\<close>)

lemma run_apply_follows:
  assumes "run_apply l t = Inr m" and "lifecycle_wf l" and "transition_wf t"
  shows "follows (lc_provenance l) (lc_status l) (transition_changed_at t) (lc_state m)"
proof (rule apply_transition_follows)
  show "waits_registered_at w \<le> transition_changed_at t" if "lc_state l = StWaiting w c" for w c
    using assms(1,2) that
    by (auto simp: run_apply_iff lifecycle_wf_def snapshot_ok_iff intro: order_trans)
qed (use assms in \<open>auto simp: run_apply_iff lifecycle_wf_def\<close>)

lemma run_apply_wf:
  assumes "run_apply l t = Inr m" and "lifecycle_wf l" and "transition_wf t"
  shows "lifecycle_wf m"
proof -
  have "lc_status m \<noteq> Pending" "lc_changed_at m = transition_changed_at t"
    using run_apply_follows [OF assms] by (auto simp: follows_def status_step_iff)
  then show ?thesis
    using run_apply_follows [OF assms] assms(1,2)
    by (auto simp: lifecycle_wf_def snapshot_ok_iff run_apply_iff follows_def)
qed

lemma lifecycle_admitted_wf: "lifecycle_wf (lifecycle_admitted p at)"
  by (simp add: lifecycle_wf_def snapshot_ok_iff lifecycle_admitted_def revision_ZERO_def ec.amount_zero)

lemma run_step_facts:
  assumes "run_step l m" and "lifecycle_wf l"
  shows "lifecycle_wf m" and "revision_of m = Suc (revision_of l)"
    and "lc_provenance m = lc_provenance l" and "lc_admitted_at m = lc_admitted_at l"
    and "lc_changed_at l \<le> lc_changed_at m" and "status_step (lc_status l) (lc_status m)"
proof -
  from assms(1) obtain t where t: "transition_wf t" "run_apply l t = Inr m" by (rule run_stepE)
  note f = run_apply_follows [OF t(2) assms(2) t(1)]
  show "lifecycle_wf m" using run_apply_wf [OF t(2) assms(2) t(1)] .
  show "revision_of m = Suc (revision_of l)" "lc_provenance m = lc_provenance l"
      "lc_admitted_at m = lc_admitted_at l" "lc_changed_at l \<le> lc_changed_at m"
      "status_step (lc_status l) (lc_status m)"
    using f t(2) by (auto simp: run_apply_iff follows_def)
qed

interpretation runs: counting_machine run_step lifecycle_wf revision_of
  by unfold_locales (simp_all add: run_step_facts(1,2))

lemma terminal_no_step: "is_terminal (lc_status l) \<Longrightarrow> \<not> run_step l m"
  by (cases "lc_state l") (auto simp: is_terminal_def run_apply_iff elim!: run_stepE)

lemma terminal_reach: "rtranclp run_step l m \<Longrightarrow> is_terminal (lc_status l) \<Longrightarrow> m = l"
  by (induction rule: converse_rtranclp_induct) (auto simp: terminal_no_step)

text \<open>The exact condition of a transition beyond the table and the clock.\<close>

fun transition_guard :: "'p run_lifecycle \<Rightarrow> 'p run_transition \<Rightarrow> bool" where
  "transition_guard l (ResolveInterrupt i at) \<longleftrightarrow>
     (\<exists>w x. lc_waits l = Some w \<and> Interrupt x \<in> set (waits_values w) \<and> ri_interrupt_id x = i \<and>
        (\<forall>e. ri_expires_at x = Some e \<longrightarrow> at < e))"
| "transition_guard l (FireTimer i at) \<longleftrightarrow>
     (\<exists>w x. lc_waits l = Some w \<and> Timer x \<in> set (waits_values w) \<and> rt_timer_id x = i \<and> rt_due_at x \<le> at)"
| "transition_guard l (Succeed r) \<longleftrightarrow> ar_provenance r = lc_provenance l"
| "transition_guard l _ \<longleftrightarrow> True"

lemma apply_transition_ok_iff:
  assumes "state_wf (lc_state l)" and "transition_allowed (lc_status l) (transition_kind t)"
    and "lc_changed_at l \<le> transition_changed_at t"
  shows "is_ok (apply_transition (lc_provenance l) (lc_state l) t) \<longleftrightarrow> transition_guard l t"
  using assms
  by (cases "lc_state l"; cases t)
    (auto simp: apply_transition_def is_ok_iff result_simps cancellation_new_iff lc_waits_def
      resolve_interrupt_iff fire_timer_iff)

lemma run_apply_ok_iff:
  assumes "lifecycle_wf l"
  shows "is_ok (run_apply l t) \<longleftrightarrow>
    transition_allowed (lc_status l) (transition_kind t) \<and> lc_changed_at l \<le> transition_changed_at t \<and>
    transition_guard l t \<and> revision_of l < 2 ^ 64 - 1"
proof -
  have "(\<exists>n. revision_checked_next (lc_revision l) = Some n) \<longleftrightarrow> revision_of l < 2 ^ 64 - 1"
    by (auto simp: revision_next_room)
  moreover have "state_wf (lc_state l)" using assms by (simp add: lifecycle_wf_def)
  ultimately show ?thesis
    using apply_transition_ok_iff [of l t]
    by (auto simp: run_apply_def ok_simps result_simps not_less)
qed

section \<open>Settling waits\<close>

fun settle :: "timestamp \<Rightarrow> run_wait \<Rightarrow> 'p run_transition" where
  "settle at (Interrupt x) = ResolveInterrupt (ri_interrupt_id x) at"
| "settle at (Timer x) = FireTimer (rt_timer_id x) at"

fun settleable :: "timestamp \<Rightarrow> run_wait \<Rightarrow> bool" where
  "settleable at (Interrupt x) \<longleftrightarrow> (\<forall>e. ri_expires_at x = Some e \<longrightarrow> at < e)"
| "settleable at (Timer x) \<longleftrightarrow> rt_due_at x \<le> at"

lemma settle_simps [simp]:
  "transition_changed_at (settle at v) = at" "transition_wf (settle at v)"
  "transition_kind (settle at v) = KResolveInterrupt \<or> transition_kind (settle at v) = KFireTimer"
  "transition_kind (settle at v) \<noteq> KRequestCancellation" "transition_kind (settle at v) \<noteq> KFail"
  "transition_kind (settle at v) \<noteq> KWait" "transition_kind (settle at v) \<noteq> KSucceed"
  by (cases v; simp)+

lemma waits_identity:
  "waits_wf w \<Longrightarrow> u \<in> set (waits_values w) \<Longrightarrow> v \<in> set (waits_values w) \<Longrightarrow>
     identity_uuid u = identity_uuid v \<Longrightarrow> u = v"
  by (auto simp: waits_wf_def distinct_map dest: inj_onD)

lemma without_interrupt_member:
  assumes "waits_wf w" and "Interrupt x \<in> set (waits_values w)"
  shows "without_interrupt w (ri_interrupt_id x) =
    from_remaining (filter (\<lambda>u. u \<noteq> Interrupt x) (waits_values w)) (waits_registered_at w)"
proof -
  have "(case as_interrupt u of None \<Rightarrow> True | Some y \<Rightarrow> ri_interrupt_id y \<noteq> ri_interrupt_id x) \<longleftrightarrow>
      u \<noteq> Interrupt x" if "u \<in> set (waits_values w)" for u
    using waits_identity [OF assms(1) that assms(2)] by (cases u) auto
  then show ?thesis by (simp add: without_interrupt_def cong: filter_cong)
qed

lemma without_timer_member:
  assumes "waits_wf w" and "Timer x \<in> set (waits_values w)"
  shows "without_timer w (rt_timer_id x) =
    from_remaining (filter (\<lambda>u. u \<noteq> Timer x) (waits_values w)) (waits_registered_at w)"
proof -
  have "(case as_timer u of None \<Rightarrow> True | Some y \<Rightarrow> rt_timer_id y \<noteq> rt_timer_id x) \<longleftrightarrow>
      u \<noteq> Timer x" if "u \<in> set (waits_values w)" for u
    using waits_identity [OF assms(1) that assms(2)] by (cases u) auto
  then show ?thesis by (simp add: without_timer_def cong: filter_cong)
qed

lemma filter_other_empty:
  "distinct xs \<Longrightarrow> v \<in> set xs \<Longrightarrow> filter (\<lambda>u. u \<noteq> v) xs = [] \<longleftrightarrow> xs = [v]"
  by (cases xs rule: remdups_adj.cases) (auto simp: filter_empty_conv)

definition settled :: "run_waits \<Rightarrow> run_wait \<Rightarrow> timestamp \<Rightarrow> 'p run_state" where
  "settled w v at =
     (if waits_values w = [v] then StActive at
      else StWaiting (w\<lparr>waits_values := filter (\<lambda>u. u \<noteq> v) (waits_values w)\<rparr>) at)"

lemma settle_state_iff:
  assumes "waits_wf w" and "v \<in> set (waits_values w)"
  shows "apply_transition p (StWaiting w c) (settle at v) = Inr st \<longleftrightarrow> settleable at v \<and> st = settled w v at"
proof -
  have d: "distinct (waits_values w)" using assms(1) by (auto simp: waits_wf_def distinct_map)
  note e = filter_other_empty [OF d assms(2)]
  show ?thesis
  proof (cases v)
    case (Interrupt x)
    then have unique: "\<And>y. Interrupt y \<in> set (waits_values w) \<Longrightarrow> ri_interrupt_id y = ri_interrupt_id x \<Longrightarrow> y = x"
      using waits_identity [OF assms(1) _ assms(2)] by fastforce
    from Interrupt have "(\<exists>y. Interrupt y \<in> set (waits_values w) \<and> ri_interrupt_id y = ri_interrupt_id x \<and>
        (\<forall>e. ri_expires_at y = Some e \<longrightarrow> at < e)) \<longleftrightarrow> settleable at v"
      using unique assms(2) by auto
    then show ?thesis
      using e assms Interrupt
      by (auto simp: apply_transition_def resolve_interrupt_iff without_interrupt_member
          from_remaining_def settled_def)
  next
    case (Timer x)
    then have unique: "\<And>y. Timer y \<in> set (waits_values w) \<Longrightarrow> rt_timer_id y = rt_timer_id x \<Longrightarrow> y = x"
      using waits_identity [OF assms(1) _ assms(2)] by fastforce
    from Timer have "(\<exists>y. Timer y \<in> set (waits_values w) \<and> rt_timer_id y = rt_timer_id x \<and> rt_due_at y \<le> at) \<longleftrightarrow>
        settleable at v"
      using unique assms(2) by auto
    then show ?thesis
      using e assms Timer
      by (auto simp: apply_transition_def fire_timer_iff without_timer_member
          from_remaining_def settled_def)
  qed
qed

lemma settle_ok:
  assumes "lifecycle_wf l" and "lc_state l = StWaiting w c" and "v \<in> set (waits_values w)"
    and "settleable at v" and "c \<le> at" and "revision_of l < 2 ^ 64 - 1"
  shows "\<exists>m. run_apply l (settle at v) = Inr m \<and> lc_state m = settled w v at \<and>
    revision_of m = Suc (revision_of l) \<and> lifecycle_wf m"
proof -
  have w: "waits_wf w" using assms(1,2) by (simp add: lifecycle_wf_def)
  have "apply_transition (lc_provenance l) (lc_state l) (settle at v) = Inr (settled w v at)"
    using assms(2,4) by (simp add: settle_state_iff [OF w assms(3)])
  then obtain m where m: "run_apply l (settle at v) = Inr m" "lc_state m = settled w v at"
    using run_apply_exists [of l "settle at v"] assms(2,5,6) by auto
  moreover have "lifecycle_wf m" using run_apply_wf [OF m(1) assms(1)] by simp
  moreover have "revision_of m = Suc (revision_of l)" using m(1) by (simp add: run_apply_iff)
  ultimately show ?thesis by blast
qed

lemma settle_all:
  assumes "lifecycle_wf l" and "lc_state l = StWaiting w c" and "c \<le> at"
    and "mset vs = mset (waits_values w)" and "\<forall>v\<in>set vs. settleable at v"
    and "revision_of l + length vs < 2 ^ 64"
  shows "\<exists>m. try_fold run_apply l (map (settle at) vs) = Inr m \<and> lc_state m = StActive at \<and>
    revision_of m = revision_of l + length vs"
  using assms
proof (induction vs arbitrary: l w c)
  case Nil
  then show ?case by (simp add: lifecycle_wf_def waits_wf_def)
next
  case (Cons v vs)
  have w: "waits_wf w" using Cons.prems(1,2) by (simp add: lifecycle_wf_def)
  have v: "v \<in> set (waits_values w)" using Cons.prems(4) by (metis list.set_intros(1) set_mset_mset)
  obtain m where m: "run_apply l (settle at v) = Inr m" "lc_state m = settled w v at"
      "revision_of m = Suc (revision_of l)" "lifecycle_wf m"
    using settle_ok [OF Cons.prems(1,2) v _ Cons.prems(3)] Cons.prems(5,6) by auto
  have "distinct (waits_values w)" using w by (auto simp: waits_wf_def distinct_map)
  then have "distinct (v # vs)" using mset_eq_imp_distinct_iff [OF Cons.prems(4)] by simp
  then have "filter (\<lambda>u. u \<noteq> v) (v # vs) = vs" by (auto intro: filter_True)
  then have rest: "mset vs = mset (filter (\<lambda>u. u \<noteq> v) (waits_values w))"
    unfolding mset_filter Cons.prems(4) [symmetric] by (simp flip: mset_filter)
  have fold: "try_fold run_apply l (map (settle at) (v # vs)) = try_fold run_apply m (map (settle at) vs)"
    using m(1) by simp
  show ?case
  proof (cases "waits_values w = [v]")
    case True
    then show ?thesis unfolding fold using m rest by (simp add: settled_def)
  next
    case False
    define u where "u = w\<lparr>waits_values := filter (\<lambda>u. u \<noteq> v) (waits_values w)\<rparr>"
    have st: "lc_state m = StWaiting u at" using m(2) False by (simp add: settled_def u_def)
    have "mset vs = mset (waits_values u)" using rest by (simp add: u_def)
    moreover have "\<forall>v\<in>set vs. settleable at v" "revision_of m + length vs < 2 ^ 64"
      using Cons.prems(5,6) m(3) by auto
    ultimately show ?thesis
      unfolding fold using Cons.IH [OF m(4) st order_refl] m(3) by simp
  qed
qed

lemma cancellation_path:
  fixes l :: "'p run_lifecycle" and r :: "'p cancellation_request"
  assumes wf: "lifecycle_wf l" and open_run: "\<not> is_terminal (lc_status l)"
    and room: "revision_of l + 2 < 2 ^ 64" and r: "request_wf r" "lc_changed_at l \<le> cr_requested_at r"
    and t: "cr_requested_at r \<le> t"
  shows "\<exists>m. rtranclp run_step l m \<and> lc_status m = Cancelled"
proof -
  have confirm: "\<exists>m. run_step k m \<and> lc_status m = Cancelled"
    if k: "lc_state k = StCancellationRequested q" "cr_requested_at q \<le> t" "revision_of k < 2 ^ 64 - 1" for k q
  proof -
    have "\<exists>m. run_apply k (ConfirmCancellation t usage_zero) = Inr m \<and>
        lc_state m = StCancelled \<lparr>rc_request = q, rc_completed_at = t, rc_usage = usage_zero\<rparr>"
      using k by (intro run_apply_exists)
        (simp_all add: apply_transition_def result_simps cancellation_new_iff)
    then obtain m where m: "run_apply k (ConfirmCancellation t usage_zero) = Inr m" "lc_status m = Cancelled"
      by auto
    then show ?thesis by (auto intro!: exI [of _ m] run_step.intros [of "ConfirmCancellation t usage_zero"])
  qed
  show ?thesis
  proof (cases "lc_status l = CancellationRequested")
    case True
    then obtain q where q: "lc_state l = StCancellationRequested q" by (cases "lc_state l") auto
    have "cr_requested_at q \<le> t" using q r(2) t by simp
    moreover have "revision_of l < 2 ^ 64 - 1" using room by simp
    ultimately show ?thesis using confirm [OF q] by blast
  next
    case False
    have "revision_of l < 2 ^ 64 - 1" using room by simp
    moreover have "transition_allowed (lc_status l) KRequestCancellation"
      using False open_run by (cases "lc_status l") (auto simp: is_terminal_def)
    ultimately have "is_ok (run_apply l (RequestCancellation r))"
      using wf r(2) by (simp add: run_apply_ok_iff)
    then obtain k where k: "run_apply l (RequestCancellation r) = Inr k" by (auto simp: is_ok_iff)
    then have "run_step l k" using r(1) by (auto intro: run_step.intros [of "RequestCancellation r"])
    moreover have "lc_state k = StCancellationRequested r" "revision_of k < 2 ^ 64 - 1"
      using k room by (cases "lc_state l"; auto simp: run_apply_iff apply_transition_def)+
    ultimately show ?thesis using confirm [of k r] t by (blast intro: converse_rtranclp_into_rtranclp)
  qed
qed

section \<open>A sample run\<close>

definition sample_provenance :: "nat provenance" where
  "sample_provenance = \<lparr>pv_tenant_id = TenantId ''acme'', pv_run_id = RunId 1, pv_thread_id = ThreadId 2,
     pv_invocation_id = InvocationId 3, pv_agent = 0\<rparr>"

definition sample_interrupt :: run_wait where
  "sample_interrupt = Interrupt \<lparr>ri_interrupt_id = InterruptId 8, ri_kind = Approval,
     ri_requested_at = Timestamp 20, ri_expires_at = Some (Timestamp 90)\<rparr>"

definition sample_timer :: run_wait where
  "sample_timer = Timer \<lparr>rt_timer_id = TimerId 7, rt_kind = Sleep,
     rt_scheduled_at = Timestamp 20, rt_due_at = Timestamp 50\<rparr>"

definition sample_waits :: run_waits where
  "sample_waits = \<lparr>waits_values = [sample_interrupt, sample_timer], waits_registered_at = Timestamp 20\<rparr>"

definition sample_run :: "u64 \<Rightarrow> nat run_state \<Rightarrow> nat run_lifecycle" where
  "sample_run n st = \<lparr>lc_provenance = sample_provenance, lc_admitted_at = Timestamp 0,
     lc_revision = RunRevision (ExecutionCount n), lc_state = st\<rparr>"

definition sample_request :: "nat cancellation_request" where
  "sample_request = \<lparr>cr_failure = \<lparr>fl_id = FailureId 9, fl_category = CategoryCancelled, fl_code = ''user.stop'',
     fl_origin = ''api'', fl_message = [115], fl_retry_advice = Never, fl_details = None,
     fl_caused_by_event_id = None\<rparr>, cr_requested_at = Timestamp 30\<rparr>"

definition sample_cancellation :: "nat run_cancellation" where
  "sample_cancellation = \<lparr>rc_request = sample_request, rc_completed_at = Timestamp 40, rc_usage = usage_zero\<rparr>"

abbreviation sample_waiting :: "nat run_lifecycle" where
  "sample_waiting \<equiv> sample_run 2 (StWaiting sample_waits (Timestamp 20))"

lemmas sample_run_defs = sample_run_def sample_waits_def sample_interrupt_def sample_timer_def
  sample_request_def sample_cancellation_def

lemma sample_request_wf: "request_wf sample_request"
  by (simp add: request_wf_def cancellation_request_new_def sample_request_def)

lemma sample_waiting_wf: "lifecycle_wf sample_waiting"
  by (simp add: lifecycle_wf_def snapshot_ok_iff waits_wf_def WAITS_MAX_LEN_def sample_run_defs)

lemma sample_cancelling:
  "run_apply sample_waiting (RequestCancellation sample_request) =
     Inr (sample_run 3 (StCancellationRequested sample_request))"
  by (simp add: run_apply_iff apply_transition_def sample_run_def sample_waits_def sample_request_def)

lemma sample_cancelled:
  "run_apply (sample_run 3 (StCancellationRequested sample_request)) (ConfirmCancellation (Timestamp 40) usage_zero) =
     Inr (sample_run 4 (StCancelled sample_cancellation))"
  by (simp add: run_apply_iff apply_transition_def cancellation_new_def sample_run_def sample_cancellation_def
      sample_request_def)

lemma sample_admission:
  "(run_step ^^ 2) (lifecycle_admitted sample_provenance (Timestamp 0)) sample_waiting"
proof -
  have "run_apply (lifecycle_admitted sample_provenance (Timestamp 0)) (Start (Timestamp 10)) =
      Inr (sample_run 1 (StActive (Timestamp 10)))"
    by (simp add: run_apply_iff apply_transition_def sample_run_def lifecycle_admitted_def revision_ZERO_def
        execution_ZERO_def)
  moreover have "run_apply (sample_run 1 (StActive (Timestamp 10))) (Wait sample_waits) = Inr sample_waiting"
    by (simp add: run_apply_iff apply_transition_def sample_run_def sample_waits_def)
  moreover have "transition_wf (Wait sample_waits)"
    using sample_waiting_wf by (simp add: lifecycle_wf_def sample_run_def)
  ultimately show ?thesis
    by (auto simp: numeral_2_eq_2 intro!: relcomppI
        intro: run_step.intros [of "Start (Timestamp 10)"] run_step.intros [of "Wait sample_waits"])
qed

section \<open>Properties of the lifecycle\<close>

text \<open>
  C1. Every accepted transition is an edge of the documented lifecycle graph: it moves the status along
  one edge, raises the revision by exactly one, takes the time of the transition without ever moving the
  clock back, keeps the identity and the admission time, and leaves a valid snapshot.
\<close>

theorem apply_refines_graph:
  assumes "lifecycle_wf l" and "transition_wf t" and "run_apply l t = Inr m"
  shows "status_step (lc_status l) (lc_status m) \<and> revision_of m = Suc (revision_of l) \<and>
    lc_changed_at m = transition_changed_at t \<and> lc_changed_at l \<le> lc_changed_at m \<and>
    lc_provenance m = lc_provenance l \<and> lc_admitted_at m = lc_admitted_at l \<and> lifecycle_wf m"
  using run_apply_follows [OF assms(3,1,2)] run_apply_wf [OF assms(3,1,2)] assms(3)
  by (auto simp: run_apply_iff follows_def)

theorem apply_refines_graph_witness:
  "status_step Waiting CancellationRequested \<and>
   lifecycle_wf (sample_run 3 (StCancellationRequested sample_request))"
  using apply_refines_graph [OF sample_waiting_wf _ sample_cancelling] sample_request_wf
  by (simp add: sample_run_def)

text \<open>
  C16. The lifecycle accepts a transition iff its kind is allowed in the current status, its time is not
  before the last change, the revision has room, and the one condition of its kind holds: an interrupt
  is outstanding and strictly before its expiry, a timer is outstanding and due, a result carries the
  provenance of the admission. No other transition is refused, and no other one accepted.
\<close>

theorem apply_succeeds_iff:
  assumes "lifecycle_wf l"
  shows "is_ok (run_apply l t) \<longleftrightarrow>
    transition_allowed (lc_status l) (transition_kind t) \<and> lc_changed_at l \<le> transition_changed_at t \<and>
    transition_guard l t \<and> revision_of l < 2 ^ 64 - 1"
  using assms by (rule run_apply_ok_iff)

theorem apply_succeeds_iff_witness:
  "is_ok (run_apply sample_waiting (settle (Timestamp 89) sample_interrupt)) \<and>
   \<not> is_ok (run_apply sample_waiting (settle (Timestamp 90) sample_interrupt))"
  using apply_succeeds_iff [OF sample_waiting_wf, of "settle (Timestamp 89) sample_interrupt"]
    apply_succeeds_iff [OF sample_waiting_wf, of "settle (Timestamp 90) sample_interrupt"]
  by (simp add: sample_run_defs lc_waits_def)

text \<open>
  C20. A run restores from its own snapshots: every state reached from admission by any number of
  transitions passes the validation of stored snapshots unchanged, and its revision is the number of
  transitions applied.
\<close>

theorem reachable_snapshots_restore:
  assumes "(run_step ^^ n) (lifecycle_admitted p at) l"
  shows "lifecycle_from_wire l = Inr l \<and> revision_of l = n \<and> lc_provenance l = p \<and> at \<le> lc_changed_at l"
proof -
  have reach: "rtranclp run_step (lifecycle_admitted p at) l"
    using assms by (rule relpowp_imp_rtranclp)
  then have wf: "lifecycle_wf l" using lifecycle_admitted_wf by (rule runs.reach_inv)
  have "lc_provenance l = p \<and> lc_admitted_at l = at"
    by (rule runs.reach_keeps [OF reach lifecycle_admitted_wf])
      (auto simp: lifecycle_admitted_def run_step_facts)
  moreover have "revision_of l = n"
    using runs.steps_count [OF assms lifecycle_admitted_wf]
    by (simp add: lifecycle_admitted_def revision_ZERO_def ec.amount_zero)
  moreover have ok: "is_ok (validate_snapshot l)" using wf by (simp add: lifecycle_wf_def)
  moreover have "lc_admitted_at l \<le> lc_changed_at l" using ok by (simp add: snapshot_ok_iff)
  moreover have "validate_snapshot l = Inr ()" using ok by (simp add: is_ok_iff)
  ultimately show ?thesis by (auto simp: lifecycle_from_wire_def)
qed

theorem reachable_snapshots_restore_witness:
  "lifecycle_from_wire sample_waiting = Inr sample_waiting \<and> revision_of sample_waiting = 2"
  using reachable_snapshots_restore [OF sample_admission] by simp

text \<open>
  C27. A terminal run is never revived: every transition on it is refused as invalid, whatever it
  carries, so a terminal state is the last state of every history.
\<close>

theorem terminal_absorbing:
  assumes "is_terminal (lc_status l)"
  shows "run_apply l t = Inl (InvalidTransition (lc_status l) (transition_kind t)) \<and>
    (rtranclp run_step l m \<longrightarrow> m = l)"
proof -
  have "\<not> transition_allowed (lc_status l) (transition_kind t)"
    using assms by (auto simp: is_terminal_def)
  then show ?thesis using assms terminal_reach by (auto simp: run_apply_def)
qed

theorem terminal_absorbing_witness:
  "run_apply (sample_run 4 (StCancelled sample_cancellation)) (Start (Timestamp 99)) =
     Inl (InvalidTransition Cancelled KStart)"
  using terminal_absorbing [of "sample_run 4 (StCancelled sample_cancellation)" "Start (Timestamp 99)"]
  by (simp add: sample_run_def is_terminal_def)

text \<open>
  C28. A requested cancellation wins over every other outcome: from a run whose cancellation was
  requested, the only other state any history reaches is the cancellation of that very request,
  completed no earlier than it was requested. Such a run never has a result.
\<close>

theorem cancellation_wins:
  assumes "lc_state l = StCancellationRequested r" and "rtranclp run_step l m"
  shows "lc_cancellation_request m = Some r \<and> lc_result m = None \<and>
    (m = l \<or> (\<exists>c. lc_state m = StCancelled c \<and> rc_request c = r \<and> cr_requested_at r \<le> rc_completed_at c))"
proof -
  have "m = l \<or> (\<exists>c. lc_state m = StCancelled c \<and> rc_request c = r \<and> cr_requested_at r \<le> rc_completed_at c)"
    using assms(2)
  proof (induction rule: rtranclp_induct)
    case (step k m)
    then have "\<not> is_terminal (lc_status k)" using terminal_no_step by blast
    then have k: "lc_state k = StCancellationRequested r"
      using step.IH assms(1) by (auto simp: is_terminal_def)
    from step.hyps(2) obtain t where "run_apply k t = Inr m" by (rule run_stepE)
    then show ?case using k
      by (cases t) (auto simp: run_apply_iff apply_transition_def result_simps cancellation_new_iff)
  qed simp
  then show ?thesis using assms(1) by (auto simp: lc_cancellation_request_def lc_result_def)
qed

theorem cancellation_wins_witness:
  "lc_cancellation_request (sample_run 4 (StCancelled sample_cancellation)) = Some sample_request"
proof -
  have "run_step (sample_run 3 (StCancellationRequested sample_request)) (sample_run 4 (StCancelled sample_cancellation))"
    using sample_cancelled by (intro run_step.intros [of "ConfirmCancellation (Timestamp 40) usage_zero"]) simp_all
  then have "rtranclp run_step (sample_run 3 (StCancellationRequested sample_request))
      (sample_run 4 (StCancelled sample_cancellation))" by (rule r_into_rtranclp)
  from cancellation_wins [OF _ this] show ?thesis by (simp add: sample_run_def)
qed

text \<open>
  Settling a wait takes it out exactly once: the accepted resolution of an outstanding interrupt or
  firing of a timer leaves every other wait in place and resumes the run exactly when it was the last
  one; settling the same wait again is refused at any time.
\<close>

lemma settle_once:
  assumes "lifecycle_wf l" and "lc_state l = StWaiting w c" and "v \<in> set (waits_values w)"
    and "run_apply l (settle at v) = Inr m"
  shows "lc_state m = settled w v at \<and> \<not> is_ok (run_apply m (settle at' v))"
proof -
  have w: "waits_wf w" using assms(1,2) by (simp add: lifecycle_wf_def)
  have m: "lc_state m = settled w v at"
    using assms(2,4) by (simp add: run_apply_iff settle_state_iff [OF w assms(3)])
  have "lifecycle_wf m" using run_apply_wf [OF assms(4,1)] by simp
  moreover have "\<not> transition_guard m (settle at' v)" if "waits_values w \<noteq> [v]"
  proof (cases v)
    case (Interrupt x)
    have "y = x" if "Interrupt y \<in> set (waits_values w)" "ri_interrupt_id y = ri_interrupt_id x" for y
      using waits_identity [OF w that(1) assms(3)] that(2) Interrupt by simp
    then show ?thesis using m that Interrupt by (auto simp: settled_def lc_waits_def)
  next
    case (Timer x)
    have "y = x" if "Timer y \<in> set (waits_values w)" "rt_timer_id y = rt_timer_id x" for y
      using waits_identity [OF w that(1) assms(3)] that(2) Timer by simp
    then show ?thesis using m that Timer by (auto simp: settled_def lc_waits_def)
  qed
  ultimately show ?thesis
    using m by (cases "waits_values w = [v]") (simp_all add: run_apply_ok_iff settled_def)
qed

lemma settle_once_witness:
  "\<exists>m. run_apply sample_waiting (settle (Timestamp 60) sample_timer) = Inr m \<and>
     lc_state m = settled sample_waits sample_timer (Timestamp 60) \<and>
     \<not> is_ok (run_apply m (settle (Timestamp 70) sample_timer))"
proof -
  have w: "lc_state sample_waiting = StWaiting sample_waits (Timestamp 20)"
      "sample_timer \<in> set (waits_values sample_waits)"
    by (simp_all add: sample_run_def sample_waits_def)
  have "is_ok (run_apply sample_waiting (settle (Timestamp 60) sample_timer))"
    by (simp add: run_apply_ok_iff [OF sample_waiting_wf]) (simp add: sample_run_defs lc_waits_def)
  then obtain m where "run_apply sample_waiting (settle (Timestamp 60) sample_timer) = Inr m"
    by (auto simp: is_ok_iff)
  with settle_once [OF sample_waiting_wf w this, of "Timestamp 70"] show ?thesis by blast
qed

text \<open>
  C29. A waiting run always gets going again: at a time when every timer is due and no interrupt has
  expired, not before the waits were entered and with room for a revision per wait, settling all
  outstanding waits, in any order, is accepted at every step and ends in an active run.
\<close>

theorem waits_drain:
  assumes "lifecycle_wf l" and "lc_state l = StWaiting w c" and "c \<le> at"
    and "mset vs = mset (waits_values w)" and "\<forall>v\<in>set vs. settleable at v"
    and "revision_of l + length vs < 2 ^ 64"
  shows "\<exists>m. try_fold run_apply l (map (settle at) vs) = Inr m \<and> lc_state m = StActive at"
  using settle_all [OF assms] by blast

theorem waits_drain_witness:
  "\<exists>m. try_fold run_apply sample_waiting (map (settle (Timestamp 60)) [sample_timer, sample_interrupt]) = Inr m \<and>
     lc_state m = StActive (Timestamp 60)"
  by (rule waits_drain [OF sample_waiting_wf, of sample_waits "Timestamp 20"]) (simp_all add: sample_run_defs)

text \<open>
  C30. Cancellation stays available until the end: a run that is not terminal, with room for two more
  revisions, can always be brought to the cancelled state by a valid request at or after its last change.
\<close>

theorem run_always_cancellable:
  fixes l :: "'p run_lifecycle" and r :: "'p cancellation_request"
  assumes "lifecycle_wf l" and "\<not> is_terminal (lc_status l)" and "revision_of l + 2 < 2 ^ 64"
    and "request_wf r" and "lc_changed_at l \<le> cr_requested_at r"
  shows "\<exists>m. rtranclp run_step l m \<and> lc_status m = Cancelled"
  by (rule cancellation_path [OF assms order_refl])

theorem run_always_cancellable_witness:
  "\<exists>m. rtranclp run_step sample_waiting m \<and> lc_status m = Cancelled"
  by (rule run_always_cancellable [OF sample_waiting_wf _ _ sample_request_wf])
    (simp_all add: sample_run_def sample_request_def is_terminal_def)

text \<open>
  A batch of waits is accepted exactly when it has between one and sixty-four entries, no two of
  which share an identity, even across interrupts and timers, all registered at one time; the batch keeps
  the entries in their order.
\<close>

lemma wait_batch_exact:
  "waits_try_new vs = Inr w \<longleftrightarrow>
     waits_values w = vs \<and> vs \<noteq> [] \<and> length vs \<le> 64 \<and> distinct (map identity_uuid vs) \<and>
     (\<forall>v\<in>set vs. wait_registered_at v = waits_registered_at w)"
  by (auto simp: waits_try_new_iff waits_wf_def WAITS_MAX_LEN_def)

lemma wait_batch_exact_witness:
  "waits_try_new [sample_interrupt, sample_timer] = Inr sample_waits"
  using wait_batch_exact [of "[sample_interrupt, sample_timer]" sample_waits] by (simp add: sample_run_defs)

end
