(* ===== verification/FairScheduler.thy ===== *)
theory FairScheduler
  imports Ids Time "HOL-Library.Multiset"
begin

text \<open>
  \<open>crates/stateknot-runtime/src/fair_scheduler.rs\<close>: the weighted fairness policy of a scheduler shard.
  A policy compiles tenant weights into one cycle of slots by smooth weighted round robin, checks the
  cycle, and derives the largest circular gap of every tenant. Slot and tenant indexes are \<open>usize\<close>,
  here \<open>nat\<close>; the running scores are \<open>i64\<close>, here \<open>int\<close>, with \<open>scores_bounded\<close> showing that
  they stay far inside 64 bits. The canonical JSON encoder and the hash are third-party code and so the
  parameters \<open>encode\<close> and \<open>sha256\<close>.
\<close>

section \<open>Weights\<close>

record tenant_fairness_weight =
  tf_tenant_id :: tenant_id
  tf_weight :: u16

datatype tenant_fairness_weight_error = InvalidWeight

definition MAX_WEIGHT :: u16 where "MAX_WEIGHT = 1024"

definition fairness_weight_new ::
  "tenant_id \<Rightarrow> u16 \<Rightarrow> (tenant_fairness_weight_error, tenant_fairness_weight) result" where
  "fairness_weight_new t w =
     and_then (reject_if (w = 0 \<or> w > MAX_WEIGHT) InvalidWeight) (\<lambda>_.
     Inr \<lparr>tf_tenant_id = t, tf_weight = w\<rparr>)"

section \<open>Registrations\<close>

record 'd fairness_registration =
  reg_shard_id :: scheduler_shard_id
  reg_policy_digest :: 'd
  reg_policy_bytes :: string
  reg_cycle_length :: u16

datatype store_error =
  InvalidSchedulerFairnessPolicy
| InvalidSchedulerFairnessRetention
| SchedulerFairnessPolicyNotFound
| SchedulerFairnessPolicyConflict
| SchedulerFairnessReservationConflict
| SchedulerFairnessSequenceExhausted
| Corrupt string
| Database bool

text \<open>The flag of a database error says whether the driver error under it may be retried.\<close>

fun is_retryable :: "store_error \<Rightarrow> bool" where
  "is_retryable (Database retryable) \<longleftrightarrow> retryable"
| "is_retryable _ \<longleftrightarrow> False"

definition MAX_POLICY_BYTES :: nat where "MAX_POLICY_BYTES = 262144"

definition MAX_CYCLE_LENGTH :: u16 where "MAX_CYCLE_LENGTH = 4096"

definition POLICY_DIGEST_DOMAIN :: string where
  "POLICY_DIGEST_DOMAIN = ''stateknot.scheduler-fairness-policy.v1'' @ [CHR 0x00]"

definition registration_new ::
  "(string \<Rightarrow> 'd) \<Rightarrow> scheduler_shard_id \<Rightarrow> string \<Rightarrow> u16 \<Rightarrow> (store_error, 'd fairness_registration) result" where
  "registration_new sha256 shard policy_bytes cycle_length =
     and_then (reject_if (policy_bytes = [] \<or> length policy_bytes > MAX_POLICY_BYTES \<or> cycle_length = 0 \<or>
         cycle_length > MAX_CYCLE_LENGTH) InvalidSchedulerFairnessPolicy) (\<lambda>_.
     Inr \<lparr>reg_shard_id = shard, reg_policy_digest = sha256 (POLICY_DIGEST_DOMAIN @ policy_bytes),
          reg_policy_bytes = policy_bytes, reg_cycle_length = cycle_length\<rparr>)"

section \<open>Policies\<close>

datatype starvation_bound = TenantStarvationBound (maximum_reservations_until_selection: u16)

record 'd fairness_policy =
  fp_shard_id :: scheduler_shard_id
  fp_tenants :: "tenant_fairness_weight list"
  fp_cycle :: "nat list"
  fp_starvation_bounds :: "starvation_bound list"
  fp_canonical_bytes :: string
  fp_registration :: "'d fairness_registration"

text \<open>\<open>CompilePanic\<close> is the panic of the \<open>expect\<close> in the compiler, reached on an empty tenant list only.\<close>

datatype policy_error =
  PolicyEmpty
| TooManyTenants
| DuplicateTenant
| CycleTooLarge
| InvalidCompiledCycle
| CanonicalEncoding
| StoreBinding
| CompilePanic

definition MAX_TENANTS :: nat where "MAX_TENANTS = 1024"

definition slot_cmp :: "nat \<times> int \<Rightarrow> nat \<times> int \<Rightarrow> ordering" where
  "slot_cmp l r = then_with (cmp (snd l) (snd r)) (cmp (fst r) (fst l))"

definition smooth_round ::
  "tenant_fairness_weight list \<Rightarrow> int \<Rightarrow> int list \<times> nat list \<Rightarrow> (policy_error, int list \<times> nat list) result" where
  "smooth_round tenants cycle_total s =
     (let (current, cycle) = s;
          scored = map2 (\<lambda>score t. score + int (unat (tf_weight t))) current tenants
      in and_then (ok_or (map_option fst (max_by slot_cmp (enumerate 0 scored))) CompilePanic) (\<lambda>selected.
         Inr (scored[selected := scored ! selected - cycle_total], cycle @ [selected])))"

definition compile_smooth_cycle ::
  "tenant_fairness_weight list \<Rightarrow> u16 \<Rightarrow> (policy_error, nat list) result" where
  "compile_smooth_cycle tenants cycle_length =
     map_ok snd (try_fold (\<lambda>s _. smooth_round tenants (int (unat cycle_length)) s)
       (replicate (length tenants) 0, []) [0..<unat cycle_length])"

definition count_step :: "u16 list \<Rightarrow> nat \<Rightarrow> (policy_error, u16 list) result" where
  "count_step counts index =
     and_then (reject_if (index \<ge> length counts) InvalidCompiledCycle) (\<lambda>_.
     and_then (ok_or (checked_add (counts ! index) 1) InvalidCompiledCycle) (\<lambda>count.
     Inr (counts[index := count])))"

definition verify_cycle_counts ::
  "tenant_fairness_weight list \<Rightarrow> nat list \<Rightarrow> (policy_error, unit) result" where
  "verify_cycle_counts tenants cycle =
     and_then (try_fold count_step (replicate (length tenants) 0) cycle) (\<lambda>counts.
     reject_if (list_ex (\<lambda>(actual, t). actual \<noteq> tf_weight t) (zip counts tenants)) InvalidCompiledCycle)"

definition position_step :: "nat list list \<Rightarrow> nat \<times> nat \<Rightarrow> (policy_error, nat list list) result" where
  "position_step positions entry =
     (let (position, index) = entry
      in and_then (reject_if (index \<ge> length positions) InvalidCompiledCycle) (\<lambda>_.
         Inr (positions[index := positions ! index @ [position]])))"

definition circular_gaps :: "nat \<Rightarrow> nat list \<Rightarrow> nat list" where
  "circular_gaps cycle_length ps =
     map (\<lambda>(current, next). next - current) (zip ps (tl ps @ [hd ps + cycle_length]))"

definition tenant_bound :: "nat \<Rightarrow> nat list \<Rightarrow> (policy_error, starvation_bound) result" where
  "tenant_bound cycle_length ps =
     and_then (reject_if (ps = []) InvalidCompiledCycle) (\<lambda>_.
     let maximum = Max (set (circular_gaps cycle_length ps))
     in and_then (reject_if (maximum \<ge> 2 ^ 16) InvalidCompiledCycle) (\<lambda>_.
        Inr (TenantStarvationBound (word_of_nat maximum))))"

definition derive_starvation_bounds ::
  "nat \<Rightarrow> nat list \<Rightarrow> (policy_error, starvation_bound list) result" where
  "derive_starvation_bounds tenant_count cycle =
     and_then (try_fold position_step (replicate tenant_count []) (enumerate 0 cycle)) (\<lambda>positions.
     try_map (tenant_bound (length cycle)) positions)"

definition add_cycle_weight :: "u16 \<Rightarrow> tenant_fairness_weight \<Rightarrow> (policy_error, u16) result" where
  "add_cycle_weight cycle_total t =
     ok_or (case checked_add cycle_total (tf_weight t) of
         Some v \<Rightarrow> if v \<le> MAX_CYCLE_LENGTH then Some v else None
       | None \<Rightarrow> None) CycleTooLarge"

fun adjacent_equal :: "tenant_fairness_weight list \<Rightarrow> bool" where
  "adjacent_equal (a # b # ts) \<longleftrightarrow> tf_tenant_id a = tf_tenant_id b \<or> adjacent_equal (b # ts)"
| "adjacent_equal _ \<longleftrightarrow> False"

definition fairness_policy_new ::
  "((tenant_id \<times> u16) list \<Rightarrow> string option) \<Rightarrow> (string \<Rightarrow> 'd) \<Rightarrow> scheduler_shard_id \<Rightarrow>
     tenant_fairness_weight list \<Rightarrow> (policy_error, 'd fairness_policy) result" where
  "fairness_policy_new encode sha256 shard unsorted =
     and_then (reject_if (unsorted = []) PolicyEmpty) (\<lambda>_.
     and_then (reject_if (length unsorted > MAX_TENANTS) TooManyTenants) (\<lambda>_.
     let tenants = sort_key tf_tenant_id unsorted
     in and_then (reject_if (adjacent_equal tenants) DuplicateTenant) (\<lambda>_.
     and_then (try_fold add_cycle_weight 0 tenants) (\<lambda>cycle_length.
     and_then (compile_smooth_cycle tenants cycle_length) (\<lambda>cycle.
     and_then (verify_cycle_counts tenants cycle) (\<lambda>_.
     and_then (derive_starvation_bounds (length tenants) cycle) (\<lambda>bounds.
     and_then (ok_or (encode (map (\<lambda>t. (tf_tenant_id t, tf_weight t)) tenants)) CanonicalEncoding) (\<lambda>canonical.
     and_then (map_err (\<lambda>_. StoreBinding) (registration_new sha256 shard canonical cycle_length)) (\<lambda>registration.
     Inr \<lparr>fp_shard_id = shard, fp_tenants = tenants, fp_cycle = cycle, fp_starvation_bounds = bounds,
          fp_canonical_bytes = canonical, fp_registration = registration\<rparr>)))))))))"

definition starvation_bound_of :: "'d fairness_policy \<Rightarrow> tenant_id \<Rightarrow> starvation_bound option" where
  "starvation_bound_of p t =
     map_option (\<lambda>i. fp_starvation_bounds p ! i) (binary_search tf_tenant_id t (fp_tenants p))"

definition tenant_for_slot :: "'d fairness_policy \<Rightarrow> u16 \<Rightarrow> tenant_id option" where
  "tenant_for_slot p slot =
     (if unat slot < length (fp_cycle p)
      then Some (tf_tenant_id (fp_tenants p ! (fp_cycle p ! unat slot)))
      else None)"

section \<open>Selecting the best score\<close>

definition best :: "(nat \<times> int) list \<Rightarrow> nat \<times> int \<Rightarrow> bool" where
  "best xs m \<longleftrightarrow> m \<in> set xs \<and> (\<forall>x\<in>set xs. snd x \<le> snd m)"

lemma slot_cmp_cases:
  "slot_cmp m y = Greater \<Longrightarrow> snd y \<le> snd m" "slot_cmp m y \<noteq> Greater \<Longrightarrow> snd m \<le> snd y"
  by (auto simp: slot_cmp_def then_with_def cmp_def split: if_splits)

lemma fold_max_best:
  "best (insert_xs @ [m]) m \<Longrightarrow>
     best (insert_xs @ m # xs) (fold (\<lambda>y m. if slot_cmp m y = Greater then m else y) xs m)"
proof (induction xs arbitrary: insert_xs m)
  case (Cons x xs)
  show ?case
  proof (cases "slot_cmp m x = Greater")
    case True
    then have "best ((insert_xs @ [x]) @ [m]) m" using Cons.prems slot_cmp_cases(1) by (auto simp: best_def)
    from Cons.IH [OF this] True show ?thesis by (auto simp: best_def)
  next
    case False
    then have "best ((insert_xs @ [m]) @ [x]) x"
      using Cons.prems slot_cmp_cases(2) by (fastforce simp: best_def)
    from Cons.IH [OF this] False show ?thesis by (auto simp: best_def)
  qed
qed (auto simp: best_def)

lemma max_by_slot:
  assumes "xs \<noteq> []"
  obtains i where "max_by slot_cmp (enumerate 0 xs) = Some (i, xs ! i)" "i < length xs"
    "\<And>j. j < length xs \<Longrightarrow> xs ! j \<le> xs ! i"
proof -
  obtain x ys where e: "enumerate 0 xs = x # ys" using assms by (cases xs) auto
  obtain m where m: "max_by slot_cmp (enumerate 0 xs) = Some m" "best (enumerate 0 xs) m"
    using fold_max_best [of "[]" x ys] by (auto simp: e best_def)
  then have "fst m < length xs" "snd m = xs ! fst m"
    by (auto simp: best_def in_set_enumerate_eq)
  moreover have "xs ! j \<le> xs ! fst m" if "j < length xs" for j
  proof -
    have "(j, xs ! j) \<in> set (enumerate 0 xs)" using that by (simp add: in_set_enumerate_eq)
    then have "snd (j, xs ! j) \<le> snd m" using m(2) unfolding best_def by blast
    then show ?thesis using calculation by simp
  qed
  ultimately show ?thesis using that [of "fst m"] m(1) by (metis prod.collapse)
qed

section \<open>The smooth cycle\<close>

abbreviation weight_at :: "tenant_fairness_weight list \<Rightarrow> nat \<Rightarrow> nat" where
  "weight_at ts i \<equiv> unat (tf_weight (ts ! i))"

definition cycle_weight :: "tenant_fairness_weight list \<Rightarrow> nat" where
  "cycle_weight ts = (\<Sum>i<length ts. weight_at ts i)"

lemma int_cycle_weight: "int (cycle_weight ts) = (\<Sum>i<length ts. int (weight_at ts i))"
  by (simp add: cycle_weight_def)

text \<open>
  After \<open>k\<close> rounds the score of a tenant is its due share minus what it was served, and no score has
  fallen a whole cycle behind.
\<close>

definition smooth_inv :: "tenant_fairness_weight list \<Rightarrow> nat \<Rightarrow> int list \<times> nat list \<Rightarrow> bool" where
  "smooth_inv ts k s \<longleftrightarrow>
     (let (current, cycle) = s
      in length current = length ts \<and> length cycle = k \<and> set cycle \<subseteq> {..<length ts} \<and>
         (\<forall>i<length ts. current ! i = int k * int (weight_at ts i) - int (count_list cycle i) * int (cycle_weight ts) \<and>
            - int (cycle_weight ts) < current ! i))"

lemma positive_from_sum:
  fixes f :: "nat \<Rightarrow> int"
  assumes "0 < (\<Sum>i<n. f i)" and "m < n" and "\<And>i. i < n \<Longrightarrow> f i \<le> f m"
  shows "0 < f m"
proof (rule ccontr)
  assume "\<not> 0 < f m"
  then have "(\<Sum>i<n. f i) \<le> 0" using assms(3) by (intro sum_nonpos) force
  with assms(1) show False by simp
qed

lemma smooth_round_inv:
  assumes inv: "smooth_inv ts k s" and pos: "0 < cycle_weight ts"
  shows "\<exists>s'. smooth_round ts (int (cycle_weight ts)) s = Inr s' \<and> smooth_inv ts (Suc k) s'"
proof -
  let ?W = "cycle_weight ts"
  obtain current cycle where s: "s = (current, cycle)" by (cases s)
  define scored where "scored = map2 (\<lambda>score t. score + int (unat (tf_weight t))) current ts"
  note i = inv [unfolded smooth_inv_def s Let_def prod.case]
  have len: "length scored = length ts" using i by (simp add: scored_def)
  have score: "scored ! j = int (Suc k) * int (weight_at ts j) - int (count_list cycle j) * int ?W"
      "- int ?W < scored ! j" if "j < length ts" for j
    using i that by (auto simp: scored_def algebra_simps)
  have "(\<Sum>j<length ts. scored ! j) = int (Suc k) * int ?W - (\<Sum>j<length ts. int (count_list cycle j)) * int ?W"
  proof -
    have "(\<Sum>j<length ts. scored ! j) =
        (\<Sum>j<length ts. int (Suc k) * int (weight_at ts j) - int (count_list cycle j) * int ?W)"
      by (intro sum.cong) (simp_all add: score(1))
    then show ?thesis
      by (simp add: sum_subtractf sum_distrib_right int_cycle_weight flip: sum_distrib_left)
  qed
  also have "(\<Sum>j<length ts. int (count_list cycle j)) = int k"
    using i sum_count_set [of cycle "{..<length ts}"] by (simp flip: of_nat_sum)
  finally have total: "0 < (\<Sum>j<length ts. scored ! j)" using pos by (simp add: algebra_simps)
  have "scored \<noteq> []" using pos len by (auto simp: cycle_weight_def)
  then obtain m where m: "max_by slot_cmp (enumerate 0 scored) = Some (m, scored ! m)" "m < length ts"
      "\<And>j. j < length ts \<Longrightarrow> scored ! j \<le> scored ! m"
    using max_by_slot [of scored] len by metis
  have top: "0 < scored ! m" using positive_from_sum [OF total m(2)] m(3) by blast
  have "\<forall>j<length ts. scored[m := scored ! m - int ?W] ! j =
      int (Suc k) * int (weight_at ts j) - int (count_list (cycle @ [m]) j) * int ?W \<and>
      - int ?W < scored[m := scored ! m - int ?W] ! j" (is "\<forall>j<length ts. ?upd j")
  proof (intro allI impI)
    fix j
    assume j: "j < length ts"
    show "?upd j"
    proof (cases "j = m")
      case True
      then show ?thesis using score(1) [OF j] len j top by (simp add: distrib_right)
    next
      case False
      then show ?thesis using score [OF j] len j by simp
    qed
  qed
  moreover have "length (scored[m := scored ! m - int ?W]) = length ts" "length (cycle @ [m]) = Suc k"
      "set (cycle @ [m]) \<subseteq> {..<length ts}"
    using i len m(2) by auto
  ultimately have "smooth_inv ts (Suc k) (scored[m := scored ! m - int ?W], cycle @ [m])"
    unfolding smooth_inv_def Let_def prod.case by blast
  moreover have "smooth_round ts (int ?W) s = Inr (scored[m := scored ! m - int ?W], cycle @ [m])"
    using m(1) by (simp add: smooth_round_def s Let_def scored_def)
  ultimately show ?thesis by blast
qed

lemma smooth_rounds_inv:
  assumes "0 < cycle_weight ts"
  shows "\<exists>s. try_fold (\<lambda>s _. smooth_round ts (int (cycle_weight ts)) s) (replicate (length ts) 0, []) [0..<k] = Inr s \<and>
    smooth_inv ts k s"
proof (induction k)
  case 0
  then show ?case using assms by (auto simp: smooth_inv_def)
next
  case (Suc k)
  then obtain s where s: "try_fold (\<lambda>s _. smooth_round ts (int (cycle_weight ts)) s)
      (replicate (length ts) 0, []) [0..<k] = Inr s" "smooth_inv ts k s" by blast
  obtain s' where "smooth_round ts (int (cycle_weight ts)) s = Inr s'" "smooth_inv ts (Suc k) s'"
    using smooth_round_inv [OF s(2) assms] by blast
  with s(1) show ?case by (simp add: try_fold_append del: split_paired_Ex)
qed

text \<open>A complete cycle serves every tenant exactly its weight.\<close>

lemma full_cycle_counts:
  assumes "smooth_inv ts (cycle_weight ts) (current, cycle)" and "0 < cycle_weight ts" and "i < length ts"
  shows "count_list cycle i = weight_at ts i"
proof -
  let ?W = "cycle_weight ts"
  note inv = assms(1) [unfolded smooth_inv_def Let_def prod.case]
  have le: "count_list cycle j \<le> weight_at ts j" if "j < length ts" for j
  proof -
    have "current ! j = int ?W * (int (weight_at ts j) - int (count_list cycle j))" "- int ?W < current ! j"
      using inv that by (auto simp: algebra_simps)
    then have "- int ?W < int ?W * (int (weight_at ts j) - int (count_list cycle j))" by simp
    then have "int ?W * (- 1) < int ?W * (int (weight_at ts j) - int (count_list cycle j))" by simp
    then have "- 1 < int (weight_at ts j) - int (count_list cycle j)"
      using assms(2) by (simp only: mult_less_cancel_left_pos of_nat_0_less_iff)
    then show ?thesis by simp
  qed
  have "(\<Sum>j<length ts. count_list cycle j) = ?W"
    using inv sum_count_set [of cycle "{..<length ts}"] by simp
  then have "(\<Sum>j<length ts. count_list cycle j) = (\<Sum>j<length ts. weight_at ts j)"
    by (simp add: cycle_weight_def)
  then show ?thesis
    using sum_mono_inv [of "count_list cycle" "{..<length ts}" "weight_at ts" i] le assms(3) by simp
qed

definition weights_wf :: "tenant_fairness_weight list \<Rightarrow> bool" where
  "weights_wf ts \<longleftrightarrow> (\<forall>t\<in>set ts. fairness_weight_new (tf_tenant_id t) (tf_weight t) = Inr t)"

lemma weights_wf_iff: "weights_wf ts \<longleftrightarrow> (\<forall>t\<in>set ts. 1 \<le> unat (tf_weight t) \<and> unat (tf_weight t) \<le> 1024)"
proof -
  have "w = 0 \<longleftrightarrow> unat w = 0" "w > MAX_WEIGHT \<longleftrightarrow> unat w > 1024" for w :: u16
    by (simp_all add: MAX_WEIGHT_def word_less_nat unat_eq_zero)
  then have "w = 0 \<or> w > MAX_WEIGHT \<longleftrightarrow> \<not> (1 \<le> unat w \<and> unat w \<le> 1024)" for w :: u16
    by (metis Suc_leI One_nat_def leD le_less_linear less_one neq0_conv)
  then show ?thesis by (auto simp: weights_wf_def fairness_weight_new_def result_simps)
qed

lemma weight_at_wf: "weights_wf ts \<Longrightarrow> i < length ts \<Longrightarrow> 1 \<le> weight_at ts i \<and> weight_at ts i \<le> 1024"
  by (simp add: weights_wf_iff)

lemma cycle_weight_pos: "weights_wf ts \<Longrightarrow> ts \<noteq> [] \<Longrightarrow> 0 < cycle_weight ts"
proof -
  assume "weights_wf ts" "ts \<noteq> []"
  then have "weight_at ts 0 \<le> cycle_weight ts" "1 \<le> weight_at ts 0"
    using weight_at_wf [of ts 0] unfolding cycle_weight_def
    by (auto intro: member_le_sum [of 0 "{..<length ts}" "weight_at ts"])
  then show ?thesis by simp
qed

text \<open>What the compiler promises: a complete cycle of exact shares.\<close>

definition exact_cycle :: "tenant_fairness_weight list \<Rightarrow> nat list \<Rightarrow> bool" where
  "exact_cycle ts cycle \<longleftrightarrow>
     length cycle = cycle_weight ts \<and> set cycle \<subseteq> {..<length ts} \<and>
     (\<forall>i<length ts. count_list cycle i = weight_at ts i)"

lemma compile_exact:
  assumes "unat n = cycle_weight ts" and "0 < cycle_weight ts"
  shows "\<exists>cycle. compile_smooth_cycle ts n = Inr cycle \<and> exact_cycle ts cycle"
proof -
  obtain current cycle where s: "try_fold (\<lambda>s _. smooth_round ts (int (cycle_weight ts)) s)
      (replicate (length ts) 0, []) [0..<cycle_weight ts] = Inr (current, cycle)"
      "smooth_inv ts (cycle_weight ts) (current, cycle)"
    using smooth_rounds_inv [OF assms(2)] by (metis surj_pair)
  then have "exact_cycle ts cycle"
    using full_cycle_counts [OF s(2) assms(2)] by (auto simp: exact_cycle_def smooth_inv_def)
  then show ?thesis using s(1) by (simp add: compile_smooth_cycle_def assms(1))
qed

lemma count_loop:
  assumes "set cycle \<subseteq> {..<length counts}"
    and "\<And>i. i < length counts \<Longrightarrow> unat (counts ! i) + count_list cycle i < 2 ^ 16"
  shows "\<exists>counts'. try_fold count_step counts cycle = Inr counts' \<and> length counts' = length counts \<and>
    (\<forall>i<length counts. unat (counts' ! i) = unat (counts ! i) + count_list cycle i)"
  using assms
proof (induction cycle arbitrary: counts)
  case (Cons x cycle)
  then have x: "x < length counts" by auto
  have "unat (counts ! x) + 1 < 2 ^ 16" using Cons.prems(2) [OF x] by simp
  then have c: "checked_add (counts ! x) 1 = Some (counts ! x + 1)" "unat (counts ! x + 1) = Suc (unat (counts ! x))"
    by (simp_all add: checked_add_def unat_word_ariths)
  then have step: "count_step counts x = Inr (counts[x := counts ! x + 1])"
    using x by (simp add: count_step_def)
  have "\<exists>counts'. try_fold count_step (counts[x := counts ! x + 1]) cycle = Inr counts' \<and>
      length counts' = length counts \<and>
      (\<forall>i<length counts. unat (counts' ! i) = unat (counts[x := counts ! x + 1] ! i) + count_list cycle i)"
    using Cons.IH [of "counts[x := counts ! x + 1]"] Cons.prems c(2)
    by (fastforce simp: nth_list_update split: if_splits)
  then show ?case using step c(2) by (auto simp: nth_list_update)
qed simp

lemma verify_exact:
  assumes "exact_cycle ts cycle" and "weights_wf ts"
  shows "verify_cycle_counts ts cycle = Inr ()"
proof -
  have "\<exists>counts. try_fold count_step (replicate (length ts) 0) cycle = Inr counts \<and> length counts = length ts \<and>
      (\<forall>i<length ts. unat (counts ! i) = count_list cycle i)"
    using count_loop [of cycle "replicate (length ts) 0"] assms weight_at_wf [OF assms(2)]
    by (fastforce simp: exact_cycle_def)
  then obtain counts where c: "try_fold count_step (replicate (length ts) 0) cycle = Inr counts"
      "length counts = length ts" "\<And>i. i < length ts \<Longrightarrow> counts ! i = tf_weight (ts ! i)"
    using assms(1) by (auto simp: exact_cycle_def word_eq_nat)
  then have "\<not> list_ex (\<lambda>(actual, t). actual \<noteq> tf_weight t) (zip counts ts)"
    by (auto simp: list_ex_iff in_set_zip)
  with c(1) show ?thesis by (simp add: verify_cycle_counts_def result_simps)
qed

text \<open>The positions of a tenant in the cycle.\<close>

definition positions_of :: "nat list \<Rightarrow> nat \<Rightarrow> nat list" where
  "positions_of cycle i = filter (\<lambda>p. cycle ! p = i) [0..<length cycle]"

lemma positions_of_snoc:
  "positions_of (cycle @ [x]) i = positions_of cycle i @ (if x = i then [length cycle] else [])"
proof -
  have "filter (\<lambda>p. (cycle @ [x]) ! p = i) [0..<length cycle] = filter (\<lambda>p. cycle ! p = i) [0..<length cycle]"
    by (intro filter_cong) (auto simp: nth_append)
  then show ?thesis by (simp add: positions_of_def)
qed

lemma position_loop:
  assumes "set cycle \<subseteq> {..<n}"
  shows "try_fold position_step (replicate n []) (enumerate 0 cycle) = Inr (map (positions_of cycle) [0..<n])"
  using assms
proof (induction cycle rule: rev_induct)
  case Nil
  then show ?case by (simp add: positions_of_def map_replicate_const)
next
  case (snoc x cycle)
  then have x: "x < n" by simp
  have "(map (positions_of cycle) [0..<n])[x := positions_of cycle x @ [length cycle]] =
      map (positions_of (cycle @ [x])) [0..<n]"
    by (rule nth_equalityI) (auto simp: nth_list_update positions_of_snoc)
  then show ?case
    using snoc x by (simp add: try_fold_append enumerate_append_eq position_step_def)
qed

lemma length_positions_of: "length (positions_of cycle i) = count_list cycle i"
  by (induction cycle rule: rev_induct) (simp_all add: positions_of_snoc, simp add: positions_of_def)

section \<open>Circular gaps\<close>

definition unrolled :: "nat \<Rightarrow> nat list \<Rightarrow> nat list" where
  "unrolled n ps = ps @ [hd ps + n]"

text \<open>Positions of one cycle: strictly increasing and inside it.\<close>

definition positions_wf :: "nat \<Rightarrow> nat list \<Rightarrow> bool" where
  "positions_wf n ps \<longleftrightarrow> ps \<noteq> [] \<and> sorted_wrt (<) ps \<and> (\<forall>p\<in>set ps. p < n)"

lemma positions_of_wf: "0 < count_list cycle i \<Longrightarrow> positions_wf (length cycle) (positions_of cycle i)"
  using length_positions_of [of cycle i]
  by (auto simp: positions_wf_def positions_of_def intro: sorted_wrt_filter simp del: length_filter_conv_card)

lemma set_positions_of: "p \<in> set (positions_of cycle i) \<longleftrightarrow> p < length cycle \<and> cycle ! p = i"
  by (auto simp: positions_of_def)

lemma unrolled_sorted: "positions_wf n ps \<Longrightarrow> sorted_wrt (<) (unrolled n ps)"
  by (auto simp: positions_wf_def unrolled_def sorted_wrt_append intro: trans_less_add2)

lemma circular_gaps_nth:
  assumes "ps \<noteq> []"
  shows "length (circular_gaps n ps) = length ps"
    and "i < length ps \<Longrightarrow> circular_gaps n ps ! i = unrolled n ps ! Suc i - unrolled n ps ! i"
  using assms by (auto simp: circular_gaps_def unrolled_def nth_append nth_tl not_less intro!: arg_cong2 [where f = "(-)"])

lemma strict_between:
  fixes xs :: "nat list"
  assumes "sorted_wrt (<) xs" and "Suc j < length xs" and "xs ! j < q" and "q < xs ! Suc j"
  shows "q \<notin> set xs"
proof
  assume "q \<in> set xs"
  then obtain i where i: "i < length xs" "xs ! i = q" by (auto simp: in_set_conv_nth)
  have mono: "a < b \<Longrightarrow> b < length xs \<Longrightarrow> xs ! a < xs ! b" for a b
    using assms(1) by (simp add: sorted_wrt_iff_nth_less)
  consider "i < j" | "i = j" | "i = Suc j" | "Suc j < i" by linarith
  then show False
    using mono [of i j] mono [of "Suc j" i] assms i by cases auto
qed

lemma enclosing:
  fixes xs :: "nat list"
  assumes "xs \<noteq> []" and "hd xs \<le> p" and "p < last xs"
  shows "\<exists>j. Suc j < length xs \<and> xs ! j \<le> p \<and> p < xs ! Suc j"
  using assms
proof (induction xs)
  case (Cons x xs)
  show ?case
  proof (cases "xs = [] \<or> p < hd xs")
    case True
    then show ?thesis using Cons.prems by (cases xs) (auto intro!: exI [of _ 0])
  next
    case False
    then obtain j where "Suc j < length xs" "xs ! j \<le> p" "p < xs ! Suc j" using Cons by auto
    then show ?thesis by (intro exI [of _ "Suc j"]) simp
  qed
qed simp

abbreviation max_gap :: "nat \<Rightarrow> nat list \<Rightarrow> nat" where
  "max_gap n ps \<equiv> Max (set (circular_gaps n ps))"

lemma gap_le_max: "ps \<noteq> [] \<Longrightarrow> i < length ps \<Longrightarrow> unrolled n ps ! Suc i - unrolled n ps ! i \<le> max_gap n ps"
proof -
  assume "ps \<noteq> []" "i < length ps"
  note g = circular_gaps_nth(1) [OF this(1), of n] circular_gaps_nth(2) [OF this, of n] this(2)
  have "circular_gaps n ps ! i \<le> max_gap n ps" using g(1,3) by (intro Max_ge nth_mem) simp_all
  then show ?thesis using g(2) by simp
qed

lemma unrolled_member:
  assumes "positions_wf n ps" and "i < length (unrolled n ps)"
  shows "unrolled n ps ! i mod n \<in> set ps"
  using assms by (auto simp: unrolled_def positions_wf_def nth_append not_less less_Suc_eq)

text \<open>Within the largest gap after any slot the tenant comes up again.\<close>

lemma selected_within_gap:
  assumes "positions_wf n ps" and "p < n"
  shows "\<exists>d. 0 < d \<and> d \<le> max_gap n ps \<and> (p + d) mod n \<in> set ps"
proof -
  have ps: "ps \<noteq> []" and inside: "\<And>q. q \<in> set ps \<Longrightarrow> q < n" using assms(1) by (auto simp: positions_wf_def)
  show ?thesis
  proof (cases "hd ps \<le> p")
    case True
    have "hd (unrolled n ps) \<le> p" "p < last (unrolled n ps)"
      using True assms(2) ps by (auto simp: unrolled_def)
    then obtain j where j: "Suc j < length (unrolled n ps)" "unrolled n ps ! j \<le> p" "p < unrolled n ps ! Suc j"
      using enclosing [of "unrolled n ps" p] by (auto simp: unrolled_def)
    have "unrolled n ps ! Suc j - unrolled n ps ! j \<le> max_gap n ps"
      using gap_le_max [OF ps, of j n] j(1) by (simp add: unrolled_def)
    then show ?thesis
      using j unrolled_member [OF assms(1) j(1)] by (intro exI [of _ "unrolled n ps ! Suc j - p"]) auto
  next
    case False
    let ?l = "length ps - 1"
    have "unrolled n ps ! Suc ?l - unrolled n ps ! ?l \<le> max_gap n ps"
      using gap_le_max [OF ps, of ?l n] ps by simp
    then have "hd ps + n - last ps \<le> max_gap n ps"
      using ps by (simp add: unrolled_def nth_append last_conv_nth)
    moreover have "last ps < n" "hd ps < n" using inside ps by auto
    ultimately show ?thesis
      using False ps by (intro exI [of _ "hd ps - p"]) auto
  qed
qed

text \<open>The largest gap is attained: no smaller bound would do.\<close>

lemma max_gap_attained:
  assumes "positions_wf n ps"
  shows "\<exists>p\<in>set ps. \<forall>d. 0 < d \<and> d < max_gap n ps \<longrightarrow> (p + d) mod n \<notin> set ps"
proof -
  have ps: "ps \<noteq> []" and inside: "\<And>q. q \<in> set ps \<Longrightarrow> q < n" using assms by (auto simp: positions_wf_def)
  have "max_gap n ps \<in> set (circular_gaps n ps)"
    using circular_gaps_nth(1) [OF ps, of n] ps by (intro Max_in) auto
  then obtain j where j: "j < length ps" "max_gap n ps = unrolled n ps ! Suc j - unrolled n ps ! j"
    using circular_gaps_nth(1) [OF ps, of n] circular_gaps_nth(2) [OF ps, of _ n] by (metis in_set_conv_nth)
  have p: "unrolled n ps ! j = ps ! j" using j(1) by (simp add: unrolled_def nth_append)
  have "(ps ! j + d) mod n \<notin> set ps" if d: "0 < d" "d < max_gap n ps" for d
  proof
    assume m: "(ps ! j + d) mod n \<in> set ps"
    have between: "ps ! j + d \<notin> set (unrolled n ps)"
      using strict_between [OF unrolled_sorted [OF assms], of j "ps ! j + d"] j d p
      by (auto simp: unrolled_def)
    have jn: "ps ! j < n" using inside j(1) by simp
    show False
    proof (cases "ps ! j + d < n")
      case True
      then show False using m between by (simp add: unrolled_def)
    next
      case False
      have "Suc j = length ps"
      proof (rule ccontr)
        assume "Suc j \<noteq> length ps"
        then have "unrolled n ps ! Suc j = ps ! Suc j" "ps ! Suc j < n"
          using j(1) inside by (auto simp: unrolled_def nth_append)
        then show False using d j(2) p False by simp
      qed
      then have "unrolled n ps ! Suc j = hd ps + n" by (simp add: unrolled_def nth_append)
      then have lt: "ps ! j + d - n < hd ps" using d j(2) p False by simp
      have "(ps ! j + d) mod n = (ps ! j + d - n) mod n" using False by (simp add: le_mod_geq)
      also have "\<dots> = ps ! j + d - n" using lt inside ps by (simp add: less_trans [OF lt])
      finally have "ps ! j + d - n \<in> set ps" using m by simp
      moreover have "hd ps \<le> q" if "q \<in> set ps" for q
        using assms that ps by (cases ps) (auto simp: positions_wf_def)
      ultimately show False using lt by fastforce
    qed
  qed
  then show ?thesis using j(1) by (intro bexI [of _ "ps ! j"]) auto
qed

text \<open>The gaps of a tenant fill the cycle, so its weight limits the largest one.\<close>

lemma sum_gaps: "sorted_wrt (<) (x # xs) \<Longrightarrow>
    (\<Sum>(a, b)\<leftarrow>zip (x # xs) xs. b - a) + x = last (x # xs)"
  for x :: nat
proof (induction xs arbitrary: x)
  case (Cons y ys)
  then have "(\<Sum>(a, b)\<leftarrow>zip (y # ys) ys. b - a) + y = last (y # ys)" "x < y" by auto
  then show ?case by simp
qed simp

lemma sum_circular_gaps: "positions_wf n ps \<Longrightarrow> sum_list (circular_gaps n ps) = n"
proof -
  assume wf: "positions_wf n ps"
  then obtain x xs where ps: "ps = x # xs" by (cases ps) (auto simp: positions_wf_def)
  have "sum_list (circular_gaps n ps) = (\<Sum>(a, b)\<leftarrow>zip (x # (xs @ [x + n])) (xs @ [x + n]). b - a)"
    by (simp add: circular_gaps_def ps case_prod_unfold zip_append1 [of "x # xs" "[x + n]" "xs @ [x + n]", simplified])
  also have "\<dots> = n"
    using sum_gaps [of x "xs @ [x + n]"] unrolled_sorted [OF wf] by (simp add: unrolled_def ps)
  finally show ?thesis .
qed

lemma member_plus_length: "g \<in> set gs \<Longrightarrow> \<forall>x\<in>set gs. 1 \<le> x \<Longrightarrow> g + length gs \<le> Suc (sum_list gs)" for g :: nat
proof (induction gs)
  case (Cons x gs)
  have "length gs \<le> sum_list gs" using Cons.prems(2) by (induction gs) auto
  then show ?case using Cons by auto
qed simp

lemma max_gap_bound:
  assumes "positions_wf n ps"
  shows "max_gap n ps + length ps \<le> Suc n" and "1 \<le> max_gap n ps"
proof -
  have ps: "ps \<noteq> []" using assms by (simp add: positions_wf_def)
  have pos: "1 \<le> g" if g: "g \<in> set (circular_gaps n ps)" for g
  proof -
    obtain i where i: "i < length ps" "g = unrolled n ps ! Suc i - unrolled n ps ! i"
      using g circular_gaps_nth(1) [OF ps, of n] circular_gaps_nth(2) [OF ps, of _ n] by (metis in_set_conv_nth)
    then show ?thesis
      using unrolled_sorted [OF assms] by (simp add: sorted_wrt_iff_nth_less unrolled_def Suc_le_eq)
  qed
  have m: "max_gap n ps \<in> set (circular_gaps n ps)"
    using circular_gaps_nth(1) [OF ps, of n] ps by (intro Max_in) auto
  show "max_gap n ps + length ps \<le> Suc n"
    using member_plus_length [OF m] pos sum_circular_gaps [OF assms] circular_gaps_nth(1) [OF ps, of n] by simp
  show "1 \<le> max_gap n ps" using pos [OF m] .
qed

lemma tenant_bound_exact:
  assumes "positions_wf n ps" and "n < 2 ^ 16"
  shows "\<exists>b. tenant_bound n ps = Inr b \<and> unat (maximum_reservations_until_selection b) = max_gap n ps"
proof -
  have "1 \<le> length ps" using assms(1) by (simp add: positions_wf_def Suc_le_eq)
  then have lt: "max_gap n ps < 2 ^ 16" using max_gap_bound(1) [OF assms(1)] assms(2) by linarith
  then show ?thesis
    using assms(1) by (auto simp: tenant_bound_def positions_wf_def Let_def unat_of_nat)
qed

lemma derive_exact:
  assumes "exact_cycle ts cycle" and "weights_wf ts" and "length cycle < 2 ^ 16"
  shows "\<exists>bounds. derive_starvation_bounds (length ts) cycle = Inr bounds \<and> length bounds = length ts \<and>
    (\<forall>i<length ts. unat (maximum_reservations_until_selection (bounds ! i)) =
       max_gap (length cycle) (positions_of cycle i))"
proof -
  have wf: "positions_wf (length cycle) (positions_of cycle i)" if "i < length ts" for i
    using that assms(1) weight_at_wf [OF assms(2) that] by (intro positions_of_wf) (auto simp: exact_cycle_def)
  have ok: "\<exists>b. tenant_bound (length cycle) (positions_of cycle i) = Inr b \<and>
      unat (maximum_reservations_until_selection b) = max_gap (length cycle) (positions_of cycle i)"
    if "i < length ts" for i
    using tenant_bound_exact [OF wf [OF that] assms(3)] .
  have "is_ok (tenant_bound (length cycle) (positions_of cycle i))" if "i < length ts" for i
    using ok [OF that] by (auto simp: is_ok_iff)
  then have "is_ok (try_map (tenant_bound (length cycle)) (map (positions_of cycle) [0..<length ts]))"
    by (simp add: is_ok_try_map)
  then obtain bounds where b: "try_map (tenant_bound (length cycle)) (map (positions_of cycle) [0..<length ts]) = Inr bounds"
    by (auto simp: is_ok_iff)
  have "derive_starvation_bounds (length ts) cycle = Inr bounds"
    using b position_loop [of cycle "length ts"] assms(1) by (simp add: derive_starvation_bounds_def exact_cycle_def)
  moreover have each: "length bounds = length ts"
      "\<And>i. i < length ts \<Longrightarrow> tenant_bound (length cycle) (positions_of cycle i) = Inr (bounds ! i)"
    using b by (auto simp: try_map_Inr_iff)
  moreover have "unat (maximum_reservations_until_selection (bounds ! i)) =
      max_gap (length cycle) (positions_of cycle i)" if "i < length ts" for i
    using ok [OF that] each(2) [OF that] by auto
  ultimately show ?thesis by blast
qed

section \<open>Accepted policies\<close>

lemma cycle_weight_list: "cycle_weight ts = sum_list (map (\<lambda>t. unat (tf_weight t)) ts)"
  by (simp add: cycle_weight_def sum_list_sum_nth atLeast0LessThan)

lemma add_cycle_weight_iff:
  "add_cycle_weight n t = Inr m \<longleftrightarrow> unat m = unat n + unat (tf_weight t) \<and> unat m \<le> 4096"
proof -
  have "m \<le> MAX_CYCLE_LENGTH \<longleftrightarrow> unat m \<le> 4096" by (simp add: MAX_CYCLE_LENGTH_def word_le_nat)
  moreover have "add_cycle_weight n t = Inr m \<longleftrightarrow> checked_add n (tf_weight t) = Some m \<and> m \<le> MAX_CYCLE_LENGTH"
    by (auto simp: add_cycle_weight_def result_simps split: option.splits if_splits)
  ultimately show ?thesis by (auto simp: checked_add_Some_iff)
qed

lemma cycle_length_loop:
  assumes "unat n \<le> 4096"
  shows "try_fold add_cycle_weight n ts = Inr m \<longleftrightarrow>
    unat m = unat n + cycle_weight ts \<and> unat n + cycle_weight ts \<le> 4096"
  using assms
proof (induction ts arbitrary: n)
  case Nil
  then show ?case by (auto simp: cycle_weight_list word_eq_nat)
next
  case (Cons t ts)
  have w: "cycle_weight (t # ts) = unat (tf_weight t) + cycle_weight ts" by (simp add: cycle_weight_list)
  have "try_fold add_cycle_weight n (t # ts) = Inr m \<longleftrightarrow>
      (\<exists>k. unat k = unat n + unat (tf_weight t) \<and> unat k \<le> 4096 \<and> try_fold add_cycle_weight k ts = Inr m)"
    by (auto simp: and_then_Inr_iff add_cycle_weight_iff)
  also have "\<dots> \<longleftrightarrow> (\<exists>k :: u16. unat k = unat n + unat (tf_weight t)) \<and>
      unat m = unat n + cycle_weight (t # ts) \<and> unat n + cycle_weight (t # ts) \<le> 4096"
    using Cons.IH by (auto simp: w)
  also have "\<dots> \<longleftrightarrow> unat m = unat n + cycle_weight (t # ts) \<and> unat n + cycle_weight (t # ts) \<le> 4096"
    using unat_witness [where 'n = 16, of "unat n + unat (tf_weight t)"] by (auto simp: w)
  finally show ?case .
qed

lemma adjacent_equal_iff:
  "sorted (map tf_tenant_id ts) \<Longrightarrow> adjacent_equal ts \<longleftrightarrow> \<not> distinct (map tf_tenant_id ts)"
  by (induction ts rule: adjacent_equal.induct) (auto simp: order.antisym)

lemma sort_weights:
  "weights_wf (sort_key tf_tenant_id ts) \<longleftrightarrow> weights_wf ts"
  "cycle_weight (sort_key tf_tenant_id ts) = cycle_weight ts"
  "adjacent_equal (sort_key tf_tenant_id ts) \<longleftrightarrow> \<not> distinct (map tf_tenant_id ts)"
proof -
  show "weights_wf (sort_key tf_tenant_id ts) \<longleftrightarrow> weights_wf ts" by (simp add: weights_wf_def)
  show "cycle_weight (sort_key tf_tenant_id ts) = cycle_weight ts"
    unfolding cycle_weight_list by (simp flip: sum_mset_sum_list)
  have "distinct (map tf_tenant_id (sort_key tf_tenant_id ts)) \<longleftrightarrow> distinct (map tf_tenant_id ts)"
    by (rule mset_eq_imp_distinct_iff) simp
  then show "adjacent_equal (sort_key tf_tenant_id ts) \<longleftrightarrow> \<not> distinct (map tf_tenant_id ts)"
    by (simp add: adjacent_equal_iff)
qed

definition policy_bytes_ok :: "string option \<Rightarrow> bool" where
  "policy_bytes_ok b \<longleftrightarrow> (case b of None \<Rightarrow> False | Some bs \<Rightarrow> bs \<noteq> [] \<and> length bs \<le> MAX_POLICY_BYTES)"

abbreviation policy_entries :: "tenant_fairness_weight list \<Rightarrow> (tenant_id \<times> u16) list" where
  "policy_entries ts \<equiv> map (\<lambda>t. (tf_tenant_id t, tf_weight t)) (sort_key tf_tenant_id ts)"

definition policy_shape_ok :: "tenant_fairness_weight list \<Rightarrow> bool" where
  "policy_shape_ok ts \<longleftrightarrow> ts \<noteq> [] \<and> length ts \<le> MAX_TENANTS \<and> distinct (map tf_tenant_id ts) \<and> cycle_weight ts \<le> 4096"

text \<open>Everything an accepted policy carries.\<close>

definition policy_wf :: "tenant_fairness_weight list \<Rightarrow> 'd fairness_policy \<Rightarrow> bool" where
  "policy_wf unsorted p \<longleftrightarrow>
     fp_tenants p = sort_key tf_tenant_id unsorted \<and>
     exact_cycle (fp_tenants p) (fp_cycle p) \<and> length (fp_starvation_bounds p) = length (fp_tenants p) \<and>
     (\<forall>i<length (fp_tenants p). unat (maximum_reservations_until_selection (fp_starvation_bounds p ! i)) =
        max_gap (length (fp_cycle p)) (positions_of (fp_cycle p) i)) \<and>
     unat (reg_cycle_length (fp_registration p)) = length (fp_cycle p) \<and>
     reg_shard_id (fp_registration p) = fp_shard_id p \<and> reg_policy_bytes (fp_registration p) = fp_canonical_bytes p"

lemma compiled_exists:
  assumes "weights_wf ts" and "ts \<noteq> []" and "cycle_weight ts \<le> 4096" and "unat n = cycle_weight ts"
  obtains cycle bounds where "compile_smooth_cycle ts n = Inr cycle" "exact_cycle ts cycle"
    "verify_cycle_counts ts cycle = Inr ()" "derive_starvation_bounds (length ts) cycle = Inr bounds"
    "length bounds = length ts"
    "\<And>i. i < length ts \<Longrightarrow> unat (maximum_reservations_until_selection (bounds ! i)) =
       max_gap (length cycle) (positions_of cycle i)"
proof -
  obtain cycle where c: "compile_smooth_cycle ts n = Inr cycle" "exact_cycle ts cycle"
    using compile_exact [OF assms(4) cycle_weight_pos [OF assms(1,2)]] by blast
  have "length cycle < 2 ^ 16" using c(2) assms(3) by (simp add: exact_cycle_def)
  then show ?thesis
    using derive_exact [OF c(2) assms(1)] verify_exact [OF c(2) assms(1)] c that by blast
qed

lemma registration_new_iff:
  "registration_new sha256 shard bytes n = Inr r \<longleftrightarrow>
     bytes \<noteq> [] \<and> length bytes \<le> MAX_POLICY_BYTES \<and> 0 < unat n \<and> unat n \<le> 4096 \<and>
     r = \<lparr>reg_shard_id = shard, reg_policy_digest = sha256 (POLICY_DIGEST_DOMAIN @ bytes),
          reg_policy_bytes = bytes, reg_cycle_length = n\<rparr>"
proof -
  have "n = 0 \<longleftrightarrow> unat n = 0" "n > MAX_CYCLE_LENGTH \<longleftrightarrow> unat n > 4096"
    by (simp_all add: MAX_CYCLE_LENGTH_def word_less_nat unat_eq_zero)
  then show ?thesis by (auto simp: registration_new_def result_simps not_less)
qed

lemma policy_new_complete:
  assumes "weights_wf ts" and "policy_shape_ok ts" and "policy_bytes_ok (encode (policy_entries ts))"
  shows "\<exists>p. fairness_policy_new encode sha256 shard ts = Inr p \<and> policy_wf ts p \<and> fp_shard_id p = shard"
proof -
  define us where "us = sort_key tf_tenant_id ts"
  have "length us = length ts" by (simp add: us_def)
  then have ne: "us \<noteq> []" using assms(2) by (auto simp: policy_shape_ok_def)
  have us: "weights_wf us" "us \<noteq> []" "cycle_weight us \<le> 4096" "\<not> adjacent_equal us"
    using assms(1,2) ne by (simp_all add: us_def sort_weights policy_shape_ok_def)
  obtain bytes where b: "encode (map (\<lambda>t. (tf_tenant_id t, tf_weight t)) us) = Some bytes" "bytes \<noteq> []"
      "length bytes \<le> MAX_POLICY_BYTES"
    using assms(3) by (auto simp: policy_bytes_ok_def us_def split: option.splits)
  obtain n :: u16 where n: "unat n = cycle_weight us" using us(3) unat_witness [where 'n = 16, of "cycle_weight us"] by auto
  have loop: "try_fold add_cycle_weight 0 us = Inr n" using n us(3) by (simp add: cycle_length_loop)
  obtain cycle bounds where c: "compile_smooth_cycle us n = Inr cycle" "exact_cycle us cycle"
      "verify_cycle_counts us cycle = Inr ()" "derive_starvation_bounds (length us) cycle = Inr bounds"
      "length bounds = length us"
      "\<And>i. i < length us \<Longrightarrow> unat (maximum_reservations_until_selection (bounds ! i)) =
         max_gap (length cycle) (positions_of cycle i)"
    using compiled_exists [OF us(1-3) n] by metis
  obtain r where r: "registration_new sha256 shard bytes n = Inr r" "reg_cycle_length r = n" "reg_shard_id r = shard"
      "reg_policy_bytes r = bytes"
    using b n us(3) cycle_weight_pos [OF us(1,2)] by (auto simp: registration_new_iff)
  have ts: "ts \<noteq> []" "\<not> length ts > MAX_TENANTS" using assms(2) by (auto simp: policy_shape_ok_def)
  define p where "p = \<lparr>fp_shard_id = shard, fp_tenants = us, fp_cycle = cycle, fp_starvation_bounds = bounds,
    fp_canonical_bytes = bytes, fp_registration = r\<rparr>"
  have "fairness_policy_new encode sha256 shard ts = Inr p"
    unfolding fairness_policy_new_def Let_def us_def [symmetric] p_def
    by (simp add: ts us(4) loop c(1,3,4) b(1) r(1) del: of_nat_unat)
  moreover have "policy_wf ts p"
    unfolding policy_wf_def p_def us_def [symmetric]
    using c(2,5,6) r n by (simp add: exact_cycle_def)
  ultimately show ?thesis by (intro exI [of _ p]) (simp add: p_def)
qed

lemma policy_new_sound:
  assumes "fairness_policy_new encode sha256 shard ts = Inr p"
  shows "policy_shape_ok ts \<and> policy_bytes_ok (encode (policy_entries ts))"
proof -
  obtain n bytes r where "ts \<noteq> []" "\<not> length ts > MAX_TENANTS" "\<not> adjacent_equal (sort_key tf_tenant_id ts)"
      "try_fold add_cycle_weight 0 (sort_key tf_tenant_id ts) = Inr n"
      "encode (policy_entries ts) = Some bytes" "registration_new sha256 shard bytes n = Inr r"
    using assms unfolding fairness_policy_new_def Let_def
    by (auto simp: and_then_Inr_iff reject_if_Inr_iff map_err_Inr_iff ok_or_Inr_iff)
  then show ?thesis
    by (auto simp: policy_shape_ok_def policy_bytes_ok_def sort_weights cycle_length_loop registration_new_iff)
qed

lemma policy_new_wf:
  assumes "fairness_policy_new encode sha256 shard ts = Inr p" and "weights_wf ts"
  shows "policy_wf ts p"
  using policy_new_complete [OF assms(2)] policy_new_sound [OF assms(1)] assms(1) by (metis sum.inject(2))

lemma policy_slot:
  assumes "policy_wf ts p" and "distinct (map tf_tenant_id ts)" and "i < length (fp_tenants p)"
    and "k < length (fp_cycle p)" and "length (fp_cycle p) < 2 ^ 16"
  shows "tenant_for_slot p (word_of_nat k) = Some (tf_tenant_id (fp_tenants p ! i)) \<longleftrightarrow> fp_cycle p ! k = i"
proof -
  have d: "distinct (map tf_tenant_id (fp_tenants p))"
    using assms(1,2) sort_weights(3) [of ts] adjacent_equal_iff [of "sort_key tf_tenant_id ts"]
    by (simp add: policy_wf_def)
  have "unat (word_of_nat k :: u16) = k" using assms(4,5) by (simp add: unat_of_nat)
  moreover have "set (fp_cycle p) \<subseteq> {..<length (fp_tenants p)}"
    using assms(1) unfolding policy_wf_def exact_cycle_def by blast
  then have "fp_cycle p ! k < length (fp_tenants p)" using assms(4) nth_mem by blast
  ultimately show ?thesis
    using assms(3,4) nth_eq_iff_index_eq [OF d] by (auto simp: tenant_for_slot_def)
qed

lemma policy_cycle_length:
  "policy_wf ts p \<Longrightarrow> policy_shape_ok ts \<Longrightarrow> length (fp_cycle p) = cycle_weight ts \<and> length (fp_cycle p) \<le> 4096"
  by (simp add: policy_wf_def policy_shape_ok_def exact_cycle_def sort_weights)

lemma policy_index:
  assumes "policy_wf ts p" and "t \<in> set ts"
  obtains i where "i < length (fp_tenants p)" "fp_tenants p ! i = t"
  using assms by (metis in_set_conv_nth policy_wf_def set_sort)

lemma policy_share:
  assumes wf: "policy_wf ts p" and shape: "policy_shape_ok ts" and "t \<in> set ts"
  shows "length (filter (\<lambda>k. tenant_for_slot p (word_of_nat k) = Some (tf_tenant_id t)) [0..<length (fp_cycle p)]) =
    unat (tf_weight t)"
proof -
  obtain i where i: "i < length (fp_tenants p)" "fp_tenants p ! i = t" using policy_index [OF wf assms(3)] .
  have "filter (\<lambda>k. tenant_for_slot p (word_of_nat k) = Some (tf_tenant_id t)) [0..<length (fp_cycle p)] =
      positions_of (fp_cycle p) i"
    unfolding positions_of_def
    using policy_slot [OF wf _ i(1)] policy_cycle_length [OF wf shape] shape i(2)
    by (intro filter_cong) (auto simp: policy_shape_ok_def)
  moreover have "count_list (fp_cycle p) i = unat (tf_weight t)"
    using wf i by (simp add: policy_wf_def exact_cycle_def)
  ultimately show ?thesis by (simp add: length_positions_of)
qed

section \<open>Retries\<close>

record fair_scheduler_options =
  fo_maximum_reservation_attempts :: u8
  fo_reservation_retry_initial_delay :: duration

datatype fair_scheduler_options_error = InvalidReservationAttempts | InvalidReservationRetryDelay

definition HARD_MAXIMUM_RESERVATION_ATTEMPTS :: u8 where "HARD_MAXIMUM_RESERVATION_ATTEMPTS = 10"

definition MAX_RESERVATION_RETRY_DELAY :: duration where
  "MAX_RESERVATION_RETRY_DELAY = duration_from_millis 1000"

definition fair_scheduler_options_new ::
  "u8 \<Rightarrow> duration \<Rightarrow> (fair_scheduler_options_error, fair_scheduler_options) result" where
  "fair_scheduler_options_new attempts delay =
     and_then (reject_if (attempts = 0 \<or> attempts > HARD_MAXIMUM_RESERVATION_ATTEMPTS) InvalidReservationAttempts) (\<lambda>_.
     and_then (reject_if (duration_nanos delay = 0 \<or> duration_nanos delay > duration_nanos MAX_RESERVATION_RETRY_DELAY)
       InvalidReservationRetryDelay) (\<lambda>_.
     Inr \<lparr>fo_maximum_reservation_attempts = attempts, fo_reservation_retry_initial_delay = delay\<rparr>))"

text \<open>\<open>Duration::checked_mul\<close>: the product must fit the seconds of a duration.\<close>

definition duration_checked_mul :: "duration \<Rightarrow> nat \<Rightarrow> duration option" where
  "duration_checked_mul d m =
     (if duration_nanos d * m div 1000000000 < 2 ^ 64 then Some (nanos_duration (duration_nanos d * m)) else None)"

definition duration_min :: "duration \<Rightarrow> duration \<Rightarrow> duration" where
  "duration_min a b = (if duration_nanos a \<le> duration_nanos b then a else b)"

definition exponential_backoff :: "duration \<Rightarrow> u8 \<Rightarrow> duration" where
  "exponential_backoff initial attempt =
     (let shift = unat attempt - 1;
          multiplier = (if shift < 32 then 2 ^ shift else 2 ^ 32 - 1)
      in duration_min (case duration_checked_mul initial multiplier of Some d \<Rightarrow> d | None \<Rightarrow> MAX_RESERVATION_RETRY_DELAY)
           MAX_RESERVATION_RETRY_DELAY)"

lemma duration_nanos_of: "n div 1000000000 < 2 ^ 64 \<Longrightarrow> duration_nanos (nanos_duration n) = n"
  by (simp add: duration_nanos_def nanos_duration_def unat_of_nat)

lemma max_delay_nanos: "duration_nanos MAX_RESERVATION_RETRY_DELAY = 1000000000"
  by (simp add: duration_nanos_def MAX_RESERVATION_RETRY_DELAY_def duration_from_millis_def)

lemma backoff_nanos:
  assumes "duration_nanos delay \<le> 1000000000" and "unat attempt \<le> 10"
  shows "duration_nanos (exponential_backoff delay attempt) = min (duration_nanos delay * 2 ^ (unat attempt - 1)) 1000000000"
proof -
  define shift where "shift = unat attempt - 1"
  have shift: "shift < 32" "shift \<le> 9" using assms(2) by (simp_all add: shift_def)
  have "(2 :: nat) ^ shift \<le> 2 ^ 9" using shift(2) by (intro power_increasing) simp_all
  then have "duration_nanos delay * 2 ^ shift \<le> 1000000000 * 2 ^ 9" using assms(1) by (intro mult_mono) auto
  then have "duration_nanos delay * 2 ^ shift div 1000000000 \<le> 1000000000 * 2 ^ 9 div 1000000000"
    by (rule div_le_mono)
  then have fits: "duration_nanos delay * 2 ^ shift div 1000000000 < 2 ^ 64" by simp
  then have "duration_nanos (nanos_duration (duration_nanos delay * 2 ^ shift)) = duration_nanos delay * 2 ^ shift"
    by (rule duration_nanos_of)
  then show ?thesis
    using fits shift(1) unfolding exponential_backoff_def Let_def shift_def [symmetric]
    by (simp add: duration_checked_mul_def duration_min_def max_delay_nanos min_def)
qed

text \<open>Replicas that list the same weights in any order compile the same policy, or fail with the same error.\<close>

lemma policy_permuted:
  assumes "mset us = mset vs"
  shows "fairness_policy_new encode sha256 shard us = fairness_policy_new encode sha256 shard vs"
proof (cases "distinct (map tf_tenant_id us)")
  case True
  have "length us = length vs" "us = [] \<longleftrightarrow> vs = []" using assms mset_eq_length by force+
  moreover have "sort_key tf_tenant_id us = sort_key tf_tenant_id vs"
    using True assms by (intro sort_key_permuted) (metis mset_map mset_eq_imp_distinct_iff mset_eq_setD)+
  ultimately show ?thesis unfolding fairness_policy_new_def Let_def by simp
next
  case False
  then have "\<not> distinct (map tf_tenant_id vs)" using assms by (metis mset_map mset_eq_imp_distinct_iff)
  moreover have "length us = length vs" using assms mset_eq_length by blast
  ultimately show ?thesis
    using False unfolding fairness_policy_new_def Let_def by (cases "us = []"; cases "vs = []") (auto simp: sort_weights)
qed

section \<open>A sample policy\<close>

definition sample_tenants :: "tenant_fairness_weight list" where
  "sample_tenants =
     [\<lparr>tf_tenant_id = TenantId ''tenant-c'', tf_weight = 1\<rparr>, \<lparr>tf_tenant_id = TenantId ''tenant-a'', tf_weight = 5\<rparr>,
      \<lparr>tf_tenant_id = TenantId ''tenant-b'', tf_weight = 2\<rparr>]"

abbreviation sample_policy :: "(policy_error, string fairness_policy) result" where
  "sample_policy \<equiv> fairness_policy_new (\<lambda>_. Some ''{}'') (\<lambda>b. b) (SchedulerShardId ''prod:v1'') sample_tenants"

lemma sample_tenants_wf: "weights_wf sample_tenants" "policy_shape_ok sample_tenants"
  by (simp_all add: weights_wf_iff sample_tenants_def policy_shape_ok_def MAX_TENANTS_def cycle_weight_list)

lemma sample_policy_ok: "\<exists>p. sample_policy = Inr p"
  using policy_new_complete [OF sample_tenants_wf, of "\<lambda>_. Some ''{}''" "\<lambda>b. b" "SchedulerShardId ''prod:v1''"]
  by (auto simp: policy_bytes_ok_def MAX_POLICY_BYTES_def)

section \<open>Properties of policies\<close>

text \<open>
  A fairness policy is accepted exactly when it names between one and 1024 distinct tenants whose
  weights add up to at most 4096 and whose canonical encoding is within its bound. The compiler never
  panics and its own verification never rejects a cycle it compiled.
\<close>

lemma policy_accepts_iff:
  assumes "weights_wf ts"
  shows "is_ok (fairness_policy_new encode sha256 shard ts) \<longleftrightarrow>
    policy_shape_ok ts \<and> policy_bytes_ok (encode (policy_entries ts))"
  using policy_new_complete [OF assms] policy_new_sound by (metis is_ok_iff)

lemma policy_accepts_iff_witness: "is_ok sample_policy"
  using policy_accepts_iff [OF sample_tenants_wf(1), of "\<lambda>_. Some ''{}''" "\<lambda>b. b" "SchedulerShardId ''prod:v1''"]
    sample_tenants_wf(2)
  by (simp add: policy_bytes_ok_def MAX_POLICY_BYTES_def)

text \<open>
  One cycle serves every tenant exactly its weight: of the slots of the compiled cycle, as many
  select a tenant as its configured weight says, and the cycle has as many slots as the weights add
  up to.
\<close>

lemma exact_shares:
  assumes "weights_wf ts" and "fairness_policy_new encode sha256 shard ts = Inr p" and "t \<in> set ts"
  shows "length (filter (\<lambda>k. tenant_for_slot p (word_of_nat k) = Some (tf_tenant_id t)) [0..<length (fp_cycle p)]) =
      unat (tf_weight t) \<and>
    length (fp_cycle p) = sum_list (map (\<lambda>t. unat (tf_weight t)) ts)"
proof -
  note wf = policy_new_wf [OF assms(2,1)] and shape = policy_new_sound [OF assms(2), THEN conjunct1]
  show ?thesis
    using policy_share [OF wf shape assms(3)] policy_cycle_length [OF wf shape] by (simp add: cycle_weight_list)
qed

lemma exact_shares_witness:
  "\<exists>p. sample_policy = Inr p \<and> length (fp_cycle p) = 8 \<and>
     length (filter (\<lambda>k. tenant_for_slot p (word_of_nat k) = Some (TenantId ''tenant-a'')) [0..<length (fp_cycle p)]) = 5"
proof -
  obtain p where p: "sample_policy = Inr p" using sample_policy_ok by blast
  have a: "\<lparr>tf_tenant_id = TenantId ''tenant-a'', tf_weight = 5\<rparr> \<in> set sample_tenants"
    by (simp add: sample_tenants_def)
  have "sum_list (map (\<lambda>t. unat (tf_weight t)) sample_tenants) = 8" by (simp add: sample_tenants_def)
  with exact_shares [OF sample_tenants_wf(1) p a] p show ?thesis by (intro exI [of _ p]) auto
qed

text \<open>
  C22. The published starvation bound of a tenant is exact: after any slot the tenant is selected within
  that many further slots, for some slot it takes exactly that many, and the bound is at most the cycle
  length minus the weight plus one.
\<close>

theorem starvation_bound_exact:
  assumes "weights_wf ts" and "fairness_policy_new encode sha256 shard ts = Inr p" and "t \<in> set ts"
  shows "\<exists>b. starvation_bound_of p (tf_tenant_id t) = Some (TenantStarvationBound b) \<and>
    (\<forall>k. \<exists>d. 0 < d \<and> d \<le> unat b \<and>
       tenant_for_slot p (word_of_nat ((k + d) mod length (fp_cycle p))) = Some (tf_tenant_id t)) \<and>
    (\<exists>k. \<forall>d. 0 < d \<and> d < unat b \<longrightarrow>
       tenant_for_slot p (word_of_nat ((k + d) mod length (fp_cycle p))) \<noteq> Some (tf_tenant_id t)) \<and>
    unat b + unat (tf_weight t) \<le> length (fp_cycle p) + 1"
proof -
  note wf = policy_new_wf [OF assms(2,1)] and shape = policy_new_sound [OF assms(2), THEN conjunct1]
  let ?n = "length (fp_cycle p)"
  obtain i where i: "i < length (fp_tenants p)" "fp_tenants p ! i = t" using policy_index [OF wf assms(3)] .
  note len = policy_cycle_length [OF wf shape]
  let ?ps = "positions_of (fp_cycle p) i"
  have w: "count_list (fp_cycle p) i = unat (tf_weight t)" using wf i by (simp add: policy_wf_def exact_cycle_def)
  have "1 \<le> unat (tf_weight t)" using assms(1,3) by (simp add: weights_wf_iff)
  then have ps: "positions_wf ?n ?ps" using positions_of_wf [of "fp_cycle p" i] w by simp
  have n: "0 < ?n" using ps by (auto simp: positions_wf_def)
  have slot: "tenant_for_slot p (word_of_nat (q mod ?n)) = Some (tf_tenant_id t) \<longleftrightarrow> q mod ?n \<in> set ?ps" for q
    using policy_slot [OF wf _ i(1), of "q mod ?n"] shape len i(2) n by (simp add: set_positions_of policy_shape_ok_def)
  have "sorted_wrt (<) (map tf_tenant_id (fp_tenants p))"
    using wf shape sort_weights(3) [of ts] adjacent_equal_iff [of "sort_key tf_tenant_id ts"]
    by (simp add: policy_wf_def policy_shape_ok_def strict_sorted_iff)
  then have "binary_search tf_tenant_id (tf_tenant_id t) (fp_tenants p) = Some i"
    using i by (simp add: binary_search_Some_iff)
  moreover obtain b where b: "fp_starvation_bounds p ! i = TenantStarvationBound b"
    by (cases "fp_starvation_bounds p ! i")
  ultimately have "starvation_bound_of p (tf_tenant_id t) = Some (TenantStarvationBound b)"
    by (simp add: starvation_bound_of_def)
  moreover have gap: "unat b = max_gap ?n ?ps" using wf i(1) b by (auto simp: policy_wf_def)
  moreover have "\<exists>d. 0 < d \<and> d \<le> unat b \<and> (k + d) mod ?n \<in> set ?ps" for k
    using selected_within_gap [OF ps mod_less_divisor [OF n, of k]] by (simp add: gap mod_simps)
  moreover have "\<exists>k. \<forall>d. 0 < d \<and> d < unat b \<longrightarrow> (k + d) mod ?n \<notin> set ?ps"
    using max_gap_attained [OF ps] by (auto simp: gap)
  moreover have "unat b + unat (tf_weight t) \<le> ?n + 1"
    using max_gap_bound(1) [OF ps] w by (simp add: gap length_positions_of)
  ultimately show ?thesis using slot by (intro exI [of _ b]) auto
qed

theorem starvation_bound_exact_witness:
  "\<exists>p b. sample_policy = Inr p \<and>
     starvation_bound_of p (TenantId ''tenant-a'') = Some (TenantStarvationBound b) \<and> unat b + 5 \<le> length (fp_cycle p) + 1"
proof -
  obtain p where p: "sample_policy = Inr p" using sample_policy_ok by blast
  have a: "\<lparr>tf_tenant_id = TenantId ''tenant-a'', tf_weight = 5\<rparr> \<in> set sample_tenants"
    by (simp add: sample_tenants_def)
  from starvation_bound_exact [OF sample_tenants_wf(1) p a] p show ?thesis by auto
qed

text \<open>
  The running scores stay far inside 64 bits: in every round of the compiler each score is more than
  minus 4096 and at most four million, so the signed additions and subtractions never overflow.
\<close>

lemma scores_bounded:
  assumes "weights_wf ts" and "ts \<noteq> []" and "cycle_weight ts \<le> 4096" and "k \<le> cycle_weight ts"
    and "try_fold (\<lambda>s _. smooth_round ts (int (cycle_weight ts)) s) (replicate (length ts) 0, []) [0..<k] =
      Inr (current, cycle)"
  shows "\<forall>score\<in>set current. - 4096 < score \<and> score \<le> 2 ^ 22"
proof
  fix score
  assume "score \<in> set current"
  moreover have inv: "smooth_inv ts k (current, cycle)"
    using smooth_rounds_inv [OF cycle_weight_pos [OF assms(1,2)], of k] assms(5) by auto
  ultimately obtain i where i: "i < length ts" "score = current ! i"
    by (auto simp: smooth_inv_def in_set_conv_nth)
  then have "- int (cycle_weight ts) < score" "score \<le> int k * int (weight_at ts i)"
    using inv by (auto simp: smooth_inv_def)
  moreover have "int k * int (weight_at ts i) \<le> 4096 * 1024"
    using assms(3,4) weight_at_wf [OF assms(1) i(1)] by (intro mult_mono) auto
  ultimately show "- 4096 < score \<and> score \<le> 2 ^ 22" using assms(3) by simp
qed

lemma scores_bounded_witness:
  "\<exists>current cycle. try_fold (\<lambda>s _. smooth_round sample_tenants (int (cycle_weight sample_tenants)) s)
     (replicate (length sample_tenants) 0, []) [0..<3] = Inr (current, cycle) \<and>
     (\<forall>score\<in>set current. - 4096 < score \<and> score \<le> 2 ^ 22)"
proof -
  have w: "sample_tenants \<noteq> []" "cycle_weight sample_tenants \<le> 4096" "3 \<le> cycle_weight sample_tenants"
    by (simp_all add: sample_tenants_def cycle_weight_list)
  obtain s where "try_fold (\<lambda>s _. smooth_round sample_tenants (int (cycle_weight sample_tenants)) s)
      (replicate (length sample_tenants) 0, []) [0..<3] = Inr s"
    using smooth_rounds_inv [OF cycle_weight_pos [OF sample_tenants_wf(1) w(1)], of 3] by blast
  with scores_bounded [OF sample_tenants_wf(1) w, of "fst s" "snd s"] show ?thesis
    by (intro exI [of _ "fst s"] exI [of _ "snd s"]) simp
qed

end
