(* ===== verification/FairStore.thy ===== *)
theory FairStore
  imports FairScheduler Transitions
begin

text \<open>
  The durable side of the fair scheduler, \<open>crates/stateknot-store-postgres/src/store.rs\<close>: registering a
  policy, reserving the next slot of a shard, and pruning old reservations. The two tables of migration
  0014 are lists of rows; a transaction is a function on them. Times are microseconds as stored, the
  clock of the database is the argument \<open>now\<close>. A reservation looks its identity up, then waits for the
  row lock of the shard: \<open>others\<close> is what other transactions commit meanwhile. Hash and UUID inspection
  are third-party code, the fields of \<open>externals\<close>.
\<close>

section \<open>Tables\<close>

record externals =
  ext_sha256 :: "string \<Rightarrow> string"
  ext_rfc4122 :: "uuid \<Rightarrow> bool"
  ext_sort_rand :: "uuid \<Rightarrow> bool"

record shard_row =
  sr_shard_id :: string
  sr_policy_digest :: string
  sr_policy_bytes :: string
  sr_cycle_length :: int
  sr_next_slot :: int
  sr_next_sequence :: int
  sr_registered_at :: int
  sr_updated_at :: int

record reservation_row =
  rr_shard_id :: string
  rr_reservation_id :: uuid
  rr_policy_digest :: string
  rr_sequence :: int
  rr_slot :: int
  rr_reserved_at :: int

record fair_db =
  db_shards :: "shard_row list"
  db_reservations :: "reservation_row list"

record stored_policy =
  sp_registration :: "string fairness_registration"
  sp_registered_at :: timestamp

record fairness_reservation =
  fr_shard_id :: scheduler_shard_id
  fr_reservation_id :: scheduler_reservation_id
  fr_policy_digest :: string
  fr_sequence :: u64
  fr_slot :: u16
  fr_reserved_at :: timestamp

datatype registration_outcome = Registered stored_policy | Idempotent stored_policy

definition u16_try_from :: "int \<Rightarrow> string \<Rightarrow> (store_error, u16) result" where
  "u16_try_from v record_name = (if 0 \<le> v \<and> v < 2 ^ 16 then Inr (word_of_int v) else Inl (Corrupt record_name))"

definition u64_try_from :: "int \<Rightarrow> string \<Rightarrow> (store_error, u64) result" where
  "u64_try_from v record_name = (if 0 \<le> v \<and> v < 2 ^ 64 then Inr (word_of_int v) else Inl (Corrupt record_name))"

definition from_database_time :: "int \<Rightarrow> (store_error, timestamp) result" where
  "from_database_time v = map_err (\<lambda>_. Corrupt ''timestamp'') (from_unix_micros v)"

definition decode_digest :: "string \<Rightarrow> string \<Rightarrow> (store_error, string) result" where
  "decode_digest bs record_name = (if length bs = 32 then Inr bs else Inl (Corrupt record_name))"

section \<open>Decoding rows\<close>

definition decode_policy :: "externals \<Rightarrow> shard_row \<Rightarrow> (store_error, stored_policy) result" where
  "decode_policy x row =
     and_then (map_err (\<lambda>_. Corrupt ''scheduler fairness shard identity'') (shard_new (sr_shard_id row))) (\<lambda>shard.
     and_then (u16_try_from (sr_cycle_length row) ''scheduler fairness cycle length'') (\<lambda>cycle_length.
     and_then (map_err (\<lambda>_. Corrupt ''scheduler fairness policy shape'')
        (registration_new (ext_sha256 x) shard (sr_policy_bytes row) cycle_length)) (\<lambda>registration.
     and_then (decode_digest (sr_policy_digest row) ''scheduler fairness policy digest'') (\<lambda>digest.
     and_then (reject_if (reg_policy_digest registration \<noteq> digest) (Corrupt ''scheduler fairness policy checksum'')) (\<lambda>_.
     and_then (u16_try_from (sr_next_slot row) ''scheduler fairness cursor'') (\<lambda>next_slot.
     and_then (reject_if (next_slot \<ge> cycle_length \<or> sr_next_sequence row < 0)
        (Corrupt ''scheduler fairness cursor projection'')) (\<lambda>_.
     and_then (from_database_time (sr_registered_at row)) (\<lambda>registered_at.
     and_then (from_database_time (sr_updated_at row)) (\<lambda>updated_at.
     and_then (reject_if (updated_at < registered_at) (Corrupt ''scheduler fairness clock projection'')) (\<lambda>_.
     Inr \<lparr>sp_registration = registration, sp_registered_at = registered_at\<rparr>))))))))))"

definition select_shard :: "fair_db \<Rightarrow> string \<Rightarrow> shard_row option" where
  "select_shard db shard = List.find (\<lambda>r. sr_shard_id r = shard) (db_shards db)"

text \<open>The reservation row joined with the digest and the cycle length of its shard.\<close>

definition load_reservation_row :: "fair_db \<Rightarrow> uuid \<Rightarrow> (reservation_row \<times> string \<times> int) option" where
  "load_reservation_row db rid =
     Option.bind (List.find (\<lambda>r. rr_reservation_id r = rid) (db_reservations db)) (\<lambda>r.
     map_option (\<lambda>s. (r, sr_policy_digest s, sr_cycle_length s)) (select_shard db (rr_shard_id r)))"

definition decode_reservation ::
  "externals \<Rightarrow> reservation_row \<times> string \<times> int \<Rightarrow> (store_error, fairness_reservation) result" where
  "decode_reservation x joined =
     (let (row, shard_policy_digest, shard_cycle_length) = joined
      in and_then (map_err (\<lambda>_. Corrupt ''scheduler fairness reservation shard'') (shard_new (rr_shard_id row))) (\<lambda>shard.
     and_then (map_err (\<lambda>_. Corrupt ''scheduler fairness reservation identity'')
        (validate_generated_uuid (ext_rfc4122 x) (ext_sort_rand x) (rr_reservation_id row))) (\<lambda>rid.
     and_then (decode_digest (rr_policy_digest row) ''scheduler fairness reservation policy digest'') (\<lambda>digest.
     and_then (decode_digest shard_policy_digest ''scheduler fairness shard policy digest'') (\<lambda>shard_digest.
     and_then (u64_try_from (rr_sequence row) ''scheduler fairness reservation sequence'') (\<lambda>sequence.
     and_then (u16_try_from (rr_slot row) ''scheduler fairness reservation slot'') (\<lambda>slot.
     and_then (u16_try_from shard_cycle_length ''scheduler fairness reservation cycle'') (\<lambda>cycle_length.
     and_then (reject_if (cycle_length = 0 \<or> cycle_length > MAX_CYCLE_LENGTH \<or> slot \<ge> cycle_length \<or>
        digest \<noteq> shard_digest) (Corrupt ''scheduler fairness reservation policy projection'')) (\<lambda>_.
     and_then (from_database_time (rr_reserved_at row)) (\<lambda>reserved_at.
     Inr \<lparr>fr_shard_id = shard, fr_reservation_id = SchedulerReservationId rid, fr_policy_digest = digest,
          fr_sequence = sequence, fr_slot = slot, fr_reserved_at = reserved_at\<rparr>))))))))))"

definition validate_reservation ::
  "fairness_reservation \<Rightarrow> scheduler_shard_id \<Rightarrow> string \<Rightarrow> scheduler_reservation_id \<Rightarrow> (store_error, unit) result" where
  "validate_reservation r shard digest rid =
     reject_if (fr_shard_id r \<noteq> shard \<or> fr_policy_digest r \<noteq> digest \<or> fr_reservation_id r \<noteq> rid)
       SchedulerFairnessReservationConflict"

definition load_valid_reservation ::
  "externals \<Rightarrow> fair_db \<Rightarrow> scheduler_shard_id \<Rightarrow> string \<Rightarrow> scheduler_reservation_id \<Rightarrow>
     (store_error, fairness_reservation option) result" where
  "load_valid_reservation x db shard digest rid =
     (case load_reservation_row db (reservation_uuid rid) of
        None \<Rightarrow> Inr None
      | Some joined \<Rightarrow>
          and_then (decode_reservation x joined) (\<lambda>r.
          and_then (validate_reservation r shard digest rid) (\<lambda>_. Inr (Some r))))"

section \<open>Transactions\<close>

type_synonym 'a transaction = "(store_error, 'a) result \<times> fair_db"

definition insert_conflict :: "fair_db \<Rightarrow> reservation_row \<Rightarrow> bool" where
  "insert_conflict db row \<longleftrightarrow>
     list_ex (\<lambda>r. rr_reservation_id r = rr_reservation_id row \<or>
       rr_shard_id r = rr_shard_id row \<and> rr_sequence r = rr_sequence row) (db_reservations db)"

definition cursor_matches :: "shard_row \<Rightarrow> string \<Rightarrow> shard_row \<Rightarrow> bool" where
  "cursor_matches seen digest r \<longleftrightarrow>
     sr_shard_id r = sr_shard_id seen \<and> sr_policy_digest r = digest \<and> sr_next_slot r = sr_next_slot seen \<and>
     sr_next_sequence r = sr_next_sequence seen"

definition insert_reservation ::
  "externals \<Rightarrow> int \<Rightarrow> scheduler_shard_id \<Rightarrow> string \<Rightarrow> scheduler_reservation_id \<Rightarrow> shard_row \<Rightarrow> fair_db \<Rightarrow>
     fairness_reservation transaction" where
  "insert_reservation x now shard digest rid row db =
     (let checked =
        and_then (decode_policy x row) (\<lambda>stored.
        and_then (reject_if (reg_policy_digest (sp_registration stored) \<noteq> digest) SchedulerFairnessPolicyConflict) (\<lambda>_.
        and_then (u64_try_from (sr_next_sequence row) ''scheduler fairness sequence'') (\<lambda>sequence.
        and_then (reject_if (sr_next_sequence row = 2 ^ 63 - 1) SchedulerFairnessSequenceExhausted) (\<lambda>_.
        and_then (u16_try_from (sr_next_slot row) ''scheduler fairness cursor'') (\<lambda>slot.
        let cycle_length = reg_cycle_length (sp_registration stored)
        in and_then (reject_if (slot \<ge> cycle_length) (Corrupt ''scheduler fairness cursor'')) (\<lambda>_.
        and_then (from_database_time now) (\<lambda>reserved_at.
        let new_row = \<lparr>rr_shard_id = shard_str shard, rr_reservation_id = reservation_uuid rid,
              rr_policy_digest = digest, rr_sequence = sr_next_sequence row, rr_slot = sr_next_slot row,
              rr_reserved_at = now\<rparr>;
            next_slot = (if slot + 1 = cycle_length then 0 else slot + 1);
            advance = (\<lambda>r. if cursor_matches row digest r
              then r\<lparr>sr_next_slot := uint next_slot, sr_next_sequence := sr_next_sequence r + 1, sr_updated_at := now\<rparr>
              else r)
        in and_then (reject_if (insert_conflict db new_row) SchedulerFairnessReservationConflict) (\<lambda>_.
        and_then (reject_if (length (filter (cursor_matches row digest) (db_shards db)) \<noteq> 1)
          SchedulerFairnessPolicyConflict) (\<lambda>_.
        Inr (\<lparr>fr_shard_id = shard, fr_reservation_id = rid, fr_policy_digest = digest, fr_sequence = sequence,
               fr_slot = slot, fr_reserved_at = reserved_at\<rparr>,
             db\<lparr>db_shards := map advance (db_shards db), db_reservations := db_reservations db @ [new_row]\<rparr>))))))))))
      in case checked of Inl e \<Rightarrow> (Inl e, db) | Inr (r, db') \<Rightarrow> (Inr r, db'))"

definition reserve_slot ::
  "externals \<Rightarrow> (fair_db \<Rightarrow> fair_db) \<Rightarrow> int \<Rightarrow> scheduler_shard_id \<Rightarrow> string \<Rightarrow> scheduler_reservation_id \<Rightarrow> fair_db \<Rightarrow>
     fairness_reservation transaction" where
  "reserve_slot x others now shard digest rid db =
     (case load_valid_reservation x db shard digest rid of
        Inl e \<Rightarrow> (Inl e, db)
      | Inr (Some r) \<Rightarrow> (Inr r, db)
      | Inr None \<Rightarrow>
          (let locked = others db
           in case select_shard locked (shard_str shard) of
                None \<Rightarrow> (Inl SchedulerFairnessPolicyNotFound, locked)
              | Some row \<Rightarrow>
                  (case load_valid_reservation x locked shard digest rid of
                     Inl e \<Rightarrow> (Inl e, locked)
                   | Inr (Some r) \<Rightarrow> (Inr r, locked)
                   | Inr None \<Rightarrow> insert_reservation x now shard digest rid row locked)))"

definition register_policy ::
  "externals \<Rightarrow> int \<Rightarrow> string fairness_registration \<Rightarrow> fair_db \<Rightarrow> registration_outcome transaction" where
  "register_policy x now registration db =
     (let shard = shard_str (reg_shard_id registration);
          fresh = select_shard db shard = None;
          new_row = \<lparr>sr_shard_id = shard, sr_policy_digest = reg_policy_digest registration,
            sr_policy_bytes = reg_policy_bytes registration, sr_cycle_length = uint (reg_cycle_length registration),
            sr_next_slot = 0, sr_next_sequence = 0, sr_registered_at = now, sr_updated_at = now\<rparr>;
          inserted = (if fresh then db\<lparr>db_shards := db_shards db @ [new_row]\<rparr> else db);
          checked =
            and_then (from_database_time now) (\<lambda>_.
            and_then (ok_or (select_shard inserted shard) SchedulerFairnessPolicyConflict) (\<lambda>row.
            and_then (decode_policy x row) (\<lambda>stored.
            and_then (reject_if (sp_registration stored \<noteq> registration) SchedulerFairnessPolicyConflict) (\<lambda>_.
            Inr (if fresh then Registered stored else Idempotent stored)))))
      in case checked of Inl e \<Rightarrow> (Inl e, db) | Inr outcome \<Rightarrow> (Inr outcome, inserted))"

definition load_policy :: "externals \<Rightarrow> scheduler_shard_id \<Rightarrow> fair_db \<Rightarrow> (store_error, stored_policy) result" where
  "load_policy x shard db =
     and_then (ok_or (select_shard db (shard_str shard)) SchedulerFairnessPolicyNotFound) (\<lambda>row.
     and_then (decode_policy x row) (\<lambda>stored.
     and_then (reject_if (reg_shard_id (sp_registration stored) \<noteq> shard) (Corrupt ''scheduler fairness policy scope'')) (\<lambda>_.
     Inr stored)))"

section \<open>Retention\<close>

record retention_policy =
  rp_retain_for :: duration
  rp_batch_size :: u16

record retention_report =
  rep_observed_at :: timestamp
  rep_cutoff :: timestamp
  rep_deleted :: u16

definition MIN_RETAIN_NANOS :: nat where "MIN_RETAIN_NANOS = 3600 * 1000000000"

definition MAX_RETAIN_NANOS :: nat where "MAX_RETAIN_NANOS = 366 * 24 * 3600 * 1000000000"

definition MAX_BATCH_SIZE :: u16 where "MAX_BATCH_SIZE = 10000"

definition retention_policy_new :: "duration \<Rightarrow> u16 \<Rightarrow> (store_error, retention_policy) result" where
  "retention_policy_new retain_for batch_size =
     and_then (reject_if (duration_nanos retain_for < MIN_RETAIN_NANOS \<or> duration_nanos retain_for > MAX_RETAIN_NANOS \<or>
         batch_size = 0 \<or> batch_size > MAX_BATCH_SIZE) InvalidSchedulerFairnessRetention) (\<lambda>_.
     Inr \<lparr>rp_retain_for = retain_for, rp_batch_size = batch_size\<rparr>)"

text \<open>
  One retention pass. \<open>candidates\<close> is what the ordered, limited, lock-skipping subquery returns: any
  list of at most the batch size of distinct old rows.
\<close>

definition prune_reservations ::
  "int \<Rightarrow> retention_policy \<Rightarrow> uuid list \<Rightarrow> fair_db \<Rightarrow> retention_report transaction" where
  "prune_reservations now policy candidates db =
     (let retention_micros = int (duration_nanos (rp_retain_for policy) div 1000);
          cutoff = now - retention_micros;
          deleted = length (filter (\<lambda>r. rr_reservation_id r \<in> set candidates) (db_reservations db));
          pruned = db\<lparr>db_reservations := filter (\<lambda>r. rr_reservation_id r \<notin> set candidates) (db_reservations db)\<rparr>;
          checked =
            and_then (reject_if (retention_micros \<ge> 2 ^ 63) InvalidSchedulerFairnessRetention) (\<lambda>_.
            and_then (u16_try_from (int deleted) ''scheduler fairness retention count'') (\<lambda>count.
            and_then (from_database_time now) (\<lambda>observed_at.
            and_then (from_database_time cutoff) (\<lambda>cutoff_at.
            and_then (reject_if (cutoff_at \<ge> observed_at \<or> count > rp_batch_size policy)
              (Corrupt ''scheduler fairness retention projection'')) (\<lambda>_.
            Inr \<lparr>rep_observed_at = observed_at, rep_cutoff = cutoff_at, rep_deleted = count\<rparr>)))))
      in case checked of Inl e \<Rightarrow> (Inl e, db) | Inr r \<Rightarrow> (Inr r, pruned))"

definition prune_candidates :: "int \<Rightarrow> retention_policy \<Rightarrow> fair_db \<Rightarrow> uuid list \<Rightarrow> bool" where
  "prune_candidates now policy db candidates \<longleftrightarrow>
     distinct candidates \<and> length candidates \<le> unat (rp_batch_size policy) \<and>
     (\<forall>c\<in>set candidates. \<exists>r\<in>set (db_reservations db). rr_reservation_id r = c \<and>
        rr_reserved_at r < now - int (duration_nanos (rp_retain_for policy) div 1000))"

section \<open>Well-formed tables\<close>

lemma u16_try_from_iff [result_simps]:
  "u16_try_from v nm = Inr w \<longleftrightarrow> 0 \<le> v \<and> v < 2 ^ 16 \<and> uint w = v"
  by (auto simp: u16_try_from_def word_of_int_inverse uint_word_of_int intro: word_uint_eqI)

lemma u64_try_from_iff [result_simps]:
  "u64_try_from v nm = Inr w \<longleftrightarrow> 0 \<le> v \<and> v < 2 ^ 64 \<and> uint w = v"
  by (auto simp: u64_try_from_def word_of_int_inverse uint_word_of_int intro: word_uint_eqI)

lemma decode_digest_iff [result_simps]: "decode_digest bs nm = Inr d \<longleftrightarrow> length bs = 32 \<and> d = bs"
  by (auto simp: decode_digest_def)

lemma shard_new_iff:
  "shard_new v = Inr s \<longleftrightarrow>
     s = SchedulerShardId v \<and> v \<noteq> [] \<and> length v \<le> SHARD_MAX_LEN \<and> v \<notin> {''.'', ''..''} \<and> list_all shard_byte v"
  by (auto simp: shard_new_def validate_scheduler_shard_id_def result_simps not_less)

lemma decode_policy_obtain:
  assumes "decode_policy x row = Inr stored"
  obtains n k where "uint n = sr_cycle_length row" and "uint k = sr_next_slot row"
    and "registration_new (ext_sha256 x) (reg_shard_id (sp_registration stored)) (sr_policy_bytes row) n =
      Inr (sp_registration stored)"
    and "shard_new (sr_shard_id row) = Inr (reg_shard_id (sp_registration stored))"
    and "reg_policy_digest (sp_registration stored) = sr_policy_digest row" and "length (sr_policy_digest row) = 32"
    and "k < n" and "0 \<le> sr_next_sequence row"
proof -
  obtain shard n r k t where
    "shard_new (sr_shard_id row) = Inr shard" "uint n = sr_cycle_length row" "uint k = sr_next_slot row"
    "registration_new (ext_sha256 x) shard (sr_policy_bytes row) n = Inr r" "length (sr_policy_digest row) = 32"
    "\<not> reg_policy_digest r \<noteq> sr_policy_digest row" "\<not> (n \<le> k \<or> sr_next_sequence row < 0)"
    "stored = \<lparr>sp_registration = r, sp_registered_at = t\<rparr>"
    using assms
    unfolding decode_policy_def and_then_Inr_iff map_err_Inr_iff u16_try_from_iff decode_digest_iff reject_if_Inr_iff
    by blast
  moreover from this(4) have "reg_shard_id r = shard" by (simp add: registration_new_iff)
  ultimately show ?thesis by (intro that [of n k]) (simp_all add: not_le not_less)
qed

lemma decode_policy_Inr:
  assumes "decode_policy x row = Inr stored"
  shows "shard_new (sr_shard_id row) = Inr (reg_shard_id (sp_registration stored))"
    and "uint (reg_cycle_length (sp_registration stored)) = sr_cycle_length row"
    and "0 < sr_cycle_length row" and "sr_cycle_length row \<le> 4096"
    and "reg_policy_digest (sp_registration stored) = sr_policy_digest row" and "length (sr_policy_digest row) = 32"
    and "reg_policy_bytes (sp_registration stored) = sr_policy_bytes row"
    and "0 \<le> sr_next_slot row" and "sr_next_slot row < sr_cycle_length row" and "0 \<le> sr_next_sequence row"
proof -
  obtain n k where n: "uint n = sr_cycle_length row" and k: "uint k = sr_next_slot row"
    and r: "registration_new (ext_sha256 x) (reg_shard_id (sp_registration stored)) (sr_policy_bytes row) n =
      Inr (sp_registration stored)"
    and rest: "shard_new (sr_shard_id row) = Inr (reg_shard_id (sp_registration stored))"
      "reg_policy_digest (sp_registration stored) = sr_policy_digest row" "length (sr_policy_digest row) = 32"
      "k < n" "0 \<le> sr_next_sequence row"
    using assms by (rule decode_policy_obtain)
  have e: "sp_registration stored = \<lparr>reg_shard_id = reg_shard_id (sp_registration stored),
      reg_policy_digest = ext_sha256 x (POLICY_DIGEST_DOMAIN @ sr_policy_bytes row),
      reg_policy_bytes = sr_policy_bytes row, reg_cycle_length = n\<rparr>"
    and "0 < unat n" "unat n \<le> 4096"
    using r unfolding registration_new_iff by blast+
  moreover have "reg_cycle_length (sp_registration stored) = n"
      "reg_policy_bytes (sp_registration stored) = sr_policy_bytes row"
    by (subst e, simp)+
  ultimately show "uint (reg_cycle_length (sp_registration stored)) = sr_cycle_length row"
      "0 < sr_cycle_length row" "sr_cycle_length row \<le> 4096"
      "reg_policy_bytes (sp_registration stored) = sr_policy_bytes row"
    unfolding n [symmetric] by (simp_all only: unat_eq_nat_uint)
  show "0 \<le> sr_next_slot row" "sr_next_slot row < sr_cycle_length row"
    using rest(4) unfolding n [symmetric] k [symmetric] by (simp_all add: word_less_def)
  show "shard_new (sr_shard_id row) = Inr (reg_shard_id (sp_registration stored))"
      "reg_policy_digest (sp_registration stored) = sr_policy_digest row" "length (sr_policy_digest row) = 32"
      "0 \<le> sr_next_sequence row"
    using rest by simp_all
qed

text \<open>
  Every shard row decodes and its slot cursor is its sequence modulo the cycle; every reservation is one
  past position of its shard, under a unique identity.
\<close>

definition shard_wf :: "externals \<Rightarrow> shard_row \<Rightarrow> bool" where
  "shard_wf x s \<longleftrightarrow>
     is_ok (decode_policy x s) \<and> sr_next_slot s = sr_next_sequence s mod sr_cycle_length s \<and> sr_next_sequence s < 2 ^ 63"

definition slot_row_wf :: "externals \<Rightarrow> shard_row list \<Rightarrow> reservation_row \<Rightarrow> bool" where
  "slot_row_wf x shards r \<longleftrightarrow>
     is_ok (validate_generated_uuid (ext_rfc4122 x) (ext_sort_rand x) (rr_reservation_id r)) \<and>
     is_ok (from_database_time (rr_reserved_at r)) \<and>
     (\<exists>s\<in>set shards. sr_shard_id s = rr_shard_id r \<and> sr_policy_digest s = rr_policy_digest r \<and>
        0 \<le> rr_sequence r \<and> rr_sequence r < sr_next_sequence s \<and> rr_sequence r < 2 ^ 63 \<and>
        rr_slot r = rr_sequence r mod sr_cycle_length s)"

definition fair_db_wf :: "externals \<Rightarrow> fair_db \<Rightarrow> bool" where
  "fair_db_wf x db \<longleftrightarrow>
     distinct (map sr_shard_id (db_shards db)) \<and> (\<forall>s\<in>set (db_shards db). shard_wf x s) \<and>
     distinct (map rr_reservation_id (db_reservations db)) \<and>
     distinct (map (\<lambda>r. (rr_shard_id r, rr_sequence r)) (db_reservations db)) \<and>
     (\<forall>r\<in>set (db_reservations db). slot_row_wf x (db_shards db) r)"

text \<open>
  The same without the clock: a shard row need not decode, so this also holds of tables on which
  reservations were made while the database clock was behind a registration time.
\<close>

definition shard_inv :: "shard_row \<Rightarrow> bool" where
  "shard_inv s \<longleftrightarrow>
     is_ok (shard_new (sr_shard_id s)) \<and> length (sr_policy_digest s) = 32 \<and>
     0 < sr_cycle_length s \<and> sr_cycle_length s \<le> 4096 \<and>
     sr_next_slot s = sr_next_sequence s mod sr_cycle_length s \<and> 0 \<le> sr_next_sequence s \<and> sr_next_sequence s < 2 ^ 63"

definition tables_inv :: "externals \<Rightarrow> fair_db \<Rightarrow> bool" where
  "tables_inv x db \<longleftrightarrow>
     distinct (map sr_shard_id (db_shards db)) \<and> (\<forall>s\<in>set (db_shards db). shard_inv s) \<and>
     distinct (map rr_reservation_id (db_reservations db)) \<and>
     distinct (map (\<lambda>r. (rr_shard_id r, rr_sequence r)) (db_reservations db)) \<and>
     (\<forall>r\<in>set (db_reservations db). slot_row_wf x (db_shards db) r)"

lemma shard_wf_inv: "shard_wf x s \<Longrightarrow> shard_inv s"
  using decode_policy_Inr [of x s] by (auto simp: shard_wf_def shard_inv_def is_ok_iff)

lemma fair_tables: "fair_db_wf x db \<Longrightarrow> tables_inv x db"
  using shard_wf_inv by (auto simp: fair_db_wf_def tables_inv_def)

lemma find_distinct_iff:
  "distinct (map f xs) \<Longrightarrow> List.find (\<lambda>r. f r = k) xs = Some r \<longleftrightarrow> r \<in> set xs \<and> f r = k"
  by (induction xs) auto

lemma find_absent_iff: "List.find (\<lambda>r. f r = k) xs = None \<longleftrightarrow> k \<notin> f ` set xs"
  by (induction xs) auto

lemma find_snoc: "List.find P (xs @ [y]) = (case List.find P xs of None \<Rightarrow> if P y then Some y else None | Some z \<Rightarrow> Some z)"
  by (induction xs) auto

lemma select_shard_inv:
  "tables_inv x db \<Longrightarrow> select_shard db shard = Some s \<longleftrightarrow> s \<in> set (db_shards db) \<and> sr_shard_id s = shard"
  by (simp add: select_shard_def tables_inv_def find_distinct_iff)

lemmas select_shard_iff = select_shard_inv [OF fair_tables]

text \<open>What a well-formed reservation row decodes to.\<close>

definition reservation_of :: "reservation_row \<Rightarrow> fairness_reservation" where
  "reservation_of r =
     \<lparr>fr_shard_id = SchedulerShardId (rr_shard_id r), fr_reservation_id = SchedulerReservationId (rr_reservation_id r),
      fr_policy_digest = rr_policy_digest r, fr_sequence = word_of_int (rr_sequence r),
      fr_slot = word_of_int (rr_slot r), fr_reserved_at = Timestamp (rr_reserved_at r)\<rparr>"

lemma from_database_time_Inr: "from_database_time v = Inr t \<Longrightarrow> t = Timestamp v"
  by (auto simp: from_database_time_def from_unix_micros_def result_simps)

lemma decode_reservation_inv:
  assumes inv: "tables_inv x db" and r: "r \<in> set (db_reservations db)"
  shows "\<exists>joined. load_reservation_row db (rr_reservation_id r) = Some joined \<and>
    decode_reservation x joined = Inr (reservation_of r)"
proof -
  from inv r obtain s where s: "s \<in> set (db_shards db)" "sr_shard_id s = rr_shard_id r" "sr_policy_digest s = rr_policy_digest r"
      "0 \<le> rr_sequence r" "rr_sequence r < 2 ^ 63" "rr_slot r = rr_sequence r mod sr_cycle_length s"
    and id: "ext_rfc4122 x (rr_reservation_id r)" "ext_sort_rand x (rr_reservation_id r)"
    and "is_ok (from_database_time (rr_reserved_at r))" "shard_inv s"
    by (auto simp: tables_inv_def slot_row_wf_def is_ok_iff)
  then obtain t where t: "from_database_time (rr_reserved_at r) = Inr t" by (auto simp: is_ok_iff)
  have d: "0 < sr_cycle_length s" "sr_cycle_length s \<le> 4096" "length (sr_policy_digest s) = 32"
    using \<open>shard_inv s\<close> by (simp_all add: shard_inv_def)
  have shard: "shard_new (rr_shard_id r) = Inr (SchedulerShardId (rr_shard_id r))"
    using \<open>shard_inv s\<close> s(2) by (auto simp: shard_inv_def is_ok_iff shard_new_iff)
  have n: "uint (word_of_int (sr_cycle_length s) :: u16) = sr_cycle_length s"
    using d by (simp add: word_of_int_inverse)
  have bounds: "0 \<le> rr_slot r" "rr_slot r < sr_cycle_length s" using s(6) d(1) by simp_all
  have slot: "uint (word_of_int (rr_slot r) :: u16) = rr_slot r" using bounds d(2) by (simp add: word_of_int_inverse)
  have "load_reservation_row db (rr_reservation_id r) = Some (r, sr_policy_digest s, sr_cycle_length s)"
    using inv r s(1,2) select_shard_inv [OF inv, of "rr_shard_id r" s]
    by (simp add: load_reservation_row_def tables_inv_def find_distinct_iff [THEN iffD2])
  moreover have "decode_reservation x (r, sr_policy_digest s, sr_cycle_length s) = Inr (reservation_of r)"
  proof -
    have "u64_try_from (rr_sequence r) nm = Inr (word_of_int (rr_sequence r))" for nm
      using s(4,5) by (simp add: u64_try_from_def)
    moreover have "u16_try_from (rr_slot r) nm = Inr (word_of_int (rr_slot r))" for nm
      using bounds d(2) by (simp add: u16_try_from_def)
    moreover have "u16_try_from (sr_cycle_length s) nm = Inr (word_of_int (sr_cycle_length s))" for nm
      using d by (simp add: u16_try_from_def)
    moreover have "decode_digest (sr_policy_digest s) nm = Inr (sr_policy_digest s)" for nm
      using d(3) by (simp add: decode_digest_def)
    moreover have "\<not> (word_of_int (sr_cycle_length s) = (0 :: u16) \<or> word_of_int (sr_cycle_length s) > MAX_CYCLE_LENGTH \<or>
        (word_of_int (rr_slot r) :: u16) \<ge> word_of_int (sr_cycle_length s))"
      using n slot bounds d by (auto simp: word_le_def word_less_def MAX_CYCLE_LENGTH_def dest: arg_cong [where f = uint])
    ultimately show ?thesis
      using s(2,3) shard t id from_database_time_Inr [OF t]
      by (simp add: decode_reservation_def validate_generated_uuid_def reservation_of_def)
  qed
  ultimately show ?thesis by blast
qed

lemma load_valid_present:
  assumes "tables_inv x db" and "r \<in> set (db_reservations db)" and "rr_reservation_id r = reservation_uuid rid"
  shows "load_valid_reservation x db shard digest rid =
    (if rr_shard_id r = shard_str shard \<and> rr_policy_digest r = digest
     then Inr (Some (reservation_of r)) else Inl SchedulerFairnessReservationConflict)"
proof -
  obtain joined where "load_reservation_row db (reservation_uuid rid) = Some joined"
      "decode_reservation x joined = Inr (reservation_of r)"
    using decode_reservation_inv [OF assms(1,2)] assms(3) by auto
  then show ?thesis
    using assms(3)
    by (cases shard; cases rid)
      (auto simp: load_valid_reservation_def validate_reservation_def result_simps reservation_of_def)
qed

lemma load_valid_absent:
  assumes "reservation_uuid rid \<notin> rr_reservation_id ` set (db_reservations db)"
  shows "load_valid_reservation x db shard digest rid = Inr None"
  using assms find_absent_iff [of rr_reservation_id "reservation_uuid rid" "db_reservations db"]
  by (simp add: load_valid_reservation_def load_reservation_row_def)

section \<open>One reservation\<close>

definition new_reservation :: "int \<Rightarrow> shard_row \<Rightarrow> scheduler_reservation_id \<Rightarrow> reservation_row" where
  "new_reservation now s rid =
     \<lparr>rr_shard_id = sr_shard_id s, rr_reservation_id = reservation_uuid rid, rr_policy_digest = sr_policy_digest s,
      rr_sequence = sr_next_sequence s, rr_slot = sr_next_slot s, rr_reserved_at = now\<rparr>"

definition advanced :: "int \<Rightarrow> shard_row \<Rightarrow> shard_row" where
  "advanced now s =
     s\<lparr>sr_next_slot := (sr_next_sequence s + 1) mod sr_cycle_length s, sr_next_sequence := sr_next_sequence s + 1,
       sr_updated_at := now\<rparr>"

definition reserved_db :: "int \<Rightarrow> shard_row \<Rightarrow> scheduler_reservation_id \<Rightarrow> fair_db \<Rightarrow> fair_db" where
  "reserved_db now s rid db =
     \<lparr>db_shards = map (\<lambda>r. if sr_shard_id r = sr_shard_id s then advanced now r else r) (db_shards db),
      db_reservations = db_reservations db @ [new_reservation now s rid]\<rparr>"

lemma filter_eq_member: "distinct xs \<Longrightarrow> y \<in> set xs \<Longrightarrow> filter (\<lambda>z. z = y) xs = [y]"
  by (induction xs) (auto simp: filter_empty_conv)

text \<open>A slot cursor that is its sequence modulo the cycle stays so when both advance.\<close>

lemma next_slot_mod:
  fixes k q n :: int
  assumes "0 < n" and "k = q mod n"
  shows "(if k + 1 = n then 0 else k + 1) = (q + 1) mod n"
proof -
  have "(q + 1) mod n = (k + 1) mod n" using assms(2) by (simp add: mod_simps)
  moreover have "0 \<le> k" "k < n" using assms by simp_all
  ultimately show ?thesis using assms(1) by (auto simp: zmod_trivial_iff)
qed

lemma below_cursor_inv:
  assumes inv: "tables_inv x db" and "s \<in> set (db_shards db)" and "r \<in> set (db_reservations db)"
    and "rr_shard_id r = sr_shard_id s"
  shows "rr_sequence r < sr_next_sequence s" and "rr_slot r = rr_sequence r mod sr_cycle_length s"
    and "rr_policy_digest r = sr_policy_digest s"
proof -
  have "slot_row_wf x (db_shards db) r" using inv assms(3) by (simp add: tables_inv_def)
  then obtain u where u: "u \<in> set (db_shards db)" "sr_shard_id u = rr_shard_id r" "rr_sequence r < sr_next_sequence u"
      "rr_slot r = rr_sequence r mod sr_cycle_length u" "rr_policy_digest r = sr_policy_digest u"
    by (auto simp: slot_row_wf_def)
  then have "u = s" using inv assms(2,4) by (auto simp: tables_inv_def distinct_map dest: inj_onD)
  with u show "rr_sequence r < sr_next_sequence s" "rr_slot r = rr_sequence r mod sr_cycle_length s"
    "rr_policy_digest r = sr_policy_digest s" by simp_all
qed

lemmas below_cursor = below_cursor_inv [OF fair_tables]

lemma insert_reservation_inv:
  assumes inv: "tables_inv x db" and stored: "decode_policy x s = Inr stored" and s: "s \<in> set (db_shards db)" "sr_shard_id s = shard_str shard"
    and digest: "sr_policy_digest s = digest" and room: "sr_next_sequence s < 2 ^ 63 - 1"
    and fresh: "reservation_uuid rid \<notin> rr_reservation_id ` set (db_reservations db)"
    and now: "from_database_time now = Inr t"
  shows "insert_reservation x now shard digest rid s db =
    (Inr (reservation_of (new_reservation now s rid)), reserved_db now s rid db)"
proof -
  note d = decode_policy_Inr [OF stored]
  have slot: "sr_next_slot s = sr_next_sequence s mod sr_cycle_length s"
    using inv s(1) by (simp add: tables_inv_def shard_inv_def)
  let ?k = "word_of_int (sr_next_slot s) :: u16"
  let ?n = "reg_cycle_length (sp_registration stored)"
  have k: "uint ?k = sr_next_slot s" using d(4,8,9) by (simp add: word_of_int_inverse)
  have k1: "uint (?k + 1) = sr_next_slot s + 1" using k d(4,8,9) by (simp add: uint_word_ariths)
  have less: "\<not> ?k \<ge> ?n" using k d(2,9) by (simp add: word_le_def)
  have last: "?k + 1 = ?n \<longleftrightarrow> sr_next_slot s + 1 = sr_cycle_length s"
    using k1 d(2) by (auto simp: word_uint_eq_iff)
  have next_slot: "uint (if ?k + 1 = ?n then 0 else ?k + 1) = (sr_next_sequence s + 1) mod sr_cycle_length s"
    using next_slot_mod [OF d(3) slot] k1 last by auto
  have id: "shard = SchedulerShardId (sr_shard_id s)" using s(2) by (cases shard) simp
  have conflict: "\<not> insert_conflict db (new_reservation now s rid)"
  proof -
    have "rr_reservation_id r \<noteq> reservation_uuid rid \<and>
        \<not> (rr_shard_id r = sr_shard_id s \<and> rr_sequence r = sr_next_sequence s)" if "r \<in> set (db_reservations db)" for r
      using fresh that below_cursor_inv(1) [OF inv s(1) that] by force
    then show ?thesis by (auto simp: insert_conflict_def list_ex_iff new_reservation_def)
  qed
  have same: "cursor_matches s digest r \<longleftrightarrow> r = s" if "r \<in> set (db_shards db)" for r
    using inv s(1) that digest by (auto simp: cursor_matches_def tables_inv_def distinct_map dest: inj_onD)
  have one: "filter (cursor_matches s digest) (db_shards db) = [s]"
  proof -
    have "filter (cursor_matches s digest) (db_shards db) = filter (\<lambda>r. r = s) (db_shards db)"
      by (intro filter_cong) (simp_all add: same)
    moreover have "distinct (db_shards db)" using inv by (auto simp: tables_inv_def distinct_map)
    ultimately show ?thesis using s(1) by (simp add: filter_eq_member)
  qed
  have advance: "map (\<lambda>r. if cursor_matches s digest r
      then r\<lparr>sr_next_slot := uint (if ?k + 1 = ?n then 0 else ?k + 1), sr_next_sequence := sr_next_sequence r + 1,
        sr_updated_at := now\<rparr> else r) (db_shards db) =
    map (\<lambda>r. if sr_shard_id r = sr_shard_id s then advanced now r else r) (db_shards db)"
  proof (intro map_cong refl)
    fix r
    assume r: "r \<in> set (db_shards db)"
    have "sr_shard_id r = sr_shard_id s \<longleftrightarrow> r = s"
      using inv s(1) r by (auto simp: tables_inv_def distinct_map dest: inj_onD)
    then show "(if cursor_matches s digest r
      then r\<lparr>sr_next_slot := uint (if ?k + 1 = ?n then 0 else ?k + 1), sr_next_sequence := sr_next_sequence r + 1,
        sr_updated_at := now\<rparr> else r) = (if sr_shard_id r = sr_shard_id s then advanced now r else r)"
      using same [OF r] next_slot by (simp only: advanced_def) simp
  qed
  have row: "\<lparr>rr_shard_id = shard_str shard, rr_reservation_id = reservation_uuid rid, rr_policy_digest = digest,
      rr_sequence = sr_next_sequence s, rr_slot = sr_next_slot s, rr_reserved_at = now\<rparr> = new_reservation now s rid"
    using s(2) digest by (simp add: new_reservation_def)
  have q: "u64_try_from (sr_next_sequence s) nm = Inr (word_of_int (sr_next_sequence s))" for nm
    using room d(10) by (simp add: u64_try_from_def)
  have sl: "u16_try_from (sr_next_slot s) nm = Inr ?k" for nm
    using d(4,8,9) by (simp add: u16_try_from_def)
  have "sr_next_sequence s \<noteq> 2 ^ 63 - 1" using room by simp
  then show ?thesis
    unfolding insert_reservation_def stored and_then_simps Let_def q sl now row advance
    using d(5) digest less conflict one id from_database_time_Inr [OF now]
    by (simp add: reserved_db_def reservation_of_def new_reservation_def)
qed

lemma insert_reservation_ok:
  assumes wf: "fair_db_wf x db" and s: "s \<in> set (db_shards db)" "sr_shard_id s = shard_str shard"
    and "sr_policy_digest s = digest" and "sr_next_sequence s < 2 ^ 63 - 1"
    and "reservation_uuid rid \<notin> rr_reservation_id ` set (db_reservations db)" and "from_database_time now = Inr t"
  shows "insert_reservation x now shard digest rid s db =
    (Inr (reservation_of (new_reservation now s rid)), reserved_db now s rid db)"
proof -
  obtain stored where "decode_policy x s = Inr stored"
    using wf s(1) by (auto simp: fair_db_wf_def shard_wf_def is_ok_iff)
  then show ?thesis using insert_reservation_inv [OF fair_tables [OF wf] _ assms(2-)] by blast
qed

lemma registered_time:
  "decode_policy x s = Inr stored \<Longrightarrow> from_database_time (sr_registered_at s) = Inr (sp_registered_at stored)"
  unfolding decode_policy_def and_then_Inr_iff by auto

lemma decode_advanced:
  assumes "decode_policy x s = Inr stored" and "from_database_time now = Inr t"
  shows "decode_policy x (advanced now s) =
    (if sp_registered_at stored \<le> t then Inr stored else Inl (Corrupt ''scheduler fairness clock projection''))"
proof -
  obtain shard n r k u where p: "shard_new (sr_shard_id s) = Inr shard"
    "u16_try_from (sr_cycle_length s) ''scheduler fairness cycle length'' = Inr n"
    "registration_new (ext_sha256 x) shard (sr_policy_bytes s) n = Inr r"
    "decode_digest (sr_policy_digest s) ''scheduler fairness policy digest'' = Inr (sr_policy_digest s)"
    "\<not> reg_policy_digest r \<noteq> sr_policy_digest s"
    "from_database_time (sr_registered_at s) = Inr u" "stored = \<lparr>sp_registration = r, sp_registered_at = u\<rparr>"
    using assms(1)
    unfolding decode_policy_def and_then_Inr_iff map_err_Inr_iff decode_digest_iff reject_if_Inr_iff
    by (auto simp: decode_digest_def)
  note d = decode_policy_Inr [OF assms(1)]
  let ?q = "(sr_next_sequence s + 1) mod sr_cycle_length s"
  have q: "0 \<le> ?q" "?q < sr_cycle_length s" using d(3) by simp_all
  then have "u16_try_from ?q nm = Inr (word_of_int ?q)" for nm using d(4) by (simp add: u16_try_from_def)
  moreover have "uint (word_of_int ?q :: u16) = ?q" using q d(4) by (simp add: word_of_int_inverse)
  then have "\<not> (word_of_int ?q :: u16) \<ge> n" using p(2) q by (simp add: u16_try_from_iff word_le_def)
  moreover have "t < u \<longleftrightarrow> \<not> sp_registered_at stored \<le> t" using p(7) by auto
  ultimately show ?thesis
    using p assms(2) d(10) by (simp add: decode_policy_def advanced_def)
qed

lemma advanced_simps [simp]:
  "sr_shard_id (advanced now s) = sr_shard_id s" "sr_policy_digest (advanced now s) = sr_policy_digest s"
  "sr_cycle_length (advanced now s) = sr_cycle_length s" "sr_policy_bytes (advanced now s) = sr_policy_bytes s"
  "sr_next_sequence (advanced now s) = sr_next_sequence s + 1" "sr_registered_at (advanced now s) = sr_registered_at s"
  "sr_next_slot (advanced now s) = (sr_next_sequence s + 1) mod sr_cycle_length s"
  by (simp_all add: advanced_def)

lemma slot_row_wf_advance:
  assumes "slot_row_wf x shards r"
  shows "slot_row_wf x (map (\<lambda>u. if sr_shard_id u = k then advanced now u else u) shards) r"
proof -
  obtain u where u: "u \<in> set shards" "sr_shard_id u = rr_shard_id r" "sr_policy_digest u = rr_policy_digest r"
      "0 \<le> rr_sequence r" "rr_sequence r < sr_next_sequence u" "rr_sequence r < 2 ^ 63"
      "rr_slot r = rr_sequence r mod sr_cycle_length u"
    using assms by (auto simp: slot_row_wf_def)
  define v where "v = (if sr_shard_id u = k then advanced now u else u)"
  have "v \<in> set (map (\<lambda>u. if sr_shard_id u = k then advanced now u else u) shards)"
    using u(1) by (auto simp: v_def)
  moreover have "sr_shard_id v = sr_shard_id u" "sr_policy_digest v = sr_policy_digest u"
      "sr_cycle_length v = sr_cycle_length u" "sr_next_sequence u \<le> sr_next_sequence v"
    by (simp_all add: v_def)
  moreover have "is_ok (validate_generated_uuid (ext_rfc4122 x) (ext_sort_rand x) (rr_reservation_id r))"
      "is_ok (from_database_time (rr_reserved_at r))"
    using assms by (simp_all add: slot_row_wf_def)
  ultimately show ?thesis
    using u(2-) unfolding slot_row_wf_def by (intro conjI bexI [of _ v]) simp_all
qed

lemma reserved_db_wf:
  assumes wf: "fair_db_wf x db" and s: "s \<in> set (db_shards db)"
    and now: "from_database_time now = Inr t" "sr_registered_at s \<le> now"
    and room: "sr_next_sequence s < 2 ^ 63 - 1"
    and rid: "ext_rfc4122 x (reservation_uuid rid)" "ext_sort_rand x (reservation_uuid rid)"
    and fresh: "reservation_uuid rid \<notin> rr_reservation_id ` set (db_reservations db)"
  shows "fair_db_wf x (reserved_db now s rid db)"
proof -
  let ?adv = "\<lambda>u. if sr_shard_id u = sr_shard_id s then advanced now u else u"
  have sw: "shard_wf x s" using wf s by (simp add: fair_db_wf_def)
  then obtain stored where stored: "decode_policy x s = Inr stored" by (auto simp: shard_wf_def is_ok_iff)
  have "from_database_time (sr_registered_at s) = Inr (sp_registered_at stored)"
    using stored by (rule registered_time)
  then have "sp_registered_at stored \<le> t"
    using now from_database_time_Inr by (auto simp: less_eq_timestamp_def dest!: from_database_time_Inr)
  then have adv: "shard_wf x (advanced now s)"
    using decode_advanced [OF stored now(1)] room by (simp add: shard_wf_def)
  have eq: "u = s" if "u \<in> set (db_shards db)" "sr_shard_id u = sr_shard_id s" for u
    using wf s that by (auto simp: fair_db_wf_def distinct_map dest: inj_onD)
  have "map sr_shard_id (map ?adv (db_shards db)) = map sr_shard_id (db_shards db)" by simp
  then have ids: "distinct (map sr_shard_id (map ?adv (db_shards db)))" using wf by (simp only: fair_db_wf_def)
  have shards: "\<forall>u\<in>set (map ?adv (db_shards db)). shard_wf x u"
    using adv eq wf by (auto simp: fair_db_wf_def)
  have "slot_row_wf x (map ?adv (db_shards db)) (new_reservation now s rid)"
    using s now(1) rid room decode_policy_Inr(10) [OF stored] sw
    by (auto simp: slot_row_wf_def new_reservation_def is_ok_iff shard_wf_def intro!: bexI [of _ "advanced now s"] image_eqI [of _ _ s])
  moreover have "slot_row_wf x (map ?adv (db_shards db)) r" if "r \<in> set (db_reservations db)" for r
    using wf that by (intro slot_row_wf_advance) (simp add: fair_db_wf_def)
  moreover have "(sr_shard_id s, sr_next_sequence s) \<notin>
      (\<lambda>r. (rr_shard_id r, rr_sequence r)) ` set (db_reservations db)"
    using below_cursor(1) [OF wf s] by force
  ultimately show ?thesis
    using ids shards wf fresh by (auto simp: fair_db_wf_def reserved_db_def new_reservation_def)
qed

lemma reserved_db_inv:
  assumes inv: "tables_inv x db" and s: "s \<in> set (db_shards db)" and now: "from_database_time now = Inr t"
    and room: "sr_next_sequence s < 2 ^ 63 - 1"
    and rid: "ext_rfc4122 x (reservation_uuid rid)" "ext_sort_rand x (reservation_uuid rid)"
    and fresh: "reservation_uuid rid \<notin> rr_reservation_id ` set (db_reservations db)"
  shows "tables_inv x (reserved_db now s rid db)"
proof -
  let ?adv = "\<lambda>u. if sr_shard_id u = sr_shard_id s then advanced now u else u"
  have sw: "shard_inv s" using inv s by (simp add: tables_inv_def)
  have adv: "shard_inv (advanced now s)" using sw room by (simp add: shard_inv_def)
  have eq: "u = s" if "u \<in> set (db_shards db)" "sr_shard_id u = sr_shard_id s" for u
    using inv s that by (auto simp: tables_inv_def distinct_map dest: inj_onD)
  have "map sr_shard_id (map ?adv (db_shards db)) = map sr_shard_id (db_shards db)" by simp
  then have ids: "distinct (map sr_shard_id (map ?adv (db_shards db)))" using inv by (simp only: tables_inv_def)
  have shards: "\<forall>u\<in>set (map ?adv (db_shards db)). shard_inv u"
    using adv eq inv by (auto simp: tables_inv_def)
  have "slot_row_wf x (map ?adv (db_shards db)) (new_reservation now s rid)"
    using s now rid sw
    by (auto simp: slot_row_wf_def new_reservation_def is_ok_iff shard_inv_def intro!: bexI [of _ "advanced now s"] image_eqI [of _ _ s])
  moreover have "slot_row_wf x (map ?adv (db_shards db)) r" if "r \<in> set (db_reservations db)" for r
    using inv that by (intro slot_row_wf_advance) (simp add: tables_inv_def)
  moreover have "(sr_shard_id s, sr_next_sequence s) \<notin>
      (\<lambda>r. (rr_shard_id r, rr_sequence r)) ` set (db_reservations db)"
    using below_cursor_inv(1) [OF inv s] by force
  ultimately show ?thesis
    using ids shards inv fresh by (auto simp: tables_inv_def reserved_db_def new_reservation_def)
qed

text \<open>The three outcomes of a reservation.\<close>

abbreviation reserved_ids :: "fair_db \<Rightarrow> uuid set" where
  "reserved_ids db \<equiv> rr_reservation_id ` set (db_reservations db)"

lemma reserve_found_inv:
  assumes "tables_inv x db" and "r \<in> set (db_reservations db)" and "rr_reservation_id r = reservation_uuid rid"
  shows "reserve_slot x others now shard digest rid db =
    (if rr_shard_id r = shard_str shard \<and> rr_policy_digest r = digest then Inr (reservation_of r)
     else Inl SchedulerFairnessReservationConflict, db)"
  using load_valid_present [OF assms, of shard digest] by (simp add: reserve_slot_def)

lemmas reserve_found = reserve_found_inv [OF fair_tables]

lemma reserve_fresh:
  assumes "reservation_uuid rid \<notin> reserved_ids db" and "reservation_uuid rid \<notin> reserved_ids (others db)"
    and "fair_db_wf x (others db)" and "s \<in> set (db_shards (others db))" and "sr_shard_id s = shard_str shard"
    and "sr_policy_digest s = digest" and "sr_next_sequence s < 2 ^ 63 - 1" and "from_database_time now = Inr t"
  shows "reserve_slot x others now shard digest rid db =
    (Inr (reservation_of (new_reservation now s rid)), reserved_db now s rid (others db))"
proof -
  have "select_shard (others db) (shard_str shard) = Some s" using assms(3-5) by (simp add: select_shard_iff)
  then show ?thesis
    using load_valid_absent assms(1,2) insert_reservation_ok [OF assms(3-7) assms(2,8)]
    by (simp add: reserve_slot_def)
qed

lemma insert_reservation_cases:
  obtains e where "insert_reservation x now shard digest rid s db = (Inl e, db)"
  | stored t where "decode_policy x s = Inr stored" "reg_policy_digest (sp_registration stored) = digest"
      "sr_next_sequence s \<noteq> 2 ^ 63 - 1" "from_database_time now = Inr t"
proof (cases "insert_reservation x now shard digest rid s db")
  case (Pair res db')
  show ?thesis
  proof (cases res)
    case (Inl e)
    then show ?thesis using that(1) Pair
      by (auto simp: insert_reservation_def Let_def split: sum.splits)
  next
    case (Inr f)
    then obtain stored t where "decode_policy x s = Inr stored" "\<not> reg_policy_digest (sp_registration stored) \<noteq> digest"
        "\<not> sr_next_sequence s = 2 ^ 63 - 1" "from_database_time now = Inr t"
      using Pair unfolding insert_reservation_def Let_def
      by (auto simp: result_simps split: sum.splits)
    then show ?thesis using that(2) by blast
  qed
qed

lemma reserve_cases_inv:
  assumes inv: "tables_inv x db" and res: "reserve_slot x (\<lambda>d. d) now shard digest rid db = (res, db')"
  obtains (failed) e where "res = Inl e" "db' = db"
  | (found) r where "r \<in> set (db_reservations db)" "rr_reservation_id r = reservation_uuid rid" "db' = db"
      "rr_shard_id r = shard_str shard" "rr_policy_digest r = digest" "res = Inr (reservation_of r)"
  | (fresh) s t where "reservation_uuid rid \<notin> reserved_ids db" "s \<in> set (db_shards db)" "sr_shard_id s = shard_str shard"
      "sr_policy_digest s = digest" "sr_next_sequence s < 2 ^ 63 - 1" "from_database_time now = Inr t"
      "res = Inr (reservation_of (new_reservation now s rid))" "db' = reserved_db now s rid db"
proof (cases "reservation_uuid rid \<in> reserved_ids db")
  case True
  then obtain r where r: "r \<in> set (db_reservations db)" "rr_reservation_id r = reservation_uuid rid" by auto
  then show ?thesis
    using reserve_found_inv [OF inv r, of "\<lambda>d. d" now shard digest] res failed found by (auto split: if_splits)
next
  case False
  show ?thesis
  proof (cases "select_shard db (shard_str shard)")
    case None
    then show ?thesis using res failed load_valid_absent [OF False] by (auto simp: reserve_slot_def)
  next
    case (Some s)
    then have s: "s \<in> set (db_shards db)" "sr_shard_id s = shard_str shard" using select_shard_inv [OF inv] by auto
    have ins: "insert_reservation x now shard digest rid s db = (res, db')"
      using res load_valid_absent [OF False] Some by (simp add: reserve_slot_def)
    show ?thesis
    proof (cases rule: insert_reservation_cases [of x now shard digest rid s db])
      case (1 e)
      then show ?thesis using ins failed by simp
    next
      case (2 stored t)
      have "sr_next_sequence s < 2 ^ 63" using inv s(1) by (simp add: tables_inv_def shard_inv_def)
      then have "sr_next_sequence s < 2 ^ 63 - 1" using 2(3) by simp
      moreover have "sr_policy_digest s = digest" using 2(2) decode_policy_Inr(5) [OF 2(1)] by simp
      ultimately show ?thesis
        using insert_reservation_inv [OF inv 2(1) s _ _ False 2(4)] ins fresh [OF False s _ _ 2(4)] by simp
    qed
  qed
qed

lemmas reserve_cases = reserve_cases_inv [OF fair_tables, consumes 2, case_names failed found fresh]

section \<open>Registration\<close>

definition registration_ok :: "externals \<Rightarrow> string fairness_registration \<Rightarrow> bool" where
  "registration_ok x g \<longleftrightarrow>
     registration_new (ext_sha256 x) (reg_shard_id g) (reg_policy_bytes g) (reg_cycle_length g) = Inr g \<and>
     length (reg_policy_digest g) = 32 \<and> is_ok (shard_new (shard_str (reg_shard_id g)))"

definition first_row :: "int \<Rightarrow> string fairness_registration \<Rightarrow> shard_row" where
  "first_row now g =
     \<lparr>sr_shard_id = shard_str (reg_shard_id g), sr_policy_digest = reg_policy_digest g,
      sr_policy_bytes = reg_policy_bytes g, sr_cycle_length = uint (reg_cycle_length g),
      sr_next_slot = 0, sr_next_sequence = 0, sr_registered_at = now, sr_updated_at = now\<rparr>"

lemma decode_first_row:
  assumes "registration_ok x g" and "from_database_time now = Inr t"
  shows "decode_policy x (first_row now g) = Inr \<lparr>sp_registration = g, sp_registered_at = t\<rparr>"
proof -
  have shard: "shard_new (shard_str (reg_shard_id g)) = Inr (reg_shard_id g)"
    using assms(1) by (cases "reg_shard_id g") (auto simp: registration_ok_def is_ok_iff shard_new_iff)
  have n: "u16_try_from (uint (reg_cycle_length g)) nm = Inr (reg_cycle_length g)" for nm
    using uint_bounded [of "reg_cycle_length g"] by (simp add: u16_try_from_def)
  have reg: "registration_new (ext_sha256 x) (reg_shard_id g) (reg_policy_bytes g) (reg_cycle_length g) = Inr g"
      "length (reg_policy_digest g) = 32"
    using assms(1) by (simp_all add: registration_ok_def)
  then have "0 < unat (reg_cycle_length g)" unfolding registration_new_iff by blast
  then have "\<not> (0 :: u16) \<ge> reg_cycle_length g" by (simp add: word_le_nat)
  moreover have "u16_try_from 0 nm = Inr 0" for nm by (simp add: u16_try_from_def)
  ultimately show ?thesis
    using shard n reg assms(2) by (simp add: decode_policy_def first_row_def decode_digest_def)
qed

lemma first_row_wf: "registration_ok x g \<Longrightarrow> from_database_time now = Inr t \<Longrightarrow> shard_wf x (first_row now g)"
  using decode_first_row [of x g now t] by (simp add: shard_wf_def) (simp add: first_row_def)

lemma register_policy_fresh:
  assumes "registration_ok x g" and "select_shard db (shard_str (reg_shard_id g)) = None" and "from_database_time now = Inr t"
  shows "register_policy x now g db =
    (Inr (Registered \<lparr>sp_registration = g, sp_registered_at = t\<rparr>), db\<lparr>db_shards := db_shards db @ [first_row now g]\<rparr>)"
proof -
  have "select_shard (db\<lparr>db_shards := db_shards db @ [first_row now g]\<rparr>) (shard_str (reg_shard_id g)) = Some (first_row now g)"
    using assms(2) by (simp add: select_shard_def find_snoc) (simp add: first_row_def)
  then show ?thesis
    using assms decode_first_row [OF assms(1,3)]
    unfolding register_policy_def Let_def first_row_def [symmetric] by simp
qed

lemma register_policy_present:
  assumes wf: "fair_db_wf x db" and s: "select_shard db (shard_str (reg_shard_id g)) = Some s"
    and now: "from_database_time now = Inr t"
  obtains stored where "decode_policy x s = Inr stored"
    "register_policy x now g db =
      (if sp_registration stored = g then Inr (Idempotent stored) else Inl SchedulerFairnessPolicyConflict, db)"
proof -
  have "shard_wf x s" using wf s select_shard_iff [OF wf] by (auto simp: fair_db_wf_def)
  then obtain stored where stored: "decode_policy x s = Inr stored" by (auto simp: shard_wf_def is_ok_iff)
  have "register_policy x now g db =
      (if sp_registration stored = g then Inr (Idempotent stored) else Inl SchedulerFairnessPolicyConflict, db)"
    using s stored now by (simp add: register_policy_def)
  with stored show ?thesis by (rule that)
qed

lemma register_policy_change:
  assumes g: "registration_ok x g" and res: "register_policy x now g db = (res, db')"
  obtains (same) "db' = db"
  | (fresh) t where "shard_str (reg_shard_id g) \<notin> sr_shard_id ` set (db_shards db)" "from_database_time now = Inr t"
      "db' = db\<lparr>db_shards := db_shards db @ [first_row now g]\<rparr>"
proof (cases "from_database_time now")
  case (Inl e)
  then show ?thesis using res same by (auto simp: register_policy_def Let_def)
next
  case (Inr t)
  show ?thesis
  proof (cases "select_shard db (shard_str (reg_shard_id g))")
    case None
    then have "shard_str (reg_shard_id g) \<notin> sr_shard_id ` set (db_shards db)"
      by (simp add: select_shard_def find_absent_iff)
    then show ?thesis using register_policy_fresh [OF g None Inr] res Inr fresh by simp
  next
    case (Some s)
    then show ?thesis using res same by (auto simp: register_policy_def Let_def split: sum.splits)
  qed
qed

lemma slot_row_wf_more: "slot_row_wf x shards r \<Longrightarrow> slot_row_wf x (shards @ new_rows) r"
  by (auto simp: slot_row_wf_def)

lemma register_wf:
  assumes "fair_db_wf x db" and "registration_ok x g" and "register_policy x now g db = (res, db')"
  shows "fair_db_wf x db'"
  using assms(2,3)
proof (cases rule: register_policy_change)
  case (fresh t)
  then show ?thesis
    using assms(1) first_row_wf [OF assms(2) fresh(2)]
    by (auto simp: fair_db_wf_def slot_row_wf_more) (simp add: first_row_def image_iff)
qed (simp add: assms(1))

section \<open>Histories at any clock\<close>

text \<open>
  Registrations, reservations and retention passes in any order and at any clock. A step carries the
  reservation it hands to its caller, if it does; a run carries all of them, the latest first.
  A reservation that waits for the lock of its shard is the same as one that does not, at another time.
\<close>

definition generated :: "externals \<Rightarrow> scheduler_reservation_id \<Rightarrow> bool" where
  "generated x rid \<longleftrightarrow> ext_rfc4122 x (reservation_uuid rid) \<and> ext_sort_rand x (reservation_uuid rid)"

fun answers :: "(store_error, fairness_reservation) result \<Rightarrow> fairness_reservation list" where
  "answers (Inl e) = []"
| "answers (Inr f) = [f]"

inductive store_step :: "externals \<Rightarrow> fair_db \<Rightarrow> fairness_reservation list \<Rightarrow> fair_db \<Rightarrow> bool" for x where
  reserve: "generated x rid \<Longrightarrow> reserve_slot x (\<lambda>d. d) now shard digest rid db = (res, db') \<Longrightarrow>
    store_step x db (answers res) db'"
| register: "registration_ok x g \<Longrightarrow> register_policy x now g db = (res, db') \<Longrightarrow> store_step x db [] db'"
| prune: "prune_candidates now policy db cs \<Longrightarrow> prune_reservations now policy cs db = (res, db') \<Longrightarrow> store_step x db [] db'"

inductive store_run :: "externals \<Rightarrow> fairness_reservation list \<Rightarrow> fair_db \<Rightarrow> bool" for x where
  empty: "store_run x [] \<lparr>db_shards = [], db_reservations = []\<rparr>"
| step: "store_run x fs db \<Longrightarrow> store_step x db out db' \<Longrightarrow> store_run x (out @ fs) db'"

definition later :: "externals \<Rightarrow> fair_db \<Rightarrow> fair_db \<Rightarrow> bool" where
  "later x db db' \<longleftrightarrow> (\<exists>out. store_step x db out db')"

text \<open>A step that does not delete the reservation \<open>rid\<close>.\<close>

definition keeps :: "externals \<Rightarrow> scheduler_reservation_id \<Rightarrow> fair_db \<Rightarrow> fair_db \<Rightarrow> bool" where
  "keeps x rid db db' \<longleftrightarrow> later x db db' \<and> reservation_uuid rid \<in> reserved_ids db'"

lemma prune_cases:
  assumes "prune_reservations now policy cs db = (res, db')"
  shows "db_shards db' = db_shards db \<and> (\<exists>P. db_reservations db' = filter P (db_reservations db))"
  using assms by (auto simp: prune_reservations_def Let_def split: sum.splits intro: exI [of _ "\<lambda>r. True"])

lemma reserve_inv:
  assumes inv: "tables_inv x db" and "generated x rid" and "reserve_slot x (\<lambda>d. d) now shard digest rid db = (res, db')"
  shows "tables_inv x db'"
  using inv assms(3)
proof (cases rule: reserve_cases_inv)
  case (fresh s t)
  then show ?thesis
    using reserved_db_inv [OF inv fresh(2,6,5) _ _ fresh(1)] assms(2) by (simp add: generated_def)
qed (simp_all add: inv)

lemma register_inv:
  assumes "tables_inv x db" and "registration_ok x g" and "register_policy x now g db = (res, db')"
  shows "tables_inv x db'"
  using assms(2,3)
proof (cases rule: register_policy_change)
  case (fresh t)
  then show ?thesis
    using assms(1) shard_wf_inv [OF first_row_wf [OF assms(2) fresh(2)]]
    by (auto simp: tables_inv_def slot_row_wf_more) (simp add: first_row_def image_iff)
qed (simp add: assms(1))

lemma prune_inv: "tables_inv x db \<Longrightarrow> prune_reservations now policy cs db = (res, db') \<Longrightarrow> tables_inv x db'"
  using prune_cases [of now policy cs db res db'] by (auto simp: tables_inv_def distinct_map_filter)

lemma store_step_inv: "store_step x db out db' \<Longrightarrow> tables_inv x db \<Longrightarrow> tables_inv x db'"
  by (elim store_step.cases) (auto intro: reserve_inv register_inv prune_inv)

text \<open>The number of slots ever handed out, over all shards.\<close>

definition slots_handed_out :: "fair_db \<Rightarrow> nat" where
  "slots_handed_out db = nat (sum_list (map sr_next_sequence (db_shards db)))"

text \<open>How a step changes the row of a shard: not at all, or by advancing its cursor.\<close>

definition same_policy :: "shard_row \<Rightarrow> shard_row \<Rightarrow> bool" where
  "same_policy s u \<longleftrightarrow> sr_shard_id u = sr_shard_id s \<and> sr_policy_digest u = sr_policy_digest s \<and>
     sr_policy_bytes u = sr_policy_bytes s \<and> sr_cycle_length u = sr_cycle_length s \<and>
     sr_registered_at u = sr_registered_at s \<and> sr_next_sequence s \<le> sr_next_sequence u"

lemma store_step_shard:
  assumes "store_step x db out db'" and "tables_inv x db" and "s \<in> set (db_shards db)"
  shows "\<exists>u\<in>set (db_shards db'). same_policy s u"
  using assms(1)
proof (cases rule: store_step.cases)
  case (reserve rid now shard digest res)
  from assms(2) reserve(3) show ?thesis
  proof (cases rule: reserve_cases_inv)
    case (fresh v t)
    define u where "u = (if sr_shard_id s = sr_shard_id v then advanced now s else s)"
    have "u \<in> set (db_shards db')" using fresh(8) assms(3) by (auto simp: reserved_db_def u_def)
    moreover have "same_policy s u" by (simp add: u_def same_policy_def)
    ultimately show ?thesis by blast
  qed (use assms(3) in \<open>auto simp: same_policy_def\<close>)
next
  case (register g now res)
  from register(2,3) show ?thesis
    by (cases rule: register_policy_change) (use assms(3) in \<open>auto simp: same_policy_def\<close>)
next
  case (prune now policy cs res)
  then show ?thesis using prune_cases [OF prune(3)] assms(3) by (auto simp: same_policy_def)
qed

lemma store_step_slots:
  assumes "store_step x db out db'" and "tables_inv x db"
  shows "slots_handed_out db \<le> slots_handed_out db'"
  using assms(1)
proof (cases rule: store_step.cases)
  case (reserve rid now shard digest res)
  from assms(2) reserve(3) show ?thesis
  proof (cases rule: reserve_cases_inv)
    case (fresh v t)
    have "sum_list (map sr_next_sequence (db_shards db)) \<le>
        sum_list (map sr_next_sequence (map (\<lambda>r. if sr_shard_id r = sr_shard_id v then advanced now r else r) (db_shards db)))"
      unfolding map_map by (intro sum_list_mono) simp
    then show ?thesis using fresh(8) by (simp add: slots_handed_out_def reserved_db_def nat_mono)
  qed simp_all
next
  case (register g now res)
  from register(2,3) show ?thesis
    by (cases rule: register_policy_change) (simp_all add: slots_handed_out_def first_row_def)
next
  case (prune now policy cs res)
  then show ?thesis using prune_cases [OF prune(3)] by (simp add: slots_handed_out_def)
qed

lemma same_policy_trans: "same_policy s u \<Longrightarrow> same_policy u v \<Longrightarrow> same_policy s v"
  by (auto simp: same_policy_def)

interpretation store: ranked_machine "later x" "tables_inv x" slots_handed_out for x
  by unfold_locales (auto simp: later_def intro: store_step_inv store_step_slots)

lemma store_run_inv: "store_run x fs db \<Longrightarrow> tables_inv x db"
proof (induction rule: store_run.induct)
  case empty
  then show ?case by (simp add: tables_inv_def)
next
  case (step fs db out db')
  then show ?case by (blast intro: store_step_inv)
qed

subsection \<open>What has been handed out\<close>

text \<open>
  The rows still stored were handed out, everything handed out lies behind the cursor of its shard, and
  a position of a shard belongs to one reservation.
\<close>

definition handed_out :: "shard_row list \<Rightarrow> fairness_reservation \<Rightarrow> bool" where
  "handed_out shards f \<longleftrightarrow>
     (\<exists>s\<in>set shards. sr_shard_id s = shard_str (fr_shard_id f) \<and> uint (fr_sequence f) < sr_next_sequence s \<and>
        uint (fr_slot f) = uint (fr_sequence f) mod sr_cycle_length s)"

definition answers_inv :: "fairness_reservation list \<Rightarrow> fair_db \<Rightarrow> bool" where
  "answers_inv fs db \<longleftrightarrow>
     (\<forall>r\<in>set (db_reservations db). reservation_of r \<in> set fs) \<and>
     (\<forall>f\<in>set fs. handed_out (db_shards db) f) \<and>
     (\<forall>f\<in>set fs. \<forall>g\<in>set fs. fr_shard_id f = fr_shard_id g \<and> fr_sequence f = fr_sequence g \<longrightarrow> f = g)"

lemma new_reservation_values_inv:
  assumes "tables_inv x db" and "s \<in> set (db_shards db)"
  shows "uint (fr_sequence (reservation_of (new_reservation now s rid))) = sr_next_sequence s"
    and "uint (fr_slot (reservation_of (new_reservation now s rid))) = sr_next_sequence s mod sr_cycle_length s"
proof -
  have s: "shard_inv s" using assms by (simp add: tables_inv_def)
  then have "0 \<le> sr_next_slot s" "sr_next_slot s < sr_cycle_length s" by (simp_all add: shard_inv_def)
  with s show "uint (fr_sequence (reservation_of (new_reservation now s rid))) = sr_next_sequence s"
      "uint (fr_slot (reservation_of (new_reservation now s rid))) = sr_next_sequence s mod sr_cycle_length s"
    by (simp_all add: reservation_of_def new_reservation_def shard_inv_def word_of_int_inverse)
qed

lemma handed_out_advance:
  "handed_out shards f \<Longrightarrow> handed_out (map (\<lambda>u. if sr_shard_id u = k then advanced now u else u) shards) f"
  unfolding handed_out_def set_map bex_simps(7) by (elim bexE) (rule bexI, auto)

lemma answers_step:
  assumes "store_step x db out db'" and inv: "tables_inv x db" and fs: "answers_inv fs db"
  shows "answers_inv (out @ fs) db'"
  using assms(1)
proof (cases rule: store_step.cases)
  case (reserve rid now shard digest res)
  from inv reserve(3) show ?thesis
  proof (cases rule: reserve_cases_inv)
    case (found r)
    then have "set (out @ fs) = set fs" using reserve(1) fs by (auto simp: answers_inv_def)
    then show ?thesis using fs found(3) by (simp only: answers_inv_def)
  next
    case (fresh s t)
    let ?f = "reservation_of (new_reservation now s rid)"
    note vals = new_reservation_values_inv [OF inv fresh(2), of now rid]
    have shard: "shard_str (fr_shard_id ?f) = sr_shard_id s" by (simp add: reservation_of_def new_reservation_def)
    have eq: "u = s" if "u \<in> set (db_shards db)" "sr_shard_id u = sr_shard_id s" for u
      using inv fresh(2) that by (auto simp: tables_inv_def distinct_map dest: inj_onD)
    have other: "fr_sequence g \<noteq> fr_sequence ?f" if g: "g \<in> set fs" "fr_shard_id g = fr_shard_id ?f" for g
    proof -
      obtain u where "u \<in> set (db_shards db)" "sr_shard_id u = sr_shard_id s" "uint (fr_sequence g) < sr_next_sequence u"
        using fs g shard by (auto simp: answers_inv_def handed_out_def)
      then show ?thesis using eq vals(1) by fastforce
    qed
    have "handed_out (db_shards db') ?f"
      using fresh(2,8) vals shard unfolding handed_out_def reserved_db_def
      by (auto intro!: bexI [of _ "advanced now s"] image_eqI [of _ _ s])
    moreover have "handed_out (db_shards db') g" if "g \<in> set fs" for g
      using handed_out_advance fs that fresh(8) by (simp add: answers_inv_def reserved_db_def)
    moreover have "set (out @ fs) = insert ?f (set fs)" using reserve(1) fresh(7) by simp
    moreover have "\<forall>r\<in>set (db_reservations db'). reservation_of r \<in> insert ?f (set fs)"
      using fs fresh(8) by (auto simp: answers_inv_def reserved_db_def)
    moreover have "\<forall>g\<in>insert ?f (set fs). \<forall>h\<in>insert ?f (set fs).
        fr_shard_id g = fr_shard_id h \<and> fr_sequence g = fr_sequence h \<longrightarrow> g = h"
    proof -
      have "\<forall>g\<in>set fs. \<forall>h\<in>set fs. fr_shard_id g = fr_shard_id h \<and> fr_sequence g = fr_sequence h \<longrightarrow> g = h"
        using fs by (simp add: answers_inv_def)
      then show ?thesis using other by (metis insert_iff)
    qed
    ultimately show ?thesis unfolding answers_inv_def by simp
  qed (use reserve(1) fs in simp)
next
  case (register g now res)
  from register(2,3) show ?thesis
  proof (cases rule: register_policy_change)
    case (fresh t)
    then show ?thesis using fs register(1) by (auto simp: answers_inv_def handed_out_def)
  qed (use register(1) fs in simp)
next
  case (prune now policy cs res)
  then show ?thesis using prune_cases [OF prune(3)] fs by (auto simp: answers_inv_def)
qed

lemma store_run_answers: "store_run x fs db \<Longrightarrow> answers_inv fs db"
proof (induction rule: store_run.induct)
  case empty
  then show ?case by (simp add: answers_inv_def)
next
  case (step fs db out db')
  then show ?case using answers_step store_run_inv by blast
qed

subsection \<open>A reservation stays\<close>

lemma later_row:
  assumes "store_step x db out db'" and inv: "tables_inv x db" and r: "r \<in> set (db_reservations db)"
    and "rr_reservation_id r \<in> reserved_ids db'"
  shows "r \<in> set (db_reservations db')"
  using assms(1)
proof (cases rule: store_step.cases)
  case (reserve rid now shard digest res)
  from inv reserve(3) show ?thesis
    by (cases rule: reserve_cases_inv) (use r in \<open>auto simp: reserved_db_def\<close>)
next
  case (register g now res)
  from register(2,3) show ?thesis
    by (cases rule: register_policy_change) (use r in auto)
next
  case (prune now policy cs res)
  then obtain P where P: "db_reservations db' = filter P (db_reservations db)" using prune_cases by blast
  obtain q where "q \<in> set (db_reservations db')" "rr_reservation_id q = rr_reservation_id r" using assms(4) by auto
  moreover from this have "q = r" using inv r P by (auto simp: tables_inv_def distinct_map dest: inj_onD)
  ultimately show ?thesis by simp
qed

lemma kept_row:
  assumes "rtranclp (keeps x rid) db db'" and "tables_inv x db" and "r \<in> set (db_reservations db)"
    and "rr_reservation_id r = reservation_uuid rid"
  shows "tables_inv x db' \<and> r \<in> set (db_reservations db')"
  using assms(1)
proof (induction rule: rtranclp_induct)
  case base
  then show ?case using assms(2,3) by simp
next
  case (step k m)
  then show ?case using assms(4) later_row store_step_inv by (metis keeps_def later_def)
qed

text \<open>What a reservation answers is a row of the tables it leaves, also when it had to wait for the lock.\<close>

lemma reserve_answer:
  assumes inv: "tables_inv x db" "tables_inv x (others db)" and rid: "generated x rid"
    and res: "reserve_slot x others now shard digest rid db = (Inr f, db')"
  obtains r where "r \<in> set (db_reservations db')" and "rr_reservation_id r = reservation_uuid rid"
    and "rr_shard_id r = shard_str shard" and "rr_policy_digest r = digest" and "f = reservation_of r" and "tables_inv x db'"
proof -
  obtain d where d: "tables_inv x d" and alone: "reserve_slot x (\<lambda>d. d) now shard digest rid d = (Inr f, db')"
  proof (cases "load_valid_reservation x db shard digest rid = Inr None")
    case True
    then have "reserve_slot x (\<lambda>d. d) now shard digest rid (others db) = (Inr f, db')"
      using res by (auto simp: reserve_slot_def Let_def split: sum.splits option.splits)
    then show ?thesis using that inv(2) by blast
  next
    case False
    then have "reserve_slot x (\<lambda>d. d) now shard digest rid db = (Inr f, db')"
      using res by (auto simp: reserve_slot_def Let_def split: sum.splits option.splits)
    then show ?thesis using that inv(1) by blast
  qed
  have "tables_inv x db'" using reserve_inv [OF d rid alone] .
  with d alone show ?thesis
  proof (cases rule: reserve_cases_inv)
    case (fresh s t)
    then have "new_reservation now s rid \<in> set (db_reservations db')" by (simp add: reserved_db_def)
    then show ?thesis
      using that fresh \<open>tables_inv x db'\<close> by (simp add: new_reservation_def)
  qed (use that \<open>tables_inv x db'\<close> in auto)
qed

section \<open>Histories at clocks not behind a registration\<close>

text \<open>
  \<open>fair_step\<close> is \<open>store_step\<close> while the database clock is not behind any registration time, the condition
  \<open>clock_ok\<close>, which the store does not check. There every shard row decodes at all times.
\<close>

definition clock_ok :: "int \<Rightarrow> fair_db \<Rightarrow> bool" where
  "clock_ok now db \<longleftrightarrow> (\<forall>s\<in>set (db_shards db). sr_registered_at s \<le> now)"

inductive fair_step :: "externals \<Rightarrow> fair_db \<Rightarrow> fair_db \<Rightarrow> bool" for x where
  reserve: "clock_ok now db \<Longrightarrow> generated x rid \<Longrightarrow>
    reserve_slot x (\<lambda>d. d) now shard digest rid db = (res, db') \<Longrightarrow> fair_step x db db'"
| register: "registration_ok x g \<Longrightarrow> register_policy x now g db = (res, db') \<Longrightarrow> fair_step x db db'"
| prune: "prune_candidates now policy db cs \<Longrightarrow> prune_reservations now policy cs db = (res, db') \<Longrightarrow> fair_step x db db'"

inductive_cases fair_stepE: "fair_step x db db'"

lemma reserve_wf:
  assumes wf: "fair_db_wf x db" and "clock_ok now db" and "generated x rid"
    and "reserve_slot x (\<lambda>d. d) now shard digest rid db = (res, db')"
  shows "fair_db_wf x db'"
  using wf assms(4)
proof (cases rule: reserve_cases)
  case (fresh s t)
  then show ?thesis
    using reserved_db_wf [OF wf fresh(2,6) _ fresh(5) _ _ fresh(1)] assms(2,3)
    by (simp add: clock_ok_def generated_def)
qed (simp_all add: wf)

lemma prune_wf: "fair_db_wf x db \<Longrightarrow> prune_reservations now policy cs db = (res, db') \<Longrightarrow> fair_db_wf x db'"
  using prune_cases [of now policy cs db res db'] by (auto simp: fair_db_wf_def distinct_map_filter)

lemma fair_step_later: "fair_step x db db' \<Longrightarrow> later x db db'"
  unfolding later_def by (elim fair_step.cases) (blast intro: store_step.intros)+

lemma fair_step_shard:
  "fair_step x db db' \<Longrightarrow> fair_db_wf x db \<Longrightarrow> s \<in> set (db_shards db) \<Longrightarrow> \<exists>u\<in>set (db_shards db'). same_policy s u"
  using fair_step_later store_step_shard fair_tables unfolding later_def by blast

lemma fair_step_slots: "fair_step x db db' \<Longrightarrow> fair_db_wf x db \<Longrightarrow> slots_handed_out db \<le> slots_handed_out db'"
  using fair_step_later store.step_rank fair_tables by blast

lemma fair_step_wf: "fair_step x db db' \<Longrightarrow> fair_db_wf x db \<Longrightarrow> fair_db_wf x db'"
  by (elim fair_step.cases) (auto intro: reserve_wf register_wf prune_wf)

interpretation fair: ranked_machine "fair_step x" "fair_db_wf x" slots_handed_out for x
  by unfold_locales (auto intro: fair_step_wf fair_step_slots)

lemma fair_reach_shard:
  assumes "rtranclp (fair_step x) db db'" and "fair_db_wf x db" and "s \<in> set (db_shards db)"
  shows "\<exists>u\<in>set (db_shards db'). same_policy s u"
  using assms(1)
proof (induction rule: rtranclp_induct)
  case base
  then show ?case using assms(3) by (auto simp: same_policy_def)
next
  case (step k m)
  have "fair_db_wf x k" using step.hyps(1) assms(2) by (rule fair.reach_inv)
  then show ?case using step.IH fair_step_shard [OF step.hyps(2)] same_policy_trans by meson
qed

section \<open>Consecutive reservations\<close>

fun reserve_all ::
  "externals \<Rightarrow> scheduler_shard_id \<Rightarrow> string \<Rightarrow> (int \<times> scheduler_reservation_id) list \<Rightarrow> fair_db \<Rightarrow>
     fairness_reservation list transaction" where
  "reserve_all x shard digest [] db = (Inr [], db)"
| "reserve_all x shard digest ((now, rid) # calls) db =
     (case reserve_slot x (\<lambda>d. d) now shard digest rid db of
        (Inl e, db1) \<Rightarrow> (Inl e, db1)
      | (Inr f, db1) \<Rightarrow>
          (case reserve_all x shard digest calls db1 of
             (Inl e, db2) \<Rightarrow> (Inl e, db2)
           | (Inr fs, db2) \<Rightarrow> (Inr (f # fs), db2)))"

definition calls_ok :: "externals \<Rightarrow> int \<Rightarrow> fair_db \<Rightarrow> (int \<times> scheduler_reservation_id) list \<Rightarrow> bool" where
  "calls_ok x registered db calls \<longleftrightarrow>
     distinct (map (\<lambda>c. reservation_uuid (snd c)) calls) \<and>
     (\<forall>(now, rid)\<in>set calls. registered \<le> now \<and> is_ok (from_database_time now) \<and> generated x rid \<and>
        reservation_uuid rid \<notin> reserved_ids db)"

lemma reserved_ids_reserved_db: "reserved_ids (reserved_db now s rid db) = insert (reservation_uuid rid) (reserved_ids db)"
  by (simp add: reserved_db_def new_reservation_def)

lemmas new_reservation_values = new_reservation_values_inv [OF fair_tables]

lemma reserve_all_slots:
  assumes "fair_db_wf x db" and "s \<in> set (db_shards db)" and "sr_shard_id s = shard_str shard" and "sr_policy_digest s = digest"
    and "calls_ok x (sr_registered_at s) db calls" and "sr_next_sequence s + int (length calls) < 2 ^ 63"
  shows "\<exists>fs db'. reserve_all x shard digest calls db = (Inr fs, db') \<and> length fs = length calls \<and> fair_db_wf x db' \<and>
    (\<forall>k<length calls. uint (fr_sequence (fs ! k)) = sr_next_sequence s + int k \<and>
       uint (fr_slot (fs ! k)) = (sr_next_sequence s + int k) mod sr_cycle_length s)"
  using assms
proof (induction calls arbitrary: db s)
  case Nil
  then show ?case by simp
next
  case (Cons call calls)
  obtain now rid where call: "call = (now, rid)" by (cases call)
  have c: "sr_registered_at s \<le> now" "is_ok (from_database_time now)" "generated x rid" "reservation_uuid rid \<notin> reserved_ids db"
    using Cons.prems(5) by (auto simp: calls_ok_def call)
  then obtain t where t: "from_database_time now = Inr t" by (auto simp: is_ok_iff)
  have room: "sr_next_sequence s < 2 ^ 63 - 1" using Cons.prems(6) by simp
  let ?f = "reservation_of (new_reservation now s rid)" and ?db = "reserved_db now s rid db"
  have step: "reserve_slot x (\<lambda>d. d) now shard digest rid db = (Inr ?f, ?db)"
    by (rule reserve_fresh [OF c(4) _ _ _ Cons.prems(3,4) room t]) (simp_all add: Cons.prems c(4))
  have wf: "fair_db_wf x ?db"
    using reserved_db_wf [OF Cons.prems(1,2) t c(1) room _ _ c(4)] c(3) by (simp add: generated_def)
  have s': "advanced now s \<in> set (db_shards ?db)" using Cons.prems(2) by (force simp: reserved_db_def)
  have calls: "calls_ok x (sr_registered_at (advanced now s)) ?db calls"
    using Cons.prems(5) unfolding calls_ok_def reserved_ids_reserved_db by (auto simp: call image_iff)
  have n: "sr_next_sequence (advanced now s) + int (length calls) < 2 ^ 63" using Cons.prems(6) by simp
  obtain fs db' where fs: "reserve_all x shard digest calls ?db = (Inr fs, db')" "length fs = length calls" "fair_db_wf x db'"
      "\<And>k. k < length calls \<Longrightarrow> uint (fr_sequence (fs ! k)) = sr_next_sequence s + 1 + int k \<and>
         uint (fr_slot (fs ! k)) = (sr_next_sequence s + 1 + int k) mod sr_cycle_length s"
    using Cons.IH [OF wf s' _ _ calls n] Cons.prems(3,4) by auto
  have "reserve_all x shard digest (call # calls) db = (Inr (?f # fs), db')"
    using step fs(1) by (simp add: call)
  moreover have "\<forall>k<length (call # calls). uint (fr_sequence ((?f # fs) ! k)) = sr_next_sequence s + int k \<and>
      uint (fr_slot ((?f # fs) ! k)) = (sr_next_sequence s + int k) mod sr_cycle_length s"
    using new_reservation_values [OF Cons.prems(1,2), of now rid] fs(4) by (auto simp: nth_Cons' algebra_simps)
  ultimately show ?case using fs(2,3) by (intro exI [of _ "?f # fs"] exI [of _ db']) simp
qed

section \<open>A sample store\<close>

definition sample_externals :: externals where
  "sample_externals = \<lparr>ext_sha256 = (\<lambda>b. replicate 32 (CHR ''d'')), ext_rfc4122 = (\<lambda>u. True), ext_sort_rand = (\<lambda>u. True)\<rparr>"

definition sample_registration :: "string fairness_registration" where
  "sample_registration = \<lparr>reg_shard_id = SchedulerShardId ''prod'', reg_policy_digest = replicate 32 (CHR ''d''),
     reg_policy_bytes = ''{}'', reg_cycle_length = 8\<rparr>"

definition sample_store :: fair_db where
  "sample_store = \<lparr>db_shards = [first_row 100 sample_registration], db_reservations = []\<rparr>"

abbreviation sample_digest :: string where
  "sample_digest \<equiv> replicate 32 (CHR ''d'')"

lemma from_database_time_small: "0 \<le> v \<Longrightarrow> v < 1000000 \<Longrightarrow> from_database_time v = Inr (Timestamp v)"
  by (simp add: from_database_time_def from_unix_micros_def timestamp_MIN_def timestamp_MAX_def)

lemma sample_registration_ok: "registration_ok sample_externals sample_registration"
proof -
  have "is_ok (shard_new ''prod'')" by code_simp
  then show ?thesis
    by (simp add: registration_ok_def registration_new_iff sample_externals_def sample_registration_def MAX_POLICY_BYTES_def)
qed

lemma empty_db_wf: "fair_db_wf x \<lparr>db_shards = [], db_reservations = []\<rparr>"
  by (simp add: fair_db_wf_def)

lemma sample_store_wf: "fair_db_wf sample_externals sample_store"
  using first_row_wf [OF sample_registration_ok from_database_time_small [of 100]]
  by (simp add: fair_db_wf_def sample_store_def)

lemma sample_reserve:
  "reserve_slot sample_externals (\<lambda>d. d) 200 (SchedulerShardId ''prod'') sample_digest (SchedulerReservationId 7) sample_store =
     (Inr (reservation_of (new_reservation 200 (first_row 100 sample_registration) (SchedulerReservationId 7))),
      reserved_db 200 (first_row 100 sample_registration) (SchedulerReservationId 7) sample_store)"
  by (rule reserve_fresh [where t = "Timestamp 200"])
    (simp_all add: sample_store_wf from_database_time_small, simp_all add: sample_store_def first_row_def sample_registration_def)

lemma sample_generated: "generated sample_externals rid"
  by (simp add: generated_def sample_externals_def)

lemma sample_run: "store_run sample_externals [] sample_store"
proof -
  have "register_policy sample_externals 100 sample_registration \<lparr>db_shards = [], db_reservations = []\<rparr> =
      (Inr (Registered \<lparr>sp_registration = sample_registration, sp_registered_at = Timestamp 100\<rparr>), sample_store)"
    using register_policy_fresh [OF sample_registration_ok, of "\<lparr>db_shards = [], db_reservations = []\<rparr>" 100 "Timestamp 100"]
    by (simp add: select_shard_def from_database_time_small sample_store_def)
  from store_run.step [OF store_run.empty store_step.register [OF sample_registration_ok this]] show ?thesis by simp
qed

lemma sample_second:
  "reserve_slot sample_externals (\<lambda>d. d) 250 (SchedulerShardId ''prod'') sample_digest (SchedulerReservationId 8)
     (reserved_db 200 (first_row 100 sample_registration) (SchedulerReservationId 7) sample_store) =
   (Inr (reservation_of (new_reservation 250 (advanced 200 (first_row 100 sample_registration)) (SchedulerReservationId 8))),
    reserved_db 250 (advanced 200 (first_row 100 sample_registration)) (SchedulerReservationId 8)
      (reserved_db 200 (first_row 100 sample_registration) (SchedulerReservationId 7) sample_store))"
proof -
  let ?s = "first_row 100 sample_registration"
  have wf: "fair_db_wf sample_externals (reserved_db 200 ?s (SchedulerReservationId 7) sample_store)"
    by (rule reserved_db_wf [OF sample_store_wf, where t = "Timestamp 200"])
      (simp_all add: from_database_time_small sample_externals_def, simp_all add: sample_store_def first_row_def)
  have ids: "reserved_ids sample_store = {}" by (simp add: sample_store_def)
  have mem: "advanced 200 ?s \<in> set (db_shards (reserved_db 200 ?s (SchedulerReservationId 7) sample_store))"
    by (simp add: reserved_db_def sample_store_def)
  show ?thesis
    by (rule reserve_fresh [where t = "Timestamp 250"])
      (simp_all add: wf mem ids reserved_ids_reserved_db from_database_time_small, simp_all add: first_row_def sample_registration_def)
qed

section \<open>Properties of the durable cursor\<close>

text \<open>
  C31. A slot reservation takes effect exactly once. Once it has succeeded, in any state that can be
  reached from empty tables and also if it had to wait for other transactions, retrying the same identity
  returns the same reservation and leaves the tables as they are: no matter how many reservations,
  registrations and retention passes come in between, and whatever the clock shows, as long as retention
  has not deleted the reservation itself. The tables hold exactly one row under the identity.
\<close>

theorem reservation_exactly_once:
  assumes "store_run x fs db" and "rtranclp (later x) db (others db)" and "generated x rid"
    and "reserve_slot x others now shard digest rid db = (Inr f, db1)"
    and "rtranclp (keeps x rid) db1 db2"
  shows "reserve_slot x others' now' shard digest rid db2 = (Inr f, db2) \<and>
    (\<exists>!r. r \<in> set (db_reservations db2) \<and> rr_reservation_id r = reservation_uuid rid)"
proof -
  have inv: "tables_inv x db" using store_run_inv [OF assms(1)] .
  have "tables_inv x (others db)" using assms(2) inv by (rule store.reach_inv)
  then obtain r where r: "r \<in> set (db_reservations db1)" "rr_reservation_id r = reservation_uuid rid"
      "rr_shard_id r = shard_str shard" "rr_policy_digest r = digest" "f = reservation_of r" "tables_inv x db1"
    using reserve_answer [OF inv _ assms(3,4)] by blast
  have db2: "tables_inv x db2" "r \<in> set (db_reservations db2)" using kept_row [OF assms(5) r(6,1,2)] by simp_all
  have "reserve_slot x others' now' shard digest rid db2 = (Inr f, db2)"
    using reserve_found_inv [OF db2 r(2)] r(3-5) by simp
  moreover have "\<exists>!r. r \<in> set (db_reservations db2) \<and> rr_reservation_id r = reservation_uuid rid"
  proof (rule ex1I [of _ r])
    show "q = r" if "q \<in> set (db_reservations db2) \<and> rr_reservation_id q = reservation_uuid rid" for q
    proof (rule inj_onD)
      show "inj_on rr_reservation_id (set (db_reservations db2))" using db2(1) by (simp add: tables_inv_def distinct_map)
    qed (use that db2(2) r(2) in simp_all)
  qed (use db2 r(2) in simp)
  ultimately show ?thesis by blast
qed

theorem reservation_exactly_once_witness:
  "\<exists>f db1 g db2.
     reserve_slot sample_externals (\<lambda>d. d) 200 (SchedulerShardId ''prod'') sample_digest (SchedulerReservationId 7)
       sample_store = (Inr f, db1) \<and>
     reserve_slot sample_externals (\<lambda>d. d) 250 (SchedulerShardId ''prod'') sample_digest (SchedulerReservationId 8)
       db1 = (Inr g, db2) \<and>
     reserve_slot sample_externals (\<lambda>d. d) 50 (SchedulerShardId ''prod'') sample_digest (SchedulerReservationId 7) db2 =
       (Inr f, db2)"
proof -
  let ?s = "first_row 100 sample_registration" and ?rid = "SchedulerReservationId 7"
  let ?db1 = "reserved_db 200 ?s ?rid sample_store"
  let ?db2 = "reserved_db 250 (advanced 200 ?s) (SchedulerReservationId 8) ?db1"
  have second: "reserve_slot sample_externals (\<lambda>d. d) 250 (SchedulerShardId ''prod'') sample_digest (SchedulerReservationId 8) ?db1 =
      (Inr (reservation_of (new_reservation 250 (advanced 200 ?s) (SchedulerReservationId 8))), ?db2)"
    by (rule sample_second)
  then have "later sample_externals ?db1 ?db2"
    unfolding later_def by (blast intro: store_step.reserve [OF sample_generated])
  then have "rtranclp (keeps sample_externals ?rid) ?db1 ?db2"
    by (auto simp: keeps_def reserved_ids_reserved_db)
  from reservation_exactly_once [OF sample_run rtranclp.rtrancl_refl sample_generated sample_reserve this,
      of "\<lambda>d. d" 50] sample_reserve second
  show ?thesis by blast
qed

text \<open>
  C13. No slot is handed out twice. In every state that registrations, reservations and retention passes
  reach from empty tables, in any order and at any clock, two reservations handed to callers for the same
  shard and sequence number are the same reservation, even if retention has deleted its row meanwhile;
  each lies behind the cursor of its shard, its slot is its sequence number modulo the cycle length, and
  every row stored is a reservation that was handed out.
\<close>

theorem no_slot_twice:
  assumes "store_run x fs db" and "f \<in> set fs"
  shows "(\<forall>g\<in>set fs. fr_shard_id g = fr_shard_id f \<and> fr_sequence g = fr_sequence f \<longrightarrow> g = f) \<and>
    (\<exists>s\<in>set (db_shards db). sr_shard_id s = shard_str (fr_shard_id f) \<and> uint (fr_sequence f) < sr_next_sequence s \<and>
       uint (fr_slot f) = uint (fr_sequence f) mod sr_cycle_length s) \<and>
    (\<forall>r\<in>set (db_reservations db). reservation_of r \<in> set fs)"
  using store_run_answers [OF assms(1)] assms(2) by (auto simp: answers_inv_def handed_out_def)

theorem no_slot_twice_witness:
  "\<exists>f fs db. store_run sample_externals fs db \<and> f \<in> set fs \<and>
     (\<exists>s\<in>set (db_shards db). uint (fr_sequence f) < sr_next_sequence s \<and> sr_updated_at s < sr_registered_at s)"
proof -
  let ?s = "first_row 100 sample_registration" and ?rid = "SchedulerReservationId 7"
  let ?db = "reserved_db 50 ?s ?rid sample_store" and ?f = "reservation_of (new_reservation 50 ?s ?rid)"
  have "reserve_slot sample_externals (\<lambda>d. d) 50 (SchedulerShardId ''prod'') sample_digest ?rid sample_store = (Inr ?f, ?db)"
    by (rule reserve_fresh [where t = "Timestamp 50"])
      (simp_all add: sample_store_wf from_database_time_small, simp_all add: sample_store_def first_row_def sample_registration_def)
  then have run: "store_run sample_externals [?f] ?db"
    using store_run.step [OF sample_run store_step.reserve [OF sample_generated]] by fastforce
  then obtain s where "s \<in> set (db_shards ?db)" "uint (fr_sequence ?f) < sr_next_sequence s"
    using no_slot_twice [OF run, of ?f] by auto
  moreover from this(1) have "sr_updated_at s < sr_registered_at s"
    by (simp add: reserved_db_def sample_store_def advanced_def first_row_def)
  ultimately show ?thesis using run by fastforce
qed

text \<open>
  The policy of a shard is permanent: along every history its digest, its bytes and its cycle length
  stay, its cursor never goes back, and an attempt to register anything else for the shard is refused
  without a change while the same registration is acknowledged again.
\<close>

lemma policy_permanent:
  assumes "fair_db_wf x db" and "s \<in> set (db_shards db)" and "rtranclp (fair_step x) db db'"
    and "shard_str (reg_shard_id g) = sr_shard_id s" and "is_ok (from_database_time now)"
  shows "\<exists>u\<in>set (db_shards db'). same_policy s u \<and>
    (\<exists>stored. decode_policy x u = Inr stored \<and>
       register_policy x now g db' =
         (if sp_registration stored = g then Inr (Idempotent stored) else Inl SchedulerFairnessPolicyConflict, db'))"
proof -
  obtain u where u: "u \<in> set (db_shards db')" "same_policy s u" using fair_reach_shard [OF assms(3,1,2)] by blast
  have wf: "fair_db_wf x db'" using assms(3,1) by (rule fair.reach_inv)
  have sel: "select_shard db' (shard_str (reg_shard_id g)) = Some u"
    using select_shard_iff [OF wf] u assms(4) by (simp add: same_policy_def)
  obtain t where t: "from_database_time now = Inr t" using assms(5) by (auto simp: is_ok_iff)
  show ?thesis using register_policy_present [OF wf sel t] u by blast
qed

lemma policy_permanent_witness:
  "\<exists>u\<in>set (db_shards sample_store). same_policy (first_row 100 sample_registration) u \<and>
    (\<exists>stored. decode_policy sample_externals u = Inr stored \<and>
       register_policy sample_externals 300 (sample_registration\<lparr>reg_policy_bytes := ''[]''\<rparr>) sample_store =
         (if sp_registration stored = sample_registration\<lparr>reg_policy_bytes := ''[]''\<rparr> then Inr (Idempotent stored)
          else Inl SchedulerFairnessPolicyConflict, sample_store))"
  by (rule policy_permanent [OF sample_store_wf])
    (simp_all add: sample_store_def first_row_def sample_registration_def from_database_time_small)

text \<open>
  C32. Waiting for the row lock does not break a reservation: whatever other transactions commit between
  the first lookup and the lock, the outcome is the one of a reservation that runs alone, either before
  all of them or after all of them.
\<close>

theorem reserve_linearizes:
  assumes "select_shard (others db) (shard_str shard) \<noteq> None"
  shows "reserve_slot x others now shard digest rid db = reserve_slot x (\<lambda>d. d) now shard digest rid db \<and>
      snd (reserve_slot x others now shard digest rid db) = db \<or>
    reserve_slot x others now shard digest rid db = reserve_slot x (\<lambda>d. d) now shard digest rid (others db)"
proof (cases "load_valid_reservation x db shard digest rid = Inr None")
  case True
  then have "reserve_slot x others now shard digest rid db = reserve_slot x (\<lambda>d. d) now shard digest rid (others db)"
    using assms by (auto simp: reserve_slot_def split: sum.splits option.splits)
  then show ?thesis by simp
next
  case False
  then show ?thesis by (auto simp: reserve_slot_def split: sum.splits option.splits)
qed

theorem reserve_linearizes_witness:
  "reserve_slot sample_externals (\<lambda>d. sample_store) 200 (SchedulerShardId ''prod'') sample_digest (SchedulerReservationId 7)
     \<lparr>db_shards = [], db_reservations = []\<rparr> =
   reserve_slot sample_externals (\<lambda>d. d) 200 (SchedulerShardId ''prod'') sample_digest (SchedulerReservationId 7) sample_store"
proof -
  have "select_shard sample_store (shard_str (SchedulerShardId ''prod'')) \<noteq> None"
    by (simp add: select_shard_def sample_store_def first_row_def sample_registration_def)
  moreover have "reserve_slot sample_externals (\<lambda>d. d) 200 (SchedulerShardId ''prod'') sample_digest (SchedulerReservationId 7)
      \<lparr>db_shards = [], db_reservations = []\<rparr> =
      (Inl SchedulerFairnessPolicyNotFound, \<lparr>db_shards = [], db_reservations = []\<rparr>)"
    by (simp add: reserve_slot_def load_valid_absent select_shard_def)
  moreover have "is_ok (fst (reserve_slot sample_externals (\<lambda>d. sample_store) 200 (SchedulerShardId ''prod'') sample_digest
      (SchedulerReservationId 7) \<lparr>db_shards = [], db_reservations = []\<rparr>))"
    by (subst reserve_fresh [where t = "Timestamp 200" and s = "first_row 100 sample_registration"])
      (simp_all add: sample_store_wf from_database_time_small,
        simp_all add: sample_store_def first_row_def sample_registration_def)
  ultimately show ?thesis
    using reserve_linearizes [of "\<lambda>d. sample_store" "\<lparr>db_shards = [], db_reservations = []\<rparr>" "SchedulerShardId ''prod''"
        sample_externals 200 sample_digest "SchedulerReservationId 7"] by auto
qed

text \<open>
  C33. A database clock that falls behind the registration time of a shard blocks the shard: a
  reservation made at such a time is accepted, but it stores an update time before the registration
  time, and every later reservation of a new slot is refused as corrupt data.
\<close>

theorem clock_regression_blocks_shard:
  assumes "fair_db_wf x db" and "s \<in> set (db_shards db)" and "sr_shard_id s = shard_str shard"
    and "sr_policy_digest s = digest" and "sr_next_sequence s < 2 ^ 63 - 1"
    and "reservation_uuid rid \<notin> reserved_ids db" and "is_ok (from_database_time now)" and "now < sr_registered_at s"
    and "reservation_uuid rid' \<notin> insert (reservation_uuid rid) (reserved_ids db)"
  shows "\<exists>f db'. reserve_slot x (\<lambda>d. d) now shard digest rid db = (Inr f, db') \<and>
    fst (reserve_slot x (\<lambda>d. d) now' shard digest rid' db') = Inl (Corrupt ''scheduler fairness clock projection'')"
proof -
  obtain t where t: "from_database_time now = Inr t" using assms(7) by (auto simp: is_ok_iff)
  let ?db = "reserved_db now s rid db"
  have step: "reserve_slot x (\<lambda>d. d) now shard digest rid db = (Inr (reservation_of (new_reservation now s rid)), ?db)"
    using reserve_fresh [of rid db "\<lambda>d. d", OF assms(6) _ _ _ assms(3-5) t] assms(1,2,6) by simp
  have bad: "decode_policy x (advanced now s) = Inl (Corrupt ''scheduler fairness clock projection'')"
  proof -
    have "shard_wf x s" using assms(1,2) by (simp add: fair_db_wf_def)
    then obtain stored where stored: "decode_policy x s = Inr stored" by (auto simp: shard_wf_def is_ok_iff)
    have "\<not> sp_registered_at stored \<le> t"
      using registered_time [OF stored] t assms(8) by (auto dest!: from_database_time_Inr simp: less_eq_timestamp_def)
    then show ?thesis using decode_advanced [OF stored t] by simp
  qed
  have "select_shard ?db (shard_str shard) = Some (advanced now s)"
  proof -
    have ids: "map sr_shard_id (db_shards ?db) = map sr_shard_id (db_shards db)" by (simp add: reserved_db_def)
    have "distinct (map sr_shard_id (db_shards ?db))" unfolding ids using assms(1) by (simp add: fair_db_wf_def)
    moreover have "advanced now s \<in> set (db_shards ?db)" using assms(2) by (force simp: reserved_db_def)
    ultimately show ?thesis using assms(3) by (simp add: select_shard_def find_distinct_iff [THEN iffD2])
  qed
  moreover have "load_valid_reservation x ?db shard digest rid' = Inr None"
    using assms(9) by (intro load_valid_absent) (simp add: reserved_ids_reserved_db)
  ultimately have "fst (reserve_slot x (\<lambda>d. d) now' shard digest rid' ?db) = Inl (Corrupt ''scheduler fairness clock projection'')"
    using bad by (simp add: reserve_slot_def insert_reservation_def)
  with step show ?thesis by blast
qed

theorem clock_regression_blocks_shard_witness:
  "\<exists>f db'. reserve_slot sample_externals (\<lambda>d. d) 50 (SchedulerShardId ''prod'') sample_digest (SchedulerReservationId 7)
       sample_store = (Inr f, db') \<and>
     fst (reserve_slot sample_externals (\<lambda>d. d) 900 (SchedulerShardId ''prod'') sample_digest (SchedulerReservationId 8) db') =
       Inl (Corrupt ''scheduler fairness clock projection'')"
  by (rule clock_regression_blocks_shard [OF sample_store_wf, of "first_row 100 sample_registration"])
    (simp_all add: sample_store_def first_row_def sample_registration_def from_database_time_small)

end
