(* ===== verification/FairTick.thy ===== *)
theory FairTick
  imports FairStore
begin

text \<open>
  One tick of the distributed fair scheduler, \<open>DurableFairScheduler::tick_inner\<close> in
  \<open>crates/stateknot-runtime/src/fair_scheduler.rs\<close>: the bounded retry loop around the slot reservation,
  then the selection of the tenant. \<open>net\<close> says for every attempt what happens to it: it is delivered,
  its answer is lost after the commit, or it never reaches the database. What the selected tenant then
  does is the parameter \<open>run_tenant\<close>.
\<close>

section \<open>The retry loop\<close>

datatype delivery = Delivered | AnswerLost bool | NotReached bool

datatype 'e fair_scheduler_error = SchedulerStore store_error | SchedulerTenant 'e | PolicyProjectionMismatch

definition attempt_reserve ::
  "externals \<Rightarrow> delivery \<Rightarrow> int \<Rightarrow> scheduler_shard_id \<Rightarrow> string \<Rightarrow> scheduler_reservation_id \<Rightarrow> fair_db \<Rightarrow>
     fairness_reservation transaction" where
  "attempt_reserve x d now shard digest rid db =
     (case d of
        Delivered \<Rightarrow> reserve_slot x (\<lambda>d. d) now shard digest rid db
      | AnswerLost retryable \<Rightarrow> (Inl (Database retryable), snd (reserve_slot x (\<lambda>d. d) now shard digest rid db))
      | NotReached retryable \<Rightarrow> (Inl (Database retryable), db))"

definition saturating_increment :: "u8 \<Rightarrow> u8" where
  "saturating_increment a = (if a = 255 then 255 else a + 1)"

lemma saturating_increment_less: "a < b \<Longrightarrow> unat (saturating_increment a) = Suc (unat a)"
proof -
  assume "a < b"
  then have "unat a < 255" using unat_bound [of b] by (simp add: word_less_nat)
  then have "a \<noteq> 255" "unat (a + 1) = Suc (unat a)" by (auto simp: unat_word_ariths)
  then show ?thesis by (simp add: saturating_increment_def)
qed

text \<open>Besides its result the loop yields the delays it slept for, in order.\<close>

function reserve_loop ::
  "externals \<Rightarrow> (nat \<Rightarrow> delivery) \<Rightarrow> (nat \<Rightarrow> int) \<Rightarrow> fair_scheduler_options \<Rightarrow> scheduler_shard_id \<Rightarrow> string \<Rightarrow> scheduler_reservation_id \<Rightarrow> u8 \<Rightarrow> fair_db \<Rightarrow>
     ('e fair_scheduler_error, fairness_reservation \<times> u8) result \<times> duration list \<times> fair_db" where
  "reserve_loop x net clock options shard digest rid attempt db =
     (case attempt_reserve x (net (unat attempt)) (clock (unat attempt)) shard digest rid db of
        (Inr r, db') \<Rightarrow> (Inr (r, attempt - 1), [], db')
      | (Inl e, db') \<Rightarrow>
          (if attempt < fo_maximum_reservation_attempts options \<and> is_retryable e
           then let delay = exponential_backoff (fo_reservation_retry_initial_delay options) attempt;
                    (res, slept, db'') = reserve_loop x net clock options shard digest rid (saturating_increment attempt) db'
                in (res, delay # slept, db'')
           else (Inl (SchedulerStore e), [], db')))"
  by pat_completeness auto
termination
  by (relation "measure (\<lambda>(x, net, clock, options, shard, digest, rid, attempt, db).
      unat (fo_maximum_reservation_attempts options) - unat attempt)")
    (auto simp: saturating_increment_less word_less_nat)

declare reserve_loop.simps [simp del]

record 't fair_tick =
  ft_reservation :: fairness_reservation
  ft_tenant_id :: tenant_id
  ft_starvation_bound :: starvation_bound
  ft_reservation_retries :: u8
  ft_tenant_tick :: 't

definition tick_inner ::
  "externals \<Rightarrow> (nat \<Rightarrow> delivery) \<Rightarrow> (nat \<Rightarrow> int) \<Rightarrow> string fairness_policy \<Rightarrow> fair_scheduler_options \<Rightarrow>
     (tenant_id \<Rightarrow> ('e, 't) result) \<Rightarrow> scheduler_reservation_id \<Rightarrow> fair_db \<Rightarrow>
     ('e fair_scheduler_error, 't fair_tick) result \<times> duration list \<times> fair_db" where
  "tick_inner x net clock policy options run_tenant rid db =
     (let (reserved, slept, db') = reserve_loop x net clock options (fp_shard_id policy)
            (reg_policy_digest (fp_registration policy)) rid 1 db
      in (and_then reserved (\<lambda>(reservation, retries).
          and_then (ok_or (tenant_for_slot policy (fr_slot reservation)) PolicyProjectionMismatch) (\<lambda>tenant.
          and_then (ok_or (starvation_bound_of policy tenant) PolicyProjectionMismatch) (\<lambda>bound.
          and_then (map_err SchedulerTenant (run_tenant tenant)) (\<lambda>tenant_tick.
          Inr \<lparr>ft_reservation = reservation, ft_tenant_id = tenant, ft_starvation_bound = bound,
               ft_reservation_retries = retries, ft_tenant_tick = tenant_tick\<rparr>)))), slept, db'))"

section \<open>Start-up and readiness\<close>

datatype 'b build_error = BuildTenant 'b | BuildStore store_error | BuildPolicyProjectionMismatch

definition check_readiness :: "externals \<Rightarrow> string fairness_policy \<Rightarrow> fair_db \<Rightarrow> ('e fair_scheduler_error, unit) result" where
  "check_readiness x policy db =
     and_then (map_err SchedulerStore (load_policy x (fp_shard_id policy) db)) (\<lambda>stored.
     reject_if (sp_registration stored \<noteq> fp_registration policy) PolicyProjectionMismatch)"

definition outcome_policy :: "registration_outcome \<Rightarrow> stored_policy" where
  "outcome_policy outcome = (case outcome of Registered stored \<Rightarrow> stored | Idempotent stored \<Rightarrow> stored)"

definition register_scheduler ::
  "externals \<Rightarrow> int \<Rightarrow> ('b, unit) result \<Rightarrow> string fairness_policy \<Rightarrow> fair_db \<Rightarrow> ('b build_error, unit) result \<times> fair_db" where
  "register_scheduler x now tenant_scheduler policy db =
     (case tenant_scheduler of
        Inl e \<Rightarrow> (Inl (BuildTenant e), db)
      | Inr _ \<Rightarrow>
          (case register_policy x now (fp_registration policy) db of
             (Inl e, db') \<Rightarrow> (Inl (BuildStore e), db')
           | (Inr outcome, db') \<Rightarrow>
               (reject_if (sp_registration (outcome_policy outcome) \<noteq> fp_registration policy) BuildPolicyProjectionMismatch, db')))"

section \<open>At most one slot per tick\<close>

lemma sum_advanced:
  "distinct (map sr_shard_id xs) \<Longrightarrow> s \<in> set xs \<Longrightarrow>
     sum_list (map sr_next_sequence (map (\<lambda>r. if sr_shard_id r = sr_shard_id s then advanced now r else r) xs)) =
     sum_list (map sr_next_sequence xs) + 1"
proof (induction xs)
  case (Cons r xs)
  show ?case
  proof (cases "sr_shard_id r = sr_shard_id s")
    case True
    then have "map (\<lambda>r. if sr_shard_id r = sr_shard_id s then advanced now r else r) xs = xs"
      using Cons.prems(1) by (intro map_idI) (auto simp: image_iff)
    with True show ?thesis by simp
  next
    case False
    then show ?thesis using Cons by auto
  qed
qed simp

lemma slots_reserved_db:
  assumes "fair_db_wf x db" and "s \<in> set (db_shards db)"
  shows "slots_handed_out (reserved_db now s rid db) = Suc (slots_handed_out db)"
proof -
  have "0 \<le> sr_next_sequence r" if "r \<in> set (db_shards db)" for r
    using assms(1) that decode_policy_Inr(10) by (fastforce simp: fair_db_wf_def shard_wf_def is_ok_iff)
  then have "0 \<le> sum_list (map sr_next_sequence (db_shards db))" by (intro sum_list_nonneg) auto
  then show ?thesis
    using sum_advanced [of "db_shards db" s now] assms by (simp add: slots_handed_out_def reserved_db_def fair_db_wf_def nat_add_distrib)
qed

text \<open>One attempt either leaves the tables alone or takes the next slot for an identity that had none.\<close>

definition at_most_one :: "uuid \<Rightarrow> fair_db \<Rightarrow> fair_db \<Rightarrow> bool" where
  "at_most_one u db db' \<longleftrightarrow>
     db' = db \<or> u \<notin> reserved_ids db \<and> u \<in> reserved_ids db' \<and> slots_handed_out db' = Suc (slots_handed_out db)"

lemma at_most_one_trans: "at_most_one u a b \<Longrightarrow> at_most_one u b c \<Longrightarrow> at_most_one u a c"
  by (auto simp: at_most_one_def)

lemma registered_after:
  assumes "fair_db_wf x db" and "reserve_slot x (\<lambda>d. d) now shard digest rid db = (res, db')" and "clock_ok t db"
  shows "clock_ok t db'"
  using assms(1,2)
proof (cases rule: reserve_cases)
  case (fresh s u)
  then show ?thesis using assms(3) by (auto simp: clock_ok_def reserved_db_def)
qed (use assms(3) in simp_all)

lemma attempt_reserve_steps:
  assumes wf: "fair_db_wf x db" and "clock_ok now db" and "generated x rid"
    and "attempt_reserve x d now shard digest rid db = (res, db')"
  shows "fair_db_wf x db' \<and> at_most_one (reservation_uuid rid) db db' \<and> (\<forall>t. clock_ok t db \<longrightarrow> clock_ok t db')"
proof -
  obtain res' db2 where r: "reserve_slot x (\<lambda>d. d) now shard digest rid db = (res', db2)" by fastforce
  have "db' = db \<or> db' = db2" using assms(4) r by (auto simp: attempt_reserve_def split: delivery.splits)
  moreover have "at_most_one (reservation_uuid rid) db db2"
    using wf r
  proof (cases rule: reserve_cases)
    case (fresh s t)
    then show ?thesis
      using slots_reserved_db [OF wf fresh(2)] by (simp add: at_most_one_def reserved_ids_reserved_db)
  qed (simp_all add: at_most_one_def)
  moreover have "fair_db_wf x db2" using reserve_wf [OF wf assms(2,3) r] .
  ultimately show ?thesis using wf registered_after [OF wf r] by (auto simp: at_most_one_def)
qed

lemma reserve_loop_steps:
  assumes "reserve_loop x net clock options shard digest rid attempt db = (res, slept, db')"
    and "fair_db_wf x db" and "\<And>n. clock_ok (clock n) db" and "generated x rid"
  shows "fair_db_wf x db' \<and> at_most_one (reservation_uuid rid) db db'"
  using assms
proof (induction x net clock options shard digest rid attempt db arbitrary: slept rule: reserve_loop.induct)
  case (1 x net clock options shard digest rid attempt db)
  obtain r db1 where a: "attempt_reserve x (net (unat attempt)) (clock (unat attempt)) shard digest rid db = (r, db1)"
    by fastforce
  note s = attempt_reserve_steps [OF "1.prems"(2,3,4) a]
  show ?case
  proof (cases "\<exists>e. r = Inl e \<and> attempt < fo_maximum_reservation_attempts options \<and> is_retryable e")
    case True
    then obtain e where e: "r = Inl e" "attempt < fo_maximum_reservation_attempts options \<and> is_retryable e" by blast
    obtain slept1 where next_loop:
        "reserve_loop x net clock options shard digest rid (saturating_increment attempt) db1 = (res, slept1, db')"
      using "1.prems"(1) a e by (subst (asm) reserve_loop.simps) (auto simp: Let_def split: prod.splits)
    have "fair_db_wf x db' \<and> at_most_one (reservation_uuid rid) db1 db'"
      using "1.IH" [OF a [symmetric, unfolded e(1)] refl e(2) refl next_loop] s "1.prems"(3,4) by blast
    then show ?thesis using s at_most_one_trans by blast
  next
    case False
    then have "db' = db1"
      using "1.prems"(1) a by (subst (asm) reserve_loop.simps) (auto split: sum.splits if_splits)
    then show ?thesis using s by simp
  qed
qed

text \<open>The number of delays, and the delay before every retry.\<close>

lemma reserve_loop_slept:
  assumes "reserve_loop x net clock options shard digest rid attempt db = (res, slept, db')"
    and "1 \<le> unat attempt" and "unat attempt \<le> unat (fo_maximum_reservation_attempts options)"
  shows "unat attempt + length slept \<le> unat (fo_maximum_reservation_attempts options) \<and>
    (\<forall>k<length slept. slept ! k = exponential_backoff (fo_reservation_retry_initial_delay options) (attempt + word_of_nat k)) \<and>
    (\<forall>r retries. res = Inr (r, retries) \<longrightarrow> unat retries + 1 = unat attempt + length slept)"
  using assms
proof (induction x net clock options shard digest rid attempt db arbitrary: slept rule: reserve_loop.induct)
  case (1 x net clock options shard digest rid attempt db)
  let ?max = "fo_maximum_reservation_attempts options"
  obtain r db1 where a: "attempt_reserve x (net (unat attempt)) (clock (unat attempt)) shard digest rid db = (r, db1)"
    by fastforce
  show ?case
  proof (cases "\<exists>e. r = Inl e \<and> attempt < ?max \<and> is_retryable e")
    case True
    then obtain e where e: "r = Inl e" "attempt < ?max \<and> is_retryable e" by blast
    obtain slept1 where next_loop:
        "reserve_loop x net clock options shard digest rid (saturating_increment attempt) db1 = (res, slept1, db')"
        "slept = exponential_backoff (fo_reservation_retry_initial_delay options) attempt # slept1"
      using "1.prems"(1) a e by (subst (asm) reserve_loop.simps) (auto simp: Let_def split: prod.splits)
    have n: "unat (saturating_increment attempt) = Suc (unat attempt)" using e(2) saturating_increment_less by blast
    then have w: "saturating_increment attempt = attempt + 1"
      by (auto simp: saturating_increment_def split: if_splits)
    have "unat attempt < unat ?max" using e(2) by (simp add: word_less_nat)
    then have "unat (saturating_increment attempt) + length slept1 \<le> unat ?max \<and>
        (\<forall>k<length slept1. slept1 ! k =
           exponential_backoff (fo_reservation_retry_initial_delay options) (saturating_increment attempt + word_of_nat k)) \<and>
        (\<forall>r retries. res = Inr (r, retries) \<longrightarrow> unat retries + 1 = unat (saturating_increment attempt) + length slept1)"
      using "1.IH" [OF a [symmetric, unfolded e(1)] refl e(2) refl next_loop(1)] n by simp
    then show ?thesis unfolding n by (auto simp: next_loop(2) w nth_Cons' of_nat_diff)
  next
    case False
    then have "slept = [] \<and> (res = Inl (SchedulerStore (projl r)) \<or> (\<exists>f. res = Inr (f, attempt - 1)))"
      using "1.prems"(1) a by (subst (asm) reserve_loop.simps) (auto split: sum.splits if_splits)
    moreover have "unat (attempt - 1) + 1 = unat attempt"
      using "1.prems"(2) unat_minus_one [of attempt] by (cases "attempt = 0") simp_all
    ultimately show ?thesis using "1.prems"(3) by auto
  qed
qed

section \<open>The shard row of a ready scheduler\<close>

definition ready_row :: "externals \<Rightarrow> string fairness_policy \<Rightarrow> shard_row \<Rightarrow> bool" where
  "ready_row x p s \<longleftrightarrow>
     sr_shard_id s = shard_str (fp_shard_id p) \<and>
     (\<exists>stored. decode_policy x s = Inr stored \<and> sp_registration stored = fp_registration p)"

lemma decoded_shard: "decode_policy x s = Inr stored \<Longrightarrow> reg_shard_id (sp_registration stored) = SchedulerShardId (sr_shard_id s)"
  using decode_policy_Inr(1) by (auto simp: shard_new_iff)

lemma ready_row_facts:
  assumes "ready_row x p s"
  shows "reg_shard_id (fp_registration p) = fp_shard_id p"
    and "sr_policy_digest s = reg_policy_digest (fp_registration p)"
    and "sr_cycle_length s = uint (reg_cycle_length (fp_registration p))"
proof -
  obtain stored where d: "decode_policy x s = Inr stored" "sp_registration stored = fp_registration p"
      "sr_shard_id s = shard_str (fp_shard_id p)"
    using assms by (auto simp: ready_row_def)
  show "reg_shard_id (fp_registration p) = fp_shard_id p" using decoded_shard [OF d(1)] d by (cases "fp_shard_id p") simp
  show "sr_policy_digest s = reg_policy_digest (fp_registration p)" using decode_policy_Inr(5) [OF d(1)] d by simp
  show "sr_cycle_length s = uint (reg_cycle_length (fp_registration p))" using decode_policy_Inr(2) [OF d(1)] d by simp
qed

lemma check_readiness_iff:
  assumes "fair_db_wf x db"
  shows "check_readiness x p db = Inr () \<longleftrightarrow> (\<exists>s\<in>set (db_shards db). ready_row x p s)"
proof
  assume "check_readiness x p db = Inr ()"
  then obtain s stored where "select_shard db (shard_str (fp_shard_id p)) = Some s" "decode_policy x s = Inr stored"
      "sp_registration stored = fp_registration p"
    by (auto simp: check_readiness_def load_policy_def and_then_Inr_iff map_err_Inr_iff ok_or_Inr_iff reject_if_Inr_iff)
  then show "\<exists>s\<in>set (db_shards db). ready_row x p s"
    using select_shard_iff [OF assms] by (auto simp: ready_row_def)
next
  assume "\<exists>s\<in>set (db_shards db). ready_row x p s"
  then obtain s stored where s: "s \<in> set (db_shards db)" "ready_row x p s" "decode_policy x s = Inr stored"
      "sp_registration stored = fp_registration p"
    by (auto simp: ready_row_def)
  then have "select_shard db (shard_str (fp_shard_id p)) = Some s"
    using select_shard_iff [OF assms] by (simp add: ready_row_def)
  then show "check_readiness x p db = Inr ()"
    using s ready_row_facts(1) [OF s(2)] by (simp add: check_readiness_def load_policy_def)
qed

lemma ready_row_same:
  assumes "ready_row x p s" and "same_policy s u" and "is_ok (decode_policy x u)"
  shows "ready_row x p u"
proof -
  obtain a b where d: "decode_policy x s = Inr a" "sp_registration a = fp_registration p" "decode_policy x u = Inr b"
    using assms(1,3) by (auto simp: ready_row_def is_ok_iff)
  have "sp_registration b = sp_registration a"
  proof (rule fairness_registration.equality)
    show "reg_cycle_length (sp_registration b) = reg_cycle_length (sp_registration a)"
      using decode_policy_Inr(2) [OF d(1)] decode_policy_Inr(2) [OF d(3)] assms(2) by (simp add: same_policy_def word_uint_eq_iff)
  qed (use decoded_shard [OF d(1)] decoded_shard [OF d(3)] decode_policy_Inr(5,7) [OF d(1)] decode_policy_Inr(5,7) [OF d(3)]
      assms(2) in \<open>simp_all add: same_policy_def\<close>)
  then show ?thesis using assms(1,2) d by (simp add: ready_row_def same_policy_def)
qed

lemma register_scheduler_ready:
  assumes "fair_db_wf x db" and "registration_ok x (fp_registration p)" and "reg_shard_id (fp_registration p) = fp_shard_id p"
    and "register_scheduler x now built p db = (Inr (), db')"
  shows "fair_db_wf x db' \<and> (\<exists>s\<in>set (db_shards db'). ready_row x p s)"
proof -
  obtain outcome where r: "register_policy x now (fp_registration p) db = (Inr outcome, db')"
    using assms(4) by (auto simp: register_scheduler_def split: sum.splits prod.splits)
  obtain t where t: "from_database_time now = Inr t"
  proof (cases "from_database_time now")
    case (Inl e)
    then show ?thesis using r by (simp add: register_policy_def Let_def)
  qed
  have wf: "fair_db_wf x db'" using register_wf [OF assms(1,2) r] .
  have "\<exists>s\<in>set (db_shards db'). ready_row x p s"
  proof (cases "select_shard db (shard_str (reg_shard_id (fp_registration p)))")
    case None
    then have "db' = db\<lparr>db_shards := db_shards db @ [first_row now (fp_registration p)]\<rparr>"
      using register_policy_fresh [OF assms(2) None t] r by simp
    moreover have "ready_row x p (first_row now (fp_registration p))"
      using decode_first_row [OF assms(2) t] assms(3) by (simp add: ready_row_def) (simp add: first_row_def)
    ultimately show ?thesis by simp
  next
    case (Some s)
    obtain stored where p: "decode_policy x s = Inr stored" "register_policy x now (fp_registration p) db =
        (if sp_registration stored = fp_registration p then Inr (Idempotent stored) else Inl SchedulerFairnessPolicyConflict, db)"
      using register_policy_present [OF assms(1) Some t] .
    then have "sp_registration stored = fp_registration p" "db' = db" using r by (auto split: if_splits)
    then show ?thesis using Some p(1) assms(3) select_shard_iff [OF assms(1)] by (auto simp: ready_row_def)
  qed
  with wf show ?thesis by simp
qed

section \<open>Losses\<close>

text \<open>While one identity is retried the tables are the old ones, or the old ones with its reservation.\<close>

definition pending_or_taken :: "shard_row \<Rightarrow> scheduler_reservation_id \<Rightarrow> fair_db \<Rightarrow> fair_db \<Rightarrow> bool" where
  "pending_or_taken s rid db0 db \<longleftrightarrow> db = db0 \<or> (\<exists>now. sr_registered_at s \<le> now \<and> is_ok (from_database_time now) \<and> db = reserved_db now s rid db0)"

definition reservable ::
  "externals \<Rightarrow> fair_db \<Rightarrow> shard_row \<Rightarrow> scheduler_shard_id \<Rightarrow> string \<Rightarrow> scheduler_reservation_id \<Rightarrow> bool" where
  "reservable x db s shard digest rid \<longleftrightarrow>
     fair_db_wf x db \<and> s \<in> set (db_shards db) \<and> sr_shard_id s = shard_str shard \<and> sr_policy_digest s = digest \<and>
     sr_next_sequence s < 2 ^ 63 - 1 \<and> generated x rid \<and> reservation_uuid rid \<notin> reserved_ids db"

lemma reserve_pending_or_taken:
  assumes r: "reservable x db0 s shard digest rid" and p: "pending_or_taken s rid db0 db"
    and now: "sr_registered_at s \<le> now" "is_ok (from_database_time now)"
  obtains at where "reserve_slot x (\<lambda>d. d) now shard digest rid db =
      (Inr (reservation_of (new_reservation at s rid)), reserved_db at s rid db0)"
    "sr_registered_at s \<le> at" "is_ok (from_database_time at)"
proof (cases "db = db0")
  case True
  obtain t where t: "from_database_time now = Inr t" using now(2) by (auto simp: is_ok_iff)
  have "reserve_slot x (\<lambda>d. d) now shard digest rid db = (Inr (reservation_of (new_reservation now s rid)), reserved_db now s rid db0)"
    using reserve_fresh [where others = "\<lambda>d. d", OF _ _ _ _ _ _ _ t] r True by (simp add: reservable_def)
  then show ?thesis using that now by blast
next
  case False
  then obtain at where a: "sr_registered_at s \<le> at" "is_ok (from_database_time at)" "db = reserved_db at s rid db0"
    using p by (auto simp: pending_or_taken_def)
  obtain t where t: "from_database_time at = Inr t" using a(2) by (auto simp: is_ok_iff)
  have wf: "fair_db_wf x db"
    using reserved_db_wf [OF _ _ t a(1)] r a(3) by (simp add: reservable_def generated_def)
  have "new_reservation at s rid \<in> set (db_reservations db)" by (simp add: a(3) reserved_db_def)
  from reserve_found [OF wf this, of rid "\<lambda>d. d" now shard digest] r a that show ?thesis
    by (simp add: new_reservation_def reservable_def)
qed

definition lost :: "delivery \<Rightarrow> bool" where
  "lost d \<longleftrightarrow> d = AnswerLost True \<or> d = NotReached True"

lemma reserve_loop_survives:
  assumes "reservable x db0 s shard digest rid" and "\<forall>k. sr_registered_at s \<le> clock k \<and> is_ok (from_database_time (clock k))"
    and "\<forall>k. 1 \<le> k \<and> k < n \<longrightarrow> lost (net k)" and "net n = Delivered"
    and "1 \<le> unat attempt" and "unat attempt \<le> n" and "n \<le> unat (fo_maximum_reservation_attempts options)"
    and "pending_or_taken s rid db0 db"
  shows "\<exists>at slept. reserve_loop x net clock options shard digest rid attempt db =
    (Inr (reservation_of (new_reservation at s rid), word_of_nat (n - 1)), slept, reserved_db at s rid db0)"
  using assms
proof (induction x net clock options shard digest rid attempt db rule: reserve_loop.induct)
  case (1 x net clock options shard digest rid attempt db)
  obtain at where r: "reserve_slot x (\<lambda>d. d) (clock (unat attempt)) shard digest rid db =
      (Inr (reservation_of (new_reservation at s rid)), reserved_db at s rid db0)"
      "sr_registered_at s \<le> at" "is_ok (from_database_time at)"
    using reserve_pending_or_taken [OF "1.prems"(1,8)] "1.prems"(2) by blast
  show ?case
  proof (cases "unat attempt = n")
    case True
    then have "attempt_reserve x (net (unat attempt)) (clock (unat attempt)) shard digest rid db =
        (Inr (reservation_of (new_reservation at s rid)), reserved_db at s rid db0)"
      using r(1) "1.prems"(4) by (simp add: attempt_reserve_def)
    moreover have "attempt - 1 = word_of_nat (n - 1)"
    proof (cases "attempt = 0")
      case False
      have "n - 1 < 2 ^ 8" using True unat_bound [of attempt] by simp
      then show ?thesis using True unat_minus_one [OF False] by (simp add: word_eq_nat unat_of_nat del: of_nat_diff)
    qed (use "1.prems"(5) in simp)
    ultimately show ?thesis by (subst reserve_loop.simps) auto
  next
    case False
    then have less: "unat attempt < n" using "1.prems"(6) by simp
    obtain db1 where a: "attempt_reserve x (net (unat attempt)) (clock (unat attempt)) shard digest rid db = (Inl (Database True), db1)"
        "db1 = db \<or> db1 = reserved_db at s rid db0"
      using "1.prems"(3,5) less r(1) by (auto simp: attempt_reserve_def lost_def dest!: spec [of _ "unat attempt"])
    have p: "pending_or_taken s rid db0 db1" using a(2) r "1.prems"(8) by (auto simp: pending_or_taken_def)
    have retry: "attempt < fo_maximum_reservation_attempts options \<and> is_retryable (Database True)"
      using less "1.prems"(7) by (simp add: word_less_nat)
    have n: "unat (saturating_increment attempt) = Suc (unat attempt)" using retry saturating_increment_less by blast
    have "1 \<le> unat (saturating_increment attempt)" "unat (saturating_increment attempt) \<le> n" using n less by simp_all
    note ih = "1.IH" [OF a(1) [symmetric] refl retry refl "1.prems"(1,2,3,4) this "1.prems"(7) p]
    from ih show ?thesis using a(1) retry by (subst reserve_loop.simps) (auto simp: Let_def)
  qed
qed

section \<open>A window of the shared cursor\<close>

lemma rotation_count:
  fixes q n :: nat
  assumes "0 < n"
  shows "length (filter (\<lambda>k. P ((q + k) mod n)) [0..<n]) = length (filter P [0..<n])"
proof -
  let ?f = "\<lambda>k. (q + k) mod n"
  have inj: "inj_on ?f {..<n}"
  proof (rule linorder_inj_onI')
    fix a b
    assume "a \<in> {..<n}" "b \<in> {..<n}" "a < b"
    then have "\<not> n dvd b - a" by (auto dest: dvd_imp_le)
    then have "?f b \<noteq> ?f a" using mod_eq_dvd_iff_nat [of "q + a" "q + b" n] \<open>a < b\<close> by simp
    then show "?f a \<noteq> ?f b" by (rule not_sym)
  qed
  have img: "?f ` {..<n} = {..<n}" using inj assms by (intro endo_inj_surj; force)
  have "?f ` {k \<in> {..<n}. P (?f k)} = {j \<in> A. P j}" if "?f ` {..<n} = A" for A using that by blast
  note sel = this [OF img]
  have "inj_on ?f {k \<in> {..<n}. P (?f k)}" using inj by (rule inj_on_subset) blast
  from card_image [OF this] have "card {k \<in> {..<n}. P (?f k)} = card {j \<in> {..<n}. P j}" by (simp only: sel)
  moreover have "length (filter Q [0..<n]) = card {k \<in> {..<n}. Q k}" for Q
    using distinct_length_filter [of "[0..<n]" Q] by (simp add: lessThan_atLeast0 Int_def conj_commute)
  ultimately show ?thesis by simp
qed

lemma uint_int_word: "uint v = int m \<Longrightarrow> v = word_of_nat m"
  by (metis of_int_of_nat_eq word_of_int_uint)

lemma policy_tenant_known:
  assumes "policy_wf ts p" and "distinct (map tf_tenant_id ts)" and "unat slot < length (fp_cycle p)"
  obtains t b where "t \<in> set ts" "tenant_for_slot p slot = Some (tf_tenant_id t)" "starvation_bound_of p (tf_tenant_id t) = Some b"
proof -
  have "set (fp_cycle p) \<subseteq> {..<length (fp_tenants p)}" using assms(1) by (auto simp: policy_wf_def exact_cycle_def)
  then have i: "fp_cycle p ! unat slot < length (fp_tenants p)" using assms(3) nth_mem by blast
  let ?t = "fp_tenants p ! (fp_cycle p ! unat slot)"
  have "?t \<in> set ts" using nth_mem [OF i] assms(1) by (simp add: policy_wf_def)
  moreover have "tenant_for_slot p slot = Some (tf_tenant_id ?t)" using assms(3) by (simp add: tenant_for_slot_def)
  moreover have "sorted (map tf_tenant_id (fp_tenants p))" "distinct (map tf_tenant_id (fp_tenants p))"
    using assms(1,2) sort_weights(3) [of ts] adjacent_equal_iff [of "sort_key tf_tenant_id ts"] by (simp_all add: policy_wf_def)
  then have "binary_search tf_tenant_id (tf_tenant_id ?t) (fp_tenants p) = Some (fp_cycle p ! unat slot)"
    using i by (simp add: binary_search_Some_iff strict_sorted_iff)
  then have "starvation_bound_of p (tf_tenant_id ?t) = Some (fp_starvation_bounds p ! (fp_cycle p ! unat slot))"
    by (simp add: starvation_bound_of_def)
  ultimately show ?thesis using that by blast
qed

section \<open>A compiled policy in use\<close>

definition compiled ::
  "externals \<Rightarrow> ((tenant_id \<times> u16) list \<Rightarrow> string option) \<Rightarrow> scheduler_shard_id \<Rightarrow> tenant_fairness_weight list \<Rightarrow>
     string fairness_policy \<Rightarrow> bool" where
  "compiled x encode shard ts p \<longleftrightarrow> weights_wf ts \<and> fairness_policy_new encode (ext_sha256 x) shard ts = Inr p"

lemma compiled_facts:
  assumes "compiled x encode shard ts p"
  shows "policy_wf ts p" and "distinct (map tf_tenant_id ts)" and "length (fp_cycle p) \<le> 4096"
    and "length (fp_cycle p) = cycle_weight ts" and "fp_shard_id p = shard"
    and "unat (reg_cycle_length (fp_registration p)) = length (fp_cycle p)"
    and "\<exists>bytes n. encode (policy_entries ts) = Some bytes \<and> registration_new (ext_sha256 x) shard bytes n = Inr (fp_registration p)"
    and "policy_shape_ok ts"
proof -
  have c: "weights_wf ts" "fairness_policy_new encode (ext_sha256 x) shard ts = Inr p" using assms by (simp_all add: compiled_def)
  note shape = policy_new_sound [OF c(2), THEN conjunct1]
  show wf: "policy_wf ts p" using policy_new_wf [OF c(2,1)] .
  show "policy_shape_ok ts" "distinct (map tf_tenant_id ts)" using shape by (simp_all add: policy_shape_ok_def)
  show "length (fp_cycle p) \<le> 4096" "length (fp_cycle p) = cycle_weight ts" using policy_cycle_length [OF wf shape] by simp_all
  show "unat (reg_cycle_length (fp_registration p)) = length (fp_cycle p)" using wf by (simp add: policy_wf_def)
  show "\<exists>bytes n. encode (policy_entries ts) = Some bytes \<and> registration_new (ext_sha256 x) shard bytes n = Inr (fp_registration p)"
    and "fp_shard_id p = shard"
    using c(2) unfolding fairness_policy_new_def Let_def
    by (auto simp: and_then_Inr_iff reject_if_Inr_iff map_err_Inr_iff ok_or_Inr_iff)
qed

lemma compiled_registration_ok:
  assumes "compiled x encode shard ts p" and "is_ok (shard_new (shard_str shard))" and "\<And>b. length (ext_sha256 x b) = 32"
  shows "registration_ok x (fp_registration p)"
  using compiled_facts(7) [OF assms(1)] assms(2,3) by (auto simp: registration_ok_def registration_new_iff)

lemma compiled_cycle_pos: "compiled x encode shard ts p \<Longrightarrow> 0 < length (fp_cycle p)"
  using compiled_facts(6,7) by (fastforce simp: registration_new_iff)

definition sample_encode :: "(tenant_id \<times> u16) list \<Rightarrow> string option" where
  "sample_encode entries = Some ''{}''"

lemma sample_compiled:
  obtains p where "compiled sample_externals sample_encode (SchedulerShardId ''prod'') sample_tenants p"
    "fp_registration p = sample_registration" "length (fp_cycle p) = 8"
proof -
  obtain p where "fairness_policy_new sample_encode (ext_sha256 sample_externals) (SchedulerShardId ''prod'') sample_tenants = Inr p"
    using policy_new_complete [OF sample_tenants_wf, of sample_encode "ext_sha256 sample_externals" "SchedulerShardId ''prod''"]
    by (auto simp: policy_bytes_ok_def MAX_POLICY_BYTES_def sample_encode_def)
  then have c: "compiled sample_externals sample_encode (SchedulerShardId ''prod'') sample_tenants p"
    by (simp add: compiled_def sample_tenants_wf)
  have n: "length (fp_cycle p) = 8" using compiled_facts(4) [OF c] by (simp add: cycle_weight_list sample_tenants_def)
  have "reg_cycle_length (fp_registration p) = 8" using compiled_facts(6) [OF c] n by (simp add: word_eq_nat)
  then have "fp_registration p = sample_registration"
    using compiled_facts(7) [OF c]
    by (auto simp: registration_new_iff sample_registration_def sample_encode_def sample_externals_def)
  then show ?thesis using that c n by blast
qed

lemma sample_ready:
  "fp_registration p = sample_registration \<Longrightarrow> fp_shard_id p = SchedulerShardId ''prod'' \<Longrightarrow>
     ready_row sample_externals p (first_row 100 sample_registration)"
  using decode_first_row [OF sample_registration_ok from_database_time_small [of 100]]
  by (simp add: ready_row_def) (simp add: first_row_def sample_registration_def)

definition sample_options :: fair_scheduler_options where
  "sample_options = \<lparr>fo_maximum_reservation_attempts = 3, fo_reservation_retry_initial_delay = duration_from_millis 25\<rparr>"

section \<open>Properties of the distributed scheduler\<close>

text \<open>
  C7. Every replica together serves exact shares: over any window of one cycle length of consecutive
  reservations on the shared cursor, wherever the cursor stands and whoever reserves, every tenant is
  selected exactly as often as its weight says.
\<close>

theorem fair_service:
  assumes "compiled x encode shard ts p" and "fair_db_wf x db" and "s \<in> set (db_shards db)" and "ready_row x p s"
    and "calls_ok x (sr_registered_at s) db calls" and "length calls = length (fp_cycle p)"
    and "sr_next_sequence s + int (length calls) < 2 ^ 63" and "t \<in> set ts"
  shows "\<exists>fs db'. reserve_all x shard (reg_policy_digest (fp_registration p)) calls db = (Inr fs, db') \<and>
    length (filter (\<lambda>f. tenant_for_slot p (fr_slot f) = Some (tf_tenant_id t)) fs) = unat (tf_weight t)"
proof -
  note c = compiled_facts [OF assms(1)] and row = ready_row_facts [OF assms(4)]
  let ?n = "length (fp_cycle p)" and ?P = "\<lambda>k. tenant_for_slot p (word_of_nat k) = Some (tf_tenant_id t)"
  have n: "0 < ?n" "sr_cycle_length s = int ?n"
    using compiled_cycle_pos [OF assms(1)] row(3) c(6) by (simp_all add: uint_nat)
  have shard: "sr_shard_id s = shard_str shard" using assms(4) c(5) by (simp add: ready_row_def)
  obtain fs db' where fs: "reserve_all x shard (reg_policy_digest (fp_registration p)) calls db = (Inr fs, db')"
      "length fs = ?n" "\<And>k. k < ?n \<Longrightarrow> uint (fr_slot (fs ! k)) = (sr_next_sequence s + int k) mod int ?n"
    using reserve_all_slots [OF assms(2,3) shard row(2) assms(5,7)] n(2) assms(6) by auto
  have "0 \<le> sr_next_sequence s" using assms(4) decode_policy_Inr(10) by (auto simp: ready_row_def)
  then obtain q where q: "sr_next_sequence s = int q" using nonneg_int_cases by blast
  have "fr_slot (fs ! k) = word_of_nat ((q + k) mod ?n)" if "k < ?n" for k
    using fs(3) [OF that] uint_int_word unfolding q by (simp flip: zmod_int of_nat_add)
  then have slots: "map fr_slot fs = map (\<lambda>k. word_of_nat ((q + k) mod ?n)) [0..<?n]"
    using fs(2) by (intro nth_equalityI) simp_all
  let ?Q = "\<lambda>v. tenant_for_slot p v = Some (tf_tenant_id t)"
  have "length (filter (\<lambda>f. ?Q (fr_slot f)) fs) = length (filter ?Q (map fr_slot fs))" by (simp add: filter_map comp_def)
  also have "\<dots> = length (filter (\<lambda>k. ?P ((q + k) mod ?n)) [0..<?n])" unfolding slots by (simp add: filter_map comp_def)
  also have "\<dots> = length (filter ?P [0..<?n])" using rotation_count [OF n(1)] .
  also have "\<dots> = unat (tf_weight t)" using policy_share [OF c(1,8) assms(8)] .
  finally show ?thesis using fs(1) by blast
qed

theorem fair_service_witness:
  "\<exists>p fs db'. compiled sample_externals sample_encode (SchedulerShardId ''prod'') sample_tenants p \<and>
     reserve_all sample_externals (SchedulerShardId ''prod'') sample_digest
       (map (\<lambda>k. (200 + int k, SchedulerReservationId (word_of_nat k))) [0..<8]) sample_store = (Inr fs, db') \<and>
     length (filter (\<lambda>f. tenant_for_slot p (fr_slot f) = Some (TenantId ''tenant-a'')) fs) = 5"
proof -
  let ?calls = "map (\<lambda>k. (200 + int k, SchedulerReservationId (word_of_nat k))) [0..<8]" and ?s = "first_row 100 sample_registration"
  obtain p where p: "compiled sample_externals sample_encode (SchedulerShardId ''prod'') sample_tenants p"
      "fp_registration p = sample_registration" "length (fp_cycle p) = 8"
    using sample_compiled .
  have s: "?s \<in> set (db_shards sample_store)" by (simp add: sample_store_def)
  have ready: "ready_row sample_externals p ?s" using sample_ready p compiled_facts(5) [OF p(1)] by simp
  have "distinct (map (\<lambda>c. reservation_uuid (snd c)) ?calls)" by (simp add: upt_conv_Cons)
  then have calls: "calls_ok sample_externals (sr_registered_at ?s) sample_store ?calls"
    by (auto simp: calls_ok_def first_row_def from_database_time_small generated_def sample_externals_def sample_store_def)
  have a: "\<lparr>tf_tenant_id = TenantId ''tenant-a'', tf_weight = 5\<rparr> \<in> set sample_tenants" by (simp add: sample_tenants_def)
  have "sr_next_sequence ?s + int (length ?calls) < 2 ^ 63" by (simp add: first_row_def)
  from fair_service [OF p(1) sample_store_wf s ready calls _ this a] p show ?thesis
    by (auto simp: sample_registration_def)
qed

text \<open>
  C34. A tick takes at most one slot: whatever is lost on the way and however often the reservation is
  retried, the cursor moves at most once and only for the identity of this tick, and the tables stay
  well-formed, as long as the clock is not behind a registration and no other replica acts in between.
\<close>

theorem tick_at_most_one_slot:
  fixes run_tenant :: "tenant_id \<Rightarrow> ('e, 't) result"
  assumes "tick_inner x net clock p options run_tenant rid db = (res, slept, db')"
    and "fair_db_wf x db" and "\<And>n. clock_ok (clock n) db" and "generated x rid"
  shows "fair_db_wf x db' \<and>
    (db' = db \<or> reservation_uuid rid \<notin> reserved_ids db \<and> reservation_uuid rid \<in> reserved_ids db' \<and>
       slots_handed_out db' = slots_handed_out db + 1)"
proof -
  obtain r :: "('e fair_scheduler_error, fairness_reservation \<times> u8) result" where
    "reserve_loop x net clock options (fp_shard_id p) (reg_policy_digest (fp_registration p)) rid 1 db = (r, slept, db')"
    using assms(1) by (auto simp: tick_inner_def Let_def split: prod.splits)
  from reserve_loop_steps [OF this assms(2,3,4)] show ?thesis by (simp add: at_most_one_def)
qed

theorem tick_at_most_one_slot_witness:
  "\<exists>p res slept db'. compiled sample_externals sample_encode (SchedulerShardId ''prod'') sample_tenants p \<and>
     tick_inner sample_externals (\<lambda>k. if k < 3 then AnswerLost True else Delivered) (\<lambda>k. 200 + int k) p sample_options
       (\<lambda>t. (Inr () :: (unit, unit) result)) (SchedulerReservationId 7) sample_store = (res, slept, db') \<and>
     (db' = sample_store \<or> slots_handed_out db' = slots_handed_out sample_store + 1)"
proof -
  obtain p where p: "compiled sample_externals sample_encode (SchedulerShardId ''prod'') sample_tenants p"
    using sample_compiled .
  obtain res slept db' where t: "tick_inner sample_externals (\<lambda>k. if k < 3 then AnswerLost True else Delivered) (\<lambda>k. 200 + int k) p
      sample_options (\<lambda>t. (Inr () :: (unit, unit) result)) (SchedulerReservationId 7) sample_store = (res, slept, db')"
    using prod_cases3 by blast
  have "\<And>n. clock_ok (200 + int n) sample_store" "generated sample_externals (SchedulerReservationId 7)"
    by (simp_all add: clock_ok_def sample_store_def first_row_def generated_def sample_externals_def)
  from tick_at_most_one_slot [OF t sample_store_wf this] show ?thesis using p t by blast
qed

text \<open>
  C35. A tick ends: with accepted options the reservation loop makes at most as many attempts as the
  options allow, at most ten, sleeps before every retry for the initial delay doubled each time and cut
  at one second, and reports on success exactly the number of retries it made.
\<close>

theorem tick_attempts_bounded:
  assumes "fair_scheduler_options_new attempts delay = Inr options"
    and "reserve_loop x net clock options shard digest rid 1 db = (res, slept, db')"
  shows "length slept < unat attempts \<and> unat attempts \<le> 10 \<and>
    (\<forall>k<length slept. duration_nanos (slept ! k) = min (duration_nanos delay * 2 ^ k) 1000000000) \<and>
    (\<forall>r retries. res = Inr (r, retries) \<longrightarrow> unat retries = length slept)"
proof -
  have o: "fo_maximum_reservation_attempts options = attempts" "fo_reservation_retry_initial_delay options = delay"
      "1 \<le> unat attempts" "unat attempts \<le> 10" "duration_nanos delay \<le> 1000000000"
    using assms(1)
    by (auto simp: fair_scheduler_options_new_def result_simps max_delay_nanos unat_eq_zero
        HARD_MAXIMUM_RESERVATION_ATTEMPTS_def word_less_nat not_less Suc_le_eq unat_gt_0)
  note l = reserve_loop_slept [OF assms(2)]
  have b: "length slept < unat attempts" using l o by simp
  moreover have "duration_nanos (slept ! k) = min (duration_nanos delay * 2 ^ k) 1000000000" if "k < length slept" for k
  proof -
    have "k < 10" using that b o(4) by simp
    then have "unat (1 + word_of_nat k :: u8) = k + 1" by (simp add: unat_word_ariths unat_of_nat)
    then show ?thesis using l o that backoff_nanos [OF o(5), of "1 + word_of_nat k"] \<open>k < 10\<close> by simp
  qed
  ultimately show ?thesis using l o by simp
qed

theorem tick_attempts_bounded_witness:
  "\<exists>(res :: (unit fair_scheduler_error, fairness_reservation \<times> u8) result) slept db'.
     reserve_loop sample_externals (\<lambda>k. NotReached True) (\<lambda>k. 200) sample_options (SchedulerShardId ''prod'')
       sample_digest (SchedulerReservationId 7) 1 sample_store = (res, slept, db') \<and> length slept < 3"
proof -
  have opts: "fair_scheduler_options_new 3 (duration_from_millis 25) = Inr sample_options"
    by (simp add: fair_scheduler_options_new_def duration_nanos_def MAX_RESERVATION_RETRY_DELAY_def sample_options_def
      duration_from_millis_def HARD_MAXIMUM_RESERVATION_ATTEMPTS_def word_less_nat)
  obtain res :: "(unit fair_scheduler_error, fairness_reservation \<times> u8) result" and slept db' where
    r: "reserve_loop sample_externals (\<lambda>k. NotReached True) (\<lambda>k. 200) sample_options (SchedulerShardId ''prod'')
       sample_digest (SchedulerReservationId 7) 1 sample_store = (res, slept, db')"
    using prod_cases3 by blast
  from tick_attempts_bounded [OF opts r] r show ?thesis by auto
qed

text \<open>
  C19. Transient losses do not cost a turn: when attempts fail with retryable errors, before or after
  their commit, and one within the allowed number is delivered, the tick succeeds with the next slot of
  the cursor, which moves by exactly one, and runs the tenant the policy gives this slot. The durable
  slot never escapes the policy. No other replica acts between the attempts of the tick.
\<close>

theorem tick_survives_losses:
  fixes run_tenant :: "tenant_id \<Rightarrow> ('e, 't) result"
  assumes "compiled x encode shard ts p" and "ready_row x p s" and "reservable x db s shard (reg_policy_digest (fp_registration p)) rid"
    and "\<forall>k. sr_registered_at s \<le> clock k \<and> is_ok (from_database_time (clock k))"
    and "\<forall>k. 1 \<le> k \<and> k < n \<longrightarrow> lost (net k)" and "net n = Delivered"
    and "1 \<le> n" and "n \<le> unat (fo_maximum_reservation_attempts options)"
  shows "\<exists>f slept at t b. t \<in> set ts \<and>
    tick_inner x net clock p options run_tenant rid db =
      (map_ok (\<lambda>v. \<lparr>ft_reservation = f, ft_tenant_id = tf_tenant_id t, ft_starvation_bound = b,
           ft_reservation_retries = word_of_nat (n - 1), ft_tenant_tick = v\<rparr>)
         (map_err SchedulerTenant (run_tenant (tf_tenant_id t))), slept, reserved_db at s rid db) \<and>
    uint (fr_sequence f) = sr_next_sequence s \<and> uint (fr_slot f) = sr_next_sequence s mod int (length (fp_cycle p)) \<and>
    tenant_for_slot p (fr_slot f) = Some (tf_tenant_id t) \<and> starvation_bound_of p (tf_tenant_id t) = Some b"
proof -
  note c = compiled_facts [OF assms(1)]
  have wf: "fair_db_wf x db" "s \<in> set (db_shards db)" using assms(3) by (simp_all add: reservable_def)
  have one: "1 \<le> unat (1 :: u8)" "unat (1 :: u8) \<le> n" "pending_or_taken s rid db db"
    using assms(7) by (simp_all add: pending_or_taken_def)
  obtain at slept where loop: "reserve_loop x net clock options shard (reg_policy_digest (fp_registration p)) rid 1 db =
      (Inr (reservation_of (new_reservation at s rid), word_of_nat (n - 1)) :: ('e fair_scheduler_error, _) result, slept,
       reserved_db at s rid db)"
    using reserve_loop_survives [OF assms(3-6) one(1,2) assms(8) one(3)] by blast
  let ?f = "reservation_of (new_reservation at s rid)"
  have len: "sr_cycle_length s = int (length (fp_cycle p))" using ready_row_facts(3) [OF assms(2)] c(6) by (simp add: uint_nat)
  have slot: "uint (fr_slot ?f) = sr_next_sequence s mod int (length (fp_cycle p))"
    using new_reservation_values(2) [OF wf] len by simp
  then have "unat (fr_slot ?f) < length (fp_cycle p)"
    using compiled_cycle_pos [OF assms(1)] by (metis of_nat_0_less_iff of_nat_less_iff pos_mod_bound uint_nat)
  then obtain t b where t: "t \<in> set ts" "tenant_for_slot p (fr_slot ?f) = Some (tf_tenant_id t)"
      "starvation_bound_of p (tf_tenant_id t) = Some b"
    using policy_tenant_known [OF c(1,2)] by metis
  have "and_then r (\<lambda>v. Inr (g v)) = map_ok g r" for r and g :: "'t \<Rightarrow> 't fair_tick" by (cases r) simp_all
  then have "tick_inner x net clock p options run_tenant rid db =
      (map_ok (\<lambda>v. \<lparr>ft_reservation = ?f, ft_tenant_id = tf_tenant_id t, ft_starvation_bound = b,
           ft_reservation_retries = word_of_nat (n - 1), ft_tenant_tick = v\<rparr>)
         (map_err SchedulerTenant (run_tenant (tf_tenant_id t))), slept, reserved_db at s rid db)"
    unfolding tick_inner_def c(5) loop by (simp add: t del: of_nat_diff)
  with t slot new_reservation_values(1) [OF wf] show ?thesis by blast
qed

theorem tick_survives_losses_witness:
  "\<exists>p v slept db'. compiled sample_externals sample_encode (SchedulerShardId ''prod'') sample_tenants p \<and>
     tick_inner sample_externals (\<lambda>k. if k = 1 then AnswerLost True else if k = 2 then NotReached True else Delivered)
       (\<lambda>k. 200) p sample_options (\<lambda>t. (Inr t :: (unit, tenant_id) result)) (SchedulerReservationId 7) sample_store =
       (Inr v, slept, db') \<and>
     ft_tenant_tick v = ft_tenant_id v \<and> ft_reservation_retries v = 2 \<and> fr_sequence (ft_reservation v) = 0"
proof -
  let ?s = "first_row 100 sample_registration"
  let ?net = "\<lambda>k :: nat. if k = 1 then AnswerLost True else if k = 2 then NotReached True else Delivered"
  obtain p where p: "compiled sample_externals sample_encode (SchedulerShardId ''prod'') sample_tenants p"
      "fp_registration p = sample_registration"
    using sample_compiled .
  have ready: "ready_row sample_externals p ?s" using sample_ready p compiled_facts(5) [OF p(1)] by simp
  have "reservable sample_externals sample_store ?s (SchedulerShardId ''prod'') sample_digest (SchedulerReservationId 7)"
    by (simp add: reservable_def sample_store_wf generated_def) (simp add: sample_store_def first_row_def sample_registration_def sample_externals_def)
  then have r: "reservable sample_externals sample_store ?s (SchedulerShardId ''prod'') (reg_policy_digest (fp_registration p))
      (SchedulerReservationId 7)" using p(2) by (simp add: sample_registration_def)
  have clock: "\<forall>k. sr_registered_at ?s \<le> (\<lambda>k :: nat. 200) k \<and> is_ok (from_database_time ((\<lambda>k :: nat. 200) k))"
    by (simp add: first_row_def from_database_time_small)
  have net: "\<forall>k. 1 \<le> k \<and> k < 3 \<longrightarrow> lost (?net k)" "?net 3 = Delivered" by (auto simp: lost_def)
  have n: "(1 :: nat) \<le> 3" "3 \<le> unat (fo_maximum_reservation_attempts sample_options)" by (simp_all add: sample_options_def)
  have seq: "sr_next_sequence ?s = 0" by (simp add: first_row_def)
  show ?thesis
    using tick_survives_losses [OF p(1) ready r clock net n, where run_tenant = "\<lambda>t. (Inr t :: (unit, tenant_id) result)"] p(1)
    by (fastforce simp: seq uint_0_iff)
qed

text \<open>
  A scheduler that started stays ready: once registration has succeeded, whatever reservations,
  registrations and retention passes follow, the readiness check of this scheduler succeeds, and so does
  that of every replica that compiles the same weights in any order.
\<close>

lemma registered_stays_ready:
  assumes "compiled x encode shard ts p" and "is_ok (shard_new (shard_str shard))" and "\<And>b. length (ext_sha256 x b) = 32"
    and "fair_db_wf x db" and "register_scheduler x now built p db = (Inr (), db1)" and "rtranclp (fair_step x) db1 db2"
    and "mset us = mset ts" and "compiled x encode shard us p'"
  shows "check_readiness x p' db2 = Inr ()"
proof -
  have same: "p' = p"
    using assms(1,7,8) policy_permuted [OF assms(7), of encode "ext_sha256 x" shard] by (simp add: compiled_def)
  have "reg_shard_id (fp_registration p) = fp_shard_id p" using compiled_facts(1) [OF assms(1)] by (simp add: policy_wf_def)
  from register_scheduler_ready [OF assms(4) compiled_registration_ok [OF assms(1-3)] this assms(5)]
  obtain s where s: "fair_db_wf x db1" "s \<in> set (db_shards db1)" "ready_row x p s" by blast
  have wf: "fair_db_wf x db2" using assms(6) s(1) by (rule fair.reach_inv)
  obtain u where u: "u \<in> set (db_shards db2)" "same_policy s u" using fair_reach_shard [OF assms(6) s(1,2)] by blast
  have "ready_row x p u" using ready_row_same [OF s(3) u(2)] wf u(1) by (simp add: fair_db_wf_def shard_wf_def)
  then show ?thesis using check_readiness_iff [OF wf] u(1) same by blast
qed

lemma registered_stays_ready_witness:
  "\<exists>p p' db'. compiled sample_externals sample_encode (SchedulerShardId ''prod'') sample_tenants p \<and>
     register_scheduler sample_externals 100 (Inr () :: (unit, unit) result) p \<lparr>db_shards = [], db_reservations = []\<rparr> = (Inr (), db') \<and>
     compiled sample_externals sample_encode (SchedulerShardId ''prod'') (rev sample_tenants) p' \<and>
     check_readiness sample_externals p' db' = (Inr () :: (unit fair_scheduler_error, unit) result)"
proof -
  let ?empty = "\<lparr>db_shards = [], db_reservations = []\<rparr>"
  obtain p where p: "compiled sample_externals sample_encode (SchedulerShardId ''prod'') sample_tenants p"
      "fp_registration p = sample_registration"
    using sample_compiled .
  have perm: "compiled sample_externals sample_encode (SchedulerShardId ''prod'') (rev sample_tenants) p"
    using p(1) policy_permuted [of "rev sample_tenants" sample_tenants sample_encode "ext_sha256 sample_externals" "SchedulerShardId ''prod''"]
    by (simp add: compiled_def weights_wf_iff)
  have "select_shard ?empty (shard_str (reg_shard_id sample_registration)) = None" by (simp add: select_shard_def)
  from register_policy_fresh [OF sample_registration_ok this from_database_time_small [of 100]]
  obtain db' where reg: "register_scheduler sample_externals 100 (Inr () :: (unit, unit) result) p ?empty = (Inr (), db')"
    using p(2) by (auto simp: register_scheduler_def outcome_policy_def)
  have shard: "is_ok (shard_new (shard_str (SchedulerShardId ''prod'')))" by code_simp
  have "length (ext_sha256 sample_externals b) = 32" for b by (simp add: sample_externals_def)
  from registered_stays_ready [OF p(1) shard this empty_db_wf reg rtranclp.rtrancl_refl _ perm] p reg perm show ?thesis by auto
qed

end
