(* ===== verification/Canonical.thy ===== *)
theory Canonical
  imports Ids
begin

text \<open>
  \<open>crates/stateknot-core/src/digest.rs\<close> and \<open>canonical.rs\<close>: digests with their text form, JSON values
  and their canonical form. The hash function and the canonical serializer are third-party code and so
  the fields of \<open>crypto\<close>. The records of the other theories extend \<open>crypto\<close> by the serializer of
  their own preimages.
\<close>

section \<open>Digests\<close>

datatype digest = Sha256 (as_bytes: string)

datatype digest_error =
  DigestTooLong nat nat
| DigestInvalidFormat
| DigestUnsupportedAlgorithm
| DigestNonCanonical
| DigestInvalidLength nat nat
| DigestInvalidHex nat

definition SHA256_LEN :: nat where "SHA256_LEN = 32"

definition SHA256_PREFIX :: string where "SHA256_PREFIX = ''sha256:''"

definition SHA256_TEXT_LEN :: nat where "SHA256_TEXT_LEN = length SHA256_PREFIX + SHA256_LEN * 2"

definition hex_digit :: "nat \<Rightarrow> char" where
  "hex_digit n = char_of (if n < 10 then 48 + n else 87 + n)"

definition display_byte :: "char \<Rightarrow> string" where
  "display_byte c = [hex_digit (byte_of c div 16), hex_digit (byte_of c mod 16)]"

definition digest_display :: "digest \<Rightarrow> string" where
  "digest_display d = SHA256_PREFIX @ concat (map display_byte (as_bytes d))"

definition decode_nibble :: "char \<Rightarrow> nat \<Rightarrow> (digest_error, nat) result" where
  "decode_nibble c offset =
     (let b = byte_of c
      in if 48 \<le> b \<and> b \<le> 57 then Inr (b - 48)
         else if 97 \<le> b \<and> b \<le> 102 then Inr (b - 97 + 10)
         else if 65 \<le> b \<and> b \<le> 70 then Inl DigestNonCanonical
         else Inl (DigestInvalidHex offset))"

text \<open>The pairs of \<open>chunks_exact(2)\<close> with the running offset.\<close>

fun decode_pairs :: "nat \<Rightarrow> string \<Rightarrow> (digest_error, string) result" where
  "decode_pairs offset (h # l # s) =
     and_then (decode_nibble h offset) (\<lambda>high.
     and_then (decode_nibble l (offset + 1)) (\<lambda>low.
     and_then (decode_pairs (offset + 2) s) (\<lambda>bs.
     Inr (char_of (high * 16 + low) # bs))))"
| "decode_pairs offset _ = Inr []"

definition ascii_lower :: "char \<Rightarrow> char" where
  "ascii_lower c = (if is_ascii_uppercase_char c then char_of (byte_of c + 32) else c)"

definition digest_from_str :: "string \<Rightarrow> (digest_error, digest) result" where
  "digest_from_str s =
     and_then (reject_if (length s > SHA256_TEXT_LEN) (DigestTooLong SHA256_TEXT_LEN (length s))) (\<lambda>_.
     and_then (reject_if (CHR '':'' \<notin> set s) DigestInvalidFormat) (\<lambda>_.
     let algorithm = takeWhile (\<lambda>c. c \<noteq> CHR '':'') s;
         encoded = drop (length algorithm + 1) s
     in and_then (reject_if (algorithm \<noteq> ''sha256'')
          (if map ascii_lower algorithm = ''sha256'' then DigestNonCanonical else DigestUnsupportedAlgorithm)) (\<lambda>_.
        and_then (reject_if (length encoded \<noteq> SHA256_LEN * 2) (DigestInvalidLength (SHA256_LEN * 2) (length encoded))) (\<lambda>_.
        map_ok Sha256 (decode_pairs (length SHA256_PREFIX) encoded)))))"

section \<open>Canonical JSON\<close>

text \<open>Integers are the signed and unsigned 64-bit numbers of the parser; a float is its bit pattern.\<close>

datatype json =
  JNull
| JBool bool
| JInt int
| JFloat u64
| JString string
| JArray "json list"
| JObject "(string \<times> json) list"

datatype canonical_json_error = IntegerOutsideIJsonSafeRange | CanonicalSerializationFailed | CanonicalInvalidUtf8

definition MAX_SAFE_INTEGER :: int where "MAX_SAFE_INTEGER = 9007199254740991"

fun validate_ijson_numbers :: "json \<Rightarrow> (canonical_json_error, unit) result" where
  "validate_ijson_numbers (JInt v) = reject_if (\<bar>v\<bar> > MAX_SAFE_INTEGER) IntegerOutsideIJsonSafeRange"
| "validate_ijson_numbers (JArray vs) = try_fold (\<lambda>_ r. r) () (map validate_ijson_numbers vs)"
| "validate_ijson_numbers (JObject ms) = try_fold (\<lambda>_ r. r) () (map (\<lambda>(k, v). validate_ijson_numbers v) ms)"
| "validate_ijson_numbers _ = Inr ()"

definition continuation_byte :: "nat \<Rightarrow> bool" where
  "continuation_byte b \<longleftrightarrow> 128 \<le> b \<and> b \<le> 191"

text \<open>The byte sequences \<open>String::from_utf8\<close> accepts.\<close>

fun valid_utf8 :: "nat list \<Rightarrow> bool" where
  "valid_utf8 [] \<longleftrightarrow> True"
| "valid_utf8 (a # bs) \<longleftrightarrow>
     (if a < 128 then valid_utf8 bs
      else if 194 \<le> a \<and> a \<le> 223 then
        (case bs of b # cs \<Rightarrow> continuation_byte b \<and> valid_utf8 cs | _ \<Rightarrow> False)
      else if 224 \<le> a \<and> a \<le> 239 then
        (case bs of b # c # ds \<Rightarrow> continuation_byte b \<and> continuation_byte c \<and>
           (a = 224 \<longrightarrow> 160 \<le> b) \<and> (a = 237 \<longrightarrow> b \<le> 159) \<and> valid_utf8 ds | _ \<Rightarrow> False)
      else if 240 \<le> a \<and> a \<le> 244 then
        (case bs of b # c # d # es \<Rightarrow> continuation_byte b \<and> continuation_byte c \<and> continuation_byte d \<and>
           (a = 240 \<longrightarrow> 144 \<le> b) \<and> (a = 244 \<longrightarrow> b \<le> 143) \<and> valid_utf8 es | _ \<Rightarrow> False)
      else False)"

record crypto =
  cr_canonicalize :: "json \<Rightarrow> string option"
  cr_sha256 :: "string \<Rightarrow> digest"

record canonical_json =
  cj_text :: string
  cj_digest :: digest

definition canonical_json_new :: "'z crypto_scheme \<Rightarrow> json \<Rightarrow> (canonical_json_error, canonical_json) result" where
  "canonical_json_new x v =
     and_then (validate_ijson_numbers v) (\<lambda>_.
     and_then (ok_or (cr_canonicalize x v) CanonicalSerializationFailed) (\<lambda>text.
     and_then (reject_if (\<not> valid_utf8 (map byte_of text)) CanonicalInvalidUtf8) (\<lambda>_.
     Inr \<lparr>cj_text = text, cj_digest = cr_sha256 x text\<rparr>)))"

text \<open>
  A checksum over a domain prefix and the canonical bytes of a preimage, the shape of every
  \<open>domain_separated_digest\<close> of the crate.
\<close>

definition domain_digest :: "'z crypto_scheme \<Rightarrow> string \<Rightarrow> string option \<Rightarrow> 'e \<Rightarrow> ('e, digest) result" where
  "domain_digest x domain canonical e = and_then (ok_or canonical e) (\<lambda>bytes. Inr (cr_sha256 x (domain @ bytes)))"

lemma domain_digest_Inr_iff [result_simps]:
  "domain_digest x domain canonical e = Inr d \<longleftrightarrow> (\<exists>bytes. canonical = Some bytes \<and> d = cr_sha256 x (domain @ bytes))"
  by (auto simp: domain_digest_def result_simps)

section \<open>The text form of a digest\<close>

lemma byte_of_bound: "byte_of c < 256"
  by (simp add: byte_of_def)

lemma byte_of_char_of [simp]: "n < 256 \<Longrightarrow> byte_of (char_of n) = n"
  by (simp add: byte_of_def)

lemma char_of_byte_of [simp]: "char_of (byte_of c) = c"
  by (simp add: byte_of_def)

lemma decode_hex_digit [simp]: "n < 16 \<Longrightarrow> decode_nibble (hex_digit n) k = Inr n"
  by (auto simp: decode_nibble_def hex_digit_def Let_def)

lemma decode_nibble_Inr: "decode_nibble c k = Inr n \<Longrightarrow> n < 16 \<and> c = hex_digit n"
proof -
  assume a: "decode_nibble c k = Inr n"
  have "c = char_of (byte_of c)" by simp
  with a show ?thesis by (auto simp: decode_nibble_def hex_digit_def Let_def split: if_splits)
qed

lemma decode_pairs_display: "decode_pairs k (concat (map display_byte bs)) = Inr bs"
proof (induction bs arbitrary: k)
  case (Cons b bs)
  have "byte_of b div 16 * 16 + byte_of b mod 16 = byte_of b" by simp
  then show ?case using Cons byte_of_bound [of b] by (simp add: display_byte_def)
qed simp

lemma length_display_bytes [simp]: "length (concat (map display_byte bs)) = 2 * length bs"
  by (induction bs) (simp_all add: display_byte_def)

lemma decode_pairs_Inr: "decode_pairs k s = Inr bs \<Longrightarrow> even (length s) \<Longrightarrow> s = concat (map display_byte bs)"
proof (induction k s arbitrary: bs rule: decode_pairs.induct)
  case (1 k h l s)
  then obtain high low cs where d: "decode_nibble h k = Inr high" "decode_nibble l (k + 1) = Inr low"
      "decode_pairs (k + 2) s = Inr cs" "bs = char_of (high * 16 + low) # cs"
    by (auto simp: result_simps)
  then have "high < 16" "low < 16" "h = hex_digit high" "l = hex_digit low" by (simp_all add: decode_nibble_Inr)
  then show ?case using 1 d by (simp add: display_byte_def)
qed auto

lemma split_prefix:
  "takeWhile (\<lambda>c. c \<noteq> CHR '':'') s = ''sha256'' \<Longrightarrow> CHR '':'' \<in> set s \<Longrightarrow> s = SHA256_PREFIX @ drop 7 s"
proof -
  assume a: "takeWhile (\<lambda>c. c \<noteq> CHR '':'') s = ''sha256''" and "CHR '':'' \<in> set s"
  then have n: "dropWhile (\<lambda>c. c \<noteq> CHR '':'') s \<noteq> []" by (simp add: dropWhile_eq_Nil_conv)
  obtain t where t: "dropWhile (\<lambda>c. c \<noteq> CHR '':'') s = CHR '':'' # t"
  proof (cases "dropWhile (\<lambda>c. c \<noteq> CHR '':'') s")
    case (Cons c t)
    then show ?thesis using hd_dropWhile [OF n] that [of t] by (simp only: list.sel) simp
  qed (use n in simp)
  have "s = takeWhile (\<lambda>c. c \<noteq> CHR '':'') s @ dropWhile (\<lambda>c. c \<noteq> CHR '':'') s" by simp
  also have "\<dots> = SHA256_PREFIX @ t" unfolding a t by (simp add: SHA256_PREFIX_def)
  finally have s: "s = SHA256_PREFIX @ t" .
  then have "drop 7 s = t" by (simp add: SHA256_PREFIX_def)
  with s show ?thesis by simp
qed

lemma digest_text_lengths: "SHA256_TEXT_LEN = 71" "length SHA256_PREFIX = 7" "SHA256_LEN = 32"
  by (simp_all add: SHA256_TEXT_LEN_def SHA256_PREFIX_def SHA256_LEN_def)

text \<open>
  C40. The text form of a digest is canonical: reading succeeds exactly on the writing of a digest of 32
  bytes, and gives that digest back.
\<close>

theorem digest_text_canonical:
  "digest_from_str s = Inr d \<longleftrightarrow> length (as_bytes d) = 32 \<and> s = digest_display d"
proof
  assume "length (as_bytes d) = 32 \<and> s = digest_display d"
  then have d: "length (as_bytes d) = 32" and s: "s = ''sha256:'' @ concat (map display_byte (as_bytes d))"
    by (simp_all add: digest_display_def SHA256_PREFIX_def)
  have "takeWhile (\<lambda>c. c \<noteq> CHR '':'') s = ''sha256''" unfolding s by simp
  moreover have "length s = 71" "CHR '':'' \<in> set s" unfolding s using d by simp_all
  ultimately show "digest_from_str s = Inr d"
    using d by (simp add: digest_from_str_def Let_def digest_text_lengths) (simp add: s decode_pairs_display)
next
  assume "digest_from_str s = Inr d"
  then obtain bs where p: "takeWhile (\<lambda>c. c \<noteq> CHR '':'') s = ''sha256''" "CHR '':'' \<in> set s"
      "length (drop (length ''sha256'' + 1) s) = 64" "decode_pairs 7 (drop (length ''sha256'' + 1) s) = Inr bs" "d = Sha256 bs"
    by (auto simp: digest_from_str_def Let_def result_simps digest_text_lengths simp del: length_drop)
  have seven: "drop (length ''sha256'' + 1) s = drop 7 s" by (simp add: eval_nat_numeral)
  have len: "length (drop 7 s) = 64" using p(3) unfolding seven .
  then have "even (length (drop 7 s))" by (simp only: even_numeral)
  then have tail: "drop 7 s = concat (map display_byte bs)"
    using decode_pairs_Inr [of 7 "drop 7 s"] p(4) unfolding seven by blast
  have "length bs = 32" using len unfolding tail by (simp add: length_display_bytes)
  moreover have "s = SHA256_PREFIX @ concat (map display_byte bs)" using split_prefix [OF p(1,2)] unfolding tail .
  ultimately show "length (as_bytes d) = 32 \<and> s = digest_display d" using p(5) by (simp add: digest_display_def)
qed

end
