(* ===== verification/Checkpoint.thy ===== *)
theory Checkpoint
  imports Canonical Lease
begin

text \<open>
  \<open>crates/stateknot-core/src/checkpoint.rs\<close>: immutable graph checkpoints. A checkpoint is a committed
  superstep barrier; state, ready nodes, graph reference, predecessor and journal head are all covered
  by checksums. The references it pins come from \<open>schema.rs\<close>, \<open>capability.rs\<close>, \<open>identity.rs\<close> and
  \<open>version.rs\<close>, the journal head from \<open>journal.rs\<close>. The serializer of the checksum preimages is
  third-party code, the field \<open>cr_checkpoint\<close>.
\<close>

section \<open>Pinned references\<close>

record version =
  major :: u64
  minor :: u64
  patch :: u64

record principal_identity =
  issuer :: string
  subject :: string

record capability_reference =
  cap_name :: string
  cap_version :: version

record capability_identity =
  cap_owner :: principal_identity
  capability :: capability_reference

record schema_reference =
  schema_id :: string
  schema_version :: version
  schema_digest :: digest

record graph_reference =
  gr_identity :: capability_identity
  gr_definition_digest :: digest
  gr_state_schema :: schema_reference

datatype checkpoint_id = CheckpointId (checkpoint_uuid: uuid)

datatype journal_sequence = JournalSequence (sequence_get: u64)

datatype journal_sequence_error = SequenceZero | SequenceAboveMaximum

definition sequence_new :: "u64 \<Rightarrow> (journal_sequence_error, journal_sequence) result" where
  "sequence_new v =
     and_then (reject_if (v = 0) SequenceZero) (\<lambda>_.
     and_then (reject_if (v > MAX_DATABASE_ORDINAL) SequenceAboveMaximum) (\<lambda>_. Inr (JournalSequence v)))"

definition sequence_checked_next :: "journal_sequence \<Rightarrow> journal_sequence option" where
  "sequence_checked_next s =
     (if sequence_get s = MAX_DATABASE_ORDINAL then None else Some (JournalSequence (sequence_get s + 1)))"

record journal_head =
  jh_tenant_id :: tenant_id
  jh_run_id :: run_id
  jh_sequence :: journal_sequence
  jh_event_id :: event_id
  jh_recorded_at :: timestamp
  jh_digest :: digest

section \<open>Supersteps\<close>

datatype superstep = Superstep (superstep_get: u64)

datatype superstep_error = SuperstepInvalidFormat | SuperstepNonCanonical | SuperstepAboveMaximum

definition superstep_INITIAL :: superstep where "superstep_INITIAL = Superstep 0"

definition superstep_new :: "u64 \<Rightarrow> (superstep_error, superstep) result" where
  "superstep_new v = and_then (reject_if (v > MAX_DATABASE_ORDINAL) SuperstepAboveMaximum) (\<lambda>_. Inr (Superstep v))"

definition superstep_checked_next :: "superstep \<Rightarrow> superstep option" where
  "superstep_checked_next s =
     (if superstep_get s = MAX_DATABASE_ORDINAL then None else Some (Superstep (superstep_get s + 1)))"

fun superstep_from_decimal_error :: "unsigned_decimal_error \<Rightarrow> superstep_error" where
  "superstep_from_decimal_error Empty = SuperstepInvalidFormat"
| "superstep_from_decimal_error (InvalidCharacter _) = SuperstepInvalidFormat"
| "superstep_from_decimal_error LeadingZero = SuperstepNonCanonical"
| "superstep_from_decimal_error (TooLong _ _) = SuperstepAboveMaximum"
| "superstep_from_decimal_error Overflow = SuperstepAboveMaximum"

definition superstep_from_str :: "string \<Rightarrow> (superstep_error, superstep) result" where
  "superstep_from_str s =
     and_then (map_err superstep_from_decimal_error (parse_bounded_u64 s MAX_DATABASE_ORDINAL)) superstep_new"

section \<open>Nodes\<close>

datatype node_id = NodeId (node_str: string)

instantiation node_id :: linorder
begin

definition less_eq_node_id :: "node_id \<Rightarrow> node_id \<Rightarrow> bool" where
  "less_eq_node_id s t \<longleftrightarrow> node_str s \<le> node_str t"

definition less_node_id :: "node_id \<Rightarrow> node_id \<Rightarrow> bool" where
  "less_node_id s t \<longleftrightarrow> node_str s < node_str t"

instance
  by standard (auto simp: less_eq_node_id_def less_node_id_def node_id.expand)

end

datatype node_id_error =
  NodeEmpty
| NodeTooLong nat nat
| NodePathLike
| NodeInvalidByte nat

definition NODE_MAX_LEN :: nat where "NODE_MAX_LEN = 128"

definition node_byte :: "char \<Rightarrow> bool" where
  "node_byte c \<longleftrightarrow> is_ascii_alphanumeric c \<or> c \<in> {CHR ''.'', CHR ''_'', CHR ''-''}"

definition validate_node_id :: "string \<Rightarrow> (node_id_error, unit) result" where
  "validate_node_id v =
     and_then (reject_first
       [(v = [], NodeEmpty),
        (length v > NODE_MAX_LEN, NodeTooLong NODE_MAX_LEN (length v)),
        (v \<in> {''.'', ''..''}, NodePathLike),
        (v \<noteq> [] \<and> \<not> is_ascii_alphanumeric (hd v), NodeInvalidByte 0)]) (\<lambda>_.
     case position (\<lambda>c. \<not> node_byte c) v of None \<Rightarrow> Inr () | Some index \<Rightarrow> Inl (NodeInvalidByte index))"

definition node_new :: "string \<Rightarrow> (node_id_error, node_id) result" where
  "node_new v = and_then (validate_node_id v) (\<lambda>_. Inr (NodeId v))"

text \<open>A \<open>BTreeSet\<close> of nodes is its ascending list.\<close>

datatype ready_nodes = ReadyNodes (ready_list: "node_id list")

datatype ready_nodes_error = ReadyDuplicate node_id | ReadyTooMany nat nat

definition READY_MAX_LEN :: nat where "READY_MAX_LEN = 1024"

definition collect_ready :: "node_id list \<Rightarrow> node_id \<Rightarrow> (ready_nodes_error, node_id list) result" where
  "collect_ready values node =
     and_then (reject_if (node \<in> set values) (ReadyDuplicate node)) (\<lambda>_.
     and_then (reject_if (length values = READY_MAX_LEN) (ReadyTooMany READY_MAX_LEN (READY_MAX_LEN + 1))) (\<lambda>_.
     Inr (insort node values)))"

definition ready_try_new :: "node_id list \<Rightarrow> (ready_nodes_error, ready_nodes) result" where
  "ready_try_new nodes = map_ok ReadyNodes (try_fold collect_ready [] nodes)"

section \<open>State, heads, writes and checkpoints\<close>

record checkpoint_state =
  cs_schema :: schema_reference
  cs_data :: json
  cs_digest :: digest

record checkpoint_head =
  ch_tenant_id :: tenant_id
  ch_run_id :: run_id
  ch_checkpoint_id :: checkpoint_id
  ch_superstep :: superstep
  ch_graph :: graph_reference
  ch_journal_head :: journal_head
  ch_digest :: digest

record checkpoint_write =
  cw_tenant_id :: tenant_id
  cw_run_id :: run_id
  cw_checkpoint_id :: checkpoint_id
  cw_superstep :: superstep
  cw_graph :: graph_reference
  cw_state :: checkpoint_state
  cw_ready_nodes :: ready_nodes
  cw_parent :: "checkpoint_head option"
  cw_intent_digest :: digest

record checkpoint =
  cp_tenant_id :: tenant_id
  cp_run_id :: run_id
  cp_checkpoint_id :: checkpoint_id
  cp_superstep :: superstep
  cp_graph :: graph_reference
  cp_state :: checkpoint_state
  cp_ready_nodes :: ready_nodes
  cp_parent :: "checkpoint_head option"
  cp_intent_digest :: digest
  cp_journal_head :: journal_head
  cp_digest :: digest

datatype checkpoint_preimage =
  StateDigestWire schema_reference digest
| CheckpointIntentDigestWire tenant_id run_id checkpoint_id superstep graph_reference digest ready_nodes
    "checkpoint_head option"
| CheckpointDigestWire digest journal_head

record checkpoint_crypto = crypto +
  cr_checkpoint :: "checkpoint_preimage \<Rightarrow> string option"

definition STATE_DIGEST_DOMAIN :: string where
  "STATE_DIGEST_DOMAIN = ''stateknot-checkpoint-state-v1'' @ [CHR 0x00]"

definition INTENT_DIGEST_DOMAIN :: string where
  "INTENT_DIGEST_DOMAIN = ''stateknot-checkpoint-intent-v1'' @ [CHR 0x00]"

definition CHECKPOINT_DIGEST_DOMAIN :: string where
  "CHECKPOINT_DIGEST_DOMAIN = ''stateknot-checkpoint-v1'' @ [CHR 0x00]"

datatype checkpoint_integrity_error = StateCanonicalization canonical_json_error | CheckpointCanonicalSerialization

definition compute_state_digest ::
  "'z checkpoint_crypto_scheme \<Rightarrow> schema_reference \<Rightarrow> json \<Rightarrow> (checkpoint_integrity_error, digest) result" where
  "compute_state_digest x schema d =
     and_then (map_err StateCanonicalization (canonical_json_new x d)) (\<lambda>canonical.
     domain_digest x STATE_DIGEST_DOMAIN (cr_checkpoint x (StateDigestWire schema (cj_digest canonical)))
       CheckpointCanonicalSerialization)"

definition compute_intent_digest ::
  "'z checkpoint_crypto_scheme \<Rightarrow> checkpoint_preimage \<Rightarrow> (checkpoint_integrity_error, digest) result" where
  "compute_intent_digest x w = domain_digest x INTENT_DIGEST_DOMAIN (cr_checkpoint x w) CheckpointCanonicalSerialization"

definition compute_checkpoint_digest ::
  "'z checkpoint_crypto_scheme \<Rightarrow> checkpoint_preimage \<Rightarrow> (checkpoint_integrity_error, digest) result" where
  "compute_checkpoint_digest x w = domain_digest x CHECKPOINT_DIGEST_DOMAIN (cr_checkpoint x w) CheckpointCanonicalSerialization"

datatype checkpoint_state_error = StateIntegrity checkpoint_integrity_error | StateDigestMismatch

definition state_new ::
  "'z checkpoint_crypto_scheme \<Rightarrow> schema_reference \<Rightarrow> json \<Rightarrow> (checkpoint_state_error, checkpoint_state) result" where
  "state_new x schema d =
     and_then (map_err StateIntegrity (compute_state_digest x schema d)) (\<lambda>digest.
     Inr \<lparr>cs_schema = schema, cs_data = d, cs_digest = digest\<rparr>)"

definition state_restore ::
  "'z checkpoint_crypto_scheme \<Rightarrow> schema_reference \<Rightarrow> json \<Rightarrow> digest \<Rightarrow> (checkpoint_state_error, checkpoint_state) result" where
  "state_restore x schema d digest =
     and_then (map_err StateIntegrity (compute_state_digest x schema d)) (\<lambda>expected.
     and_then (reject_if (digest \<noteq> expected) StateDigestMismatch) (\<lambda>_.
     Inr \<lparr>cs_schema = schema, cs_data = d, cs_digest = digest\<rparr>))"

datatype journal_scope_error = ScopeTenant | ScopeRun

definition validate_journal_scope :: "tenant_id \<Rightarrow> run_id \<Rightarrow> journal_head \<Rightarrow> (journal_scope_error, unit) result" where
  "validate_journal_scope t r j = reject_first [(jh_tenant_id j \<noteq> t, ScopeTenant), (jh_run_id j \<noteq> r, ScopeRun)]"

datatype checkpoint_head_error = HeadJournalTenantMismatch | HeadJournalRunMismatch

fun head_error_from_scope :: "journal_scope_error \<Rightarrow> checkpoint_head_error" where
  "head_error_from_scope ScopeTenant = HeadJournalTenantMismatch"
| "head_error_from_scope ScopeRun = HeadJournalRunMismatch"

definition head_new ::
  "tenant_id \<Rightarrow> run_id \<Rightarrow> checkpoint_id \<Rightarrow> superstep \<Rightarrow> graph_reference \<Rightarrow> journal_head \<Rightarrow> digest \<Rightarrow>
     (checkpoint_head_error, checkpoint_head) result" where
  "head_new t r i n g j d =
     and_then (map_err head_error_from_scope (validate_journal_scope t r j)) (\<lambda>_.
     Inr \<lparr>ch_tenant_id = t, ch_run_id = r, ch_checkpoint_id = i, ch_superstep = n, ch_graph = g, ch_journal_head = j,
          ch_digest = d\<rparr>)"

datatype checkpoint_write_error =
  StateSchemaMismatch
| InitialHasParent
| SuccessorMissingParent
| ParentTenantMismatch
| ParentRunMismatch
| ReusedCheckpointId
| SuperstepOverflow
| NonContiguousSuperstep superstep superstep
| ParentGraphMismatch
| WriteIntegrity checkpoint_integrity_error
| IntentDigestMismatch

definition validate_write_shape ::
  "tenant_id \<Rightarrow> run_id \<Rightarrow> checkpoint_id \<Rightarrow> superstep \<Rightarrow> graph_reference \<Rightarrow> checkpoint_state \<Rightarrow>
     checkpoint_head option \<Rightarrow> (checkpoint_write_error, unit) result" where
  "validate_write_shape t r i n g state parent =
     and_then (reject_if (cs_schema state \<noteq> gr_state_schema g) StateSchemaMismatch) (\<lambda>_.
     case parent of
       None \<Rightarrow> reject_if (n \<noteq> superstep_INITIAL) SuccessorMissingParent
     | Some h \<Rightarrow>
         and_then (reject_if (n = superstep_INITIAL) InitialHasParent) (\<lambda>_.
         and_then (reject_if (ch_tenant_id h \<noteq> t) ParentTenantMismatch) (\<lambda>_.
         and_then (reject_if (ch_run_id h \<noteq> r) ParentRunMismatch) (\<lambda>_.
         and_then (reject_if (ch_checkpoint_id h = i) ReusedCheckpointId) (\<lambda>_.
         and_then (ok_or (superstep_checked_next (ch_superstep h)) SuperstepOverflow) (\<lambda>expected.
         and_then (reject_if (n \<noteq> expected) (NonContiguousSuperstep expected n)) (\<lambda>_.
         reject_if (ch_graph h \<noteq> g) ParentGraphMismatch)))))))"

definition write_build ::
  "'z checkpoint_crypto_scheme \<Rightarrow> tenant_id \<Rightarrow> run_id \<Rightarrow> checkpoint_id \<Rightarrow> superstep \<Rightarrow> graph_reference \<Rightarrow>
     checkpoint_state \<Rightarrow> ready_nodes \<Rightarrow> checkpoint_head option \<Rightarrow> digest option \<Rightarrow>
     (checkpoint_write_error, checkpoint_write) result" where
  "write_build x t r i n g state ready parent supplied =
     and_then (validate_write_shape t r i n g state parent) (\<lambda>_.
     and_then (map_err WriteIntegrity (compute_intent_digest x
       (CheckpointIntentDigestWire t r i n g (cs_digest state) ready parent))) (\<lambda>intent_digest.
     and_then (reject_if (supplied \<noteq> None \<and> supplied \<noteq> Some intent_digest) IntentDigestMismatch) (\<lambda>_.
     Inr \<lparr>cw_tenant_id = t, cw_run_id = r, cw_checkpoint_id = i, cw_superstep = n, cw_graph = g, cw_state = state,
          cw_ready_nodes = ready, cw_parent = parent, cw_intent_digest = intent_digest\<rparr>)))"

definition write_initial ::
  "'z checkpoint_crypto_scheme \<Rightarrow> tenant_id \<Rightarrow> run_id \<Rightarrow> checkpoint_id \<Rightarrow> graph_reference \<Rightarrow> checkpoint_state \<Rightarrow>
     ready_nodes \<Rightarrow> (checkpoint_write_error, checkpoint_write) result" where
  "write_initial x t r i g state ready = write_build x t r i superstep_INITIAL g state ready None None"

definition checkpoint_head_of :: "checkpoint \<Rightarrow> checkpoint_head" where
  "checkpoint_head_of c =
     \<lparr>ch_tenant_id = cp_tenant_id c, ch_run_id = cp_run_id c, ch_checkpoint_id = cp_checkpoint_id c,
      ch_superstep = cp_superstep c, ch_graph = cp_graph c, ch_journal_head = cp_journal_head c, ch_digest = cp_digest c\<rparr>"

definition write_successor ::
  "'z checkpoint_crypto_scheme \<Rightarrow> checkpoint_id \<Rightarrow> checkpoint \<Rightarrow> checkpoint_state \<Rightarrow> ready_nodes \<Rightarrow>
     (checkpoint_write_error, checkpoint_write) result" where
  "write_successor x i parent state ready =
     and_then (ok_or (superstep_checked_next (cp_superstep parent)) SuperstepOverflow) (\<lambda>n.
     write_build x (cp_tenant_id parent) (cp_run_id parent) i n (cp_graph parent) state ready
       (Some (checkpoint_head_of parent)) None)"

definition write_restore ::
  "'z checkpoint_crypto_scheme \<Rightarrow> tenant_id \<Rightarrow> run_id \<Rightarrow> checkpoint_id \<Rightarrow> superstep \<Rightarrow> graph_reference \<Rightarrow>
     checkpoint_state \<Rightarrow> ready_nodes \<Rightarrow> checkpoint_head option \<Rightarrow> digest \<Rightarrow>
     (checkpoint_write_error, checkpoint_write) result" where
  "write_restore x t r i n g state ready parent intent_digest =
     write_build x t r i n g state ready parent (Some intent_digest)"

datatype checkpoint_error =
  CheckpointJournalTenantMismatch
| CheckpointJournalRunMismatch
| JournalDidNotAdvance journal_sequence journal_sequence
| CheckpointClockRegression timestamp timestamp
| CheckpointIntegrity checkpoint_integrity_error
| CheckpointDigestMismatch

fun checkpoint_error_from_scope :: "journal_scope_error \<Rightarrow> checkpoint_error" where
  "checkpoint_error_from_scope ScopeTenant = CheckpointJournalTenantMismatch"
| "checkpoint_error_from_scope ScopeRun = CheckpointJournalRunMismatch"

definition checkpoint_build ::
  "'z checkpoint_crypto_scheme \<Rightarrow> checkpoint_write \<Rightarrow> journal_head \<Rightarrow> digest option \<Rightarrow> (checkpoint_error, checkpoint) result" where
  "checkpoint_build x w j supplied =
     and_then (map_err checkpoint_error_from_scope (validate_journal_scope (cw_tenant_id w) (cw_run_id w) j)) (\<lambda>_.
     and_then (case cw_parent w of
         None \<Rightarrow> Inr ()
       | Some h \<Rightarrow> reject_first
           [(sequence_get (jh_sequence j) \<le> sequence_get (jh_sequence (ch_journal_head h)),
               JournalDidNotAdvance (jh_sequence (ch_journal_head h)) (jh_sequence j)),
            (jh_recorded_at j < jh_recorded_at (ch_journal_head h),
               CheckpointClockRegression (jh_recorded_at (ch_journal_head h)) (jh_recorded_at j))]) (\<lambda>_.
     and_then (map_err CheckpointIntegrity (compute_checkpoint_digest x (CheckpointDigestWire (cw_intent_digest w) j))) (\<lambda>digest.
     and_then (reject_if (supplied \<noteq> None \<and> supplied \<noteq> Some digest) CheckpointDigestMismatch) (\<lambda>_.
     Inr \<lparr>cp_tenant_id = cw_tenant_id w, cp_run_id = cw_run_id w, cp_checkpoint_id = cw_checkpoint_id w,
          cp_superstep = cw_superstep w, cp_graph = cw_graph w, cp_state = cw_state w, cp_ready_nodes = cw_ready_nodes w,
          cp_parent = cw_parent w, cp_intent_digest = cw_intent_digest w, cp_journal_head = j, cp_digest = digest\<rparr>))))"

definition checkpoint_commit ::
  "'z checkpoint_crypto_scheme \<Rightarrow> checkpoint_write \<Rightarrow> journal_head \<Rightarrow> (checkpoint_error, checkpoint) result" where
  "checkpoint_commit x w j = checkpoint_build x w j None"

definition checkpoint_restore ::
  "'z checkpoint_crypto_scheme \<Rightarrow> checkpoint_write \<Rightarrow> journal_head \<Rightarrow> digest \<Rightarrow> (checkpoint_error, checkpoint) result" where
  "checkpoint_restore x w j digest = checkpoint_build x w j (Some digest)"

definition write_intent :: "checkpoint \<Rightarrow> checkpoint_write" where
  "write_intent c =
     \<lparr>cw_tenant_id = cp_tenant_id c, cw_run_id = cp_run_id c, cw_checkpoint_id = cp_checkpoint_id c,
      cw_superstep = cp_superstep c, cw_graph = cp_graph c, cw_state = cp_state c, cw_ready_nodes = cp_ready_nodes c,
      cw_parent = cp_parent c, cw_intent_digest = cp_intent_digest c\<rparr>"

definition matches_write :: "checkpoint \<Rightarrow> checkpoint_write \<Rightarrow> bool" where
  "matches_write c w \<longleftrightarrow>
     cp_tenant_id c = cw_tenant_id w \<and> cp_run_id c = cw_run_id w \<and> cp_checkpoint_id c = cw_checkpoint_id w \<and>
     cp_superstep c = cw_superstep w \<and> cp_graph c = cw_graph w \<and> cp_state c = cw_state w \<and>
     cp_ready_nodes c = cw_ready_nodes w \<and> cp_parent c = cw_parent w \<and> cp_intent_digest c = cw_intent_digest w"

text \<open>
  Reading a checkpoint back. The wire has the fields of the record: supersteps and journal sequences go
  through their constructors, the ready nodes arrive as a sequence, the predecessor through its own
  constructor, and every checksum is recomputed.
\<close>

datatype checkpoint_wire_error =
  WireSuperstep superstep_error
| WireSequence journal_sequence_error
| WireState checkpoint_state_error
| WireReady ready_nodes_error
| WireParent checkpoint_head_error
| WireWrite checkpoint_write_error
| WireCheckpoint checkpoint_error

definition journal_from_wire :: "journal_head \<Rightarrow> (checkpoint_wire_error, journal_head) result" where
  "journal_from_wire j =
     and_then (map_err WireSequence (sequence_new (sequence_get (jh_sequence j)))) (\<lambda>sequence.
     Inr (j\<lparr>jh_sequence := sequence\<rparr>))"

definition head_from_wire :: "checkpoint_head \<Rightarrow> (checkpoint_wire_error, checkpoint_head) result" where
  "head_from_wire h =
     and_then (map_err WireSuperstep (superstep_new (superstep_get (ch_superstep h)))) (\<lambda>n.
     and_then (journal_from_wire (ch_journal_head h)) (\<lambda>j.
     map_err WireParent (head_new (ch_tenant_id h) (ch_run_id h) (ch_checkpoint_id h) n (ch_graph h) j (ch_digest h))))"

definition checkpoint_from_wire :: "'z checkpoint_crypto_scheme \<Rightarrow> checkpoint \<Rightarrow> (checkpoint_wire_error, checkpoint) result" where
  "checkpoint_from_wire x w =
     and_then (map_err WireSuperstep (superstep_new (superstep_get (cp_superstep w)))) (\<lambda>n.
     and_then (map_err WireState (state_restore x (cs_schema (cp_state w)) (cs_data (cp_state w)) (cs_digest (cp_state w)))) (\<lambda>state.
     and_then (map_err WireReady (ready_try_new (ready_list (cp_ready_nodes w)))) (\<lambda>ready.
     and_then (case cp_parent w of None \<Rightarrow> Inr None | Some h \<Rightarrow> map_ok Some (head_from_wire h)) (\<lambda>parent.
     and_then (journal_from_wire (cp_journal_head w)) (\<lambda>j.
     and_then (map_err WireWrite (write_build x (cp_tenant_id w) (cp_run_id w) (cp_checkpoint_id w) n
       (cp_graph w) state ready parent (Some (cp_intent_digest w)))) (\<lambda>write.
     map_err WireCheckpoint (checkpoint_restore x write j (cp_digest w))))))))"

section \<open>Lineage\<close>

datatype checkpoint_lineage_error = HeadMismatch | AlreadyComplete

record lineage_verifier =
  lv_expected :: "checkpoint_head option"

definition from_tip :: "checkpoint_head \<Rightarrow> lineage_verifier" where
  "from_tip tip = \<lparr>lv_expected = Some tip\<rparr>"

definition lineage_complete :: "lineage_verifier \<Rightarrow> bool" where
  "lineage_complete v \<longleftrightarrow> lv_expected v = None"

definition verify_next :: "lineage_verifier \<Rightarrow> checkpoint \<Rightarrow> (checkpoint_lineage_error, lineage_verifier) result" where
  "verify_next v c =
     and_then (ok_or (lv_expected v) AlreadyComplete) (\<lambda>expected.
     and_then (reject_if (checkpoint_head_of c \<noteq> expected) HeadMismatch) (\<lambda>_.
     Inr (v\<lparr>lv_expected := cp_parent c\<rparr>)))"

section \<open>What a restored checkpoint guarantees\<close>

definition superstep_wf :: "superstep \<Rightarrow> bool" where
  "superstep_wf n \<longleftrightarrow> superstep_get n \<le> MAX_DATABASE_ORDINAL"

definition journal_wf :: "journal_head \<Rightarrow> bool" where
  "journal_wf j \<longleftrightarrow> sequence_get (jh_sequence j) \<noteq> 0 \<and> sequence_get (jh_sequence j) \<le> MAX_DATABASE_ORDINAL"

definition head_wf :: "checkpoint_head \<Rightarrow> bool" where
  "head_wf h \<longleftrightarrow> superstep_wf (ch_superstep h) \<and> journal_wf (ch_journal_head h) \<and>
     jh_tenant_id (ch_journal_head h) = ch_tenant_id h \<and> jh_run_id (ch_journal_head h) = ch_run_id h"

definition ready_wf :: "ready_nodes \<Rightarrow> bool" where
  "ready_wf r \<longleftrightarrow> sorted_wrt (<) (ready_list r) \<and> length (ready_list r) \<le> READY_MAX_LEN"

definition intent_wire :: "checkpoint \<Rightarrow> checkpoint_preimage" where
  "intent_wire c = CheckpointIntentDigestWire (cp_tenant_id c) (cp_run_id c) (cp_checkpoint_id c) (cp_superstep c)
     (cp_graph c) (cs_digest (cp_state c)) (cp_ready_nodes c) (cp_parent c)"

lemma superstep_next_iff:
  assumes "superstep_wf s"
  shows "superstep_checked_next s = Some n \<longleftrightarrow> superstep_wf n \<and> unat (superstep_get n) = Suc (unat (superstep_get s))"
proof -
  have m: "unat MAX_DATABASE_ORDINAL = 9223372036854775807" by (simp add: MAX_DATABASE_ORDINAL_def)
  have s: "unat (superstep_get s) \<le> 9223372036854775807"
    using assms m by (simp add: superstep_wf_def word_le_nat)
  then have u: "unat (superstep_get s + 1) = Suc (unat (superstep_get s))"
    by (simp add: unat_word_ariths)
  show ?thesis
  proof (cases n)
    case (Superstep k)
    then show ?thesis using s u
      by (auto simp: superstep_checked_next_def superstep_wf_def word_eq_nat word_le_nat m)
  qed
qed

lemma collect_ready_iff:
  "collect_ready vs n = Inr out \<longleftrightarrow> n \<notin> set vs \<and> length vs \<noteq> READY_MAX_LEN \<and> out = insort n vs"
  by (auto simp: collect_ready_def result_simps)

lemma try_fold_collect_ready:
  "length vs \<le> READY_MAX_LEN \<Longrightarrow>
     try_fold collect_ready vs ns = Inr out \<longleftrightarrow>
     distinct ns \<and> set ns \<inter> set vs = {} \<and> length vs + length ns \<le> READY_MAX_LEN \<and> out = fold insort ns vs"
proof (induction ns arbitrary: vs)
  case (Cons n ns)
  show ?case
  proof (cases "n \<in> set vs \<or> length vs = READY_MAX_LEN")
    case True
    then show ?thesis using Cons.prems by (auto simp: result_simps collect_ready_iff)
  next
    case False
    with Cons.prems have l: "length (insort n vs) \<le> READY_MAX_LEN" by simp
    have "try_fold collect_ready vs (n # ns) = try_fold collect_ready (insort n vs) ns"
      using False collect_ready_iff [of vs n "insort n vs"] by simp
    with Cons.IH [OF l] False show ?thesis by (auto simp: set_insort_key)
  qed
qed auto

lemma ready_try_new_iff:
  "ready_try_new ns = Inr r \<longleftrightarrow> distinct ns \<and> length ns \<le> READY_MAX_LEN \<and> r = ReadyNodes (sort ns)"
  using try_fold_collect_ready [of "[]" ns] by (auto simp: ready_try_new_def result_simps sort_conv_fold)

lemma ready_try_new_wf: "ready_try_new ns = Inr r \<Longrightarrow> ready_wf r"
  by (auto simp: ready_try_new_iff ready_wf_def strict_sorted_iff)

lemma ready_try_new_same: "ready_try_new (ready_list r) = Inr r \<longleftrightarrow> ready_wf r"
proof -
  have "r = ReadyNodes (sort (ready_list r)) \<longleftrightarrow> sorted (ready_list r)"
    by (metis ready_nodes.exhaust_sel ready_nodes.sel sorted_sort sorted_sort_id)
  then show ?thesis by (auto simp: ready_try_new_iff ready_wf_def strict_sorted_iff)
qed

lemma journal_from_wire_same [result_simps]: "journal_from_wire j = Inr k \<longleftrightarrow> journal_wf j \<and> k = j"
  by (cases "jh_sequence j") (auto simp: journal_from_wire_def sequence_new_def journal_wf_def result_simps)

lemma superstep_new_same [result_simps]: "superstep_new (superstep_get n) = Inr m \<longleftrightarrow> superstep_wf n \<and> m = n"
  by (cases n) (auto simp: superstep_new_def superstep_wf_def result_simps)

lemma head_from_wire_same [result_simps]: "head_from_wire h = Inr k \<longleftrightarrow> head_wf h \<and> k = h"
  by (auto simp: head_from_wire_def head_new_def head_wf_def validate_journal_scope_def result_simps)

lemma state_restore_iff [result_simps]:
  "state_restore x schema d digest = Inr st \<longleftrightarrow> state_new x schema d = Inr st \<and> cs_digest st = digest"
  by (auto simp: state_restore_def state_new_def result_simps)

lemma state_new_same:
  "state_new x (cs_schema st) (cs_data st) = Inr st \<longleftrightarrow>
     compute_state_digest x (cs_schema st) (cs_data st) = Inr (cs_digest st)"
  by (cases st) (auto simp: state_new_def result_simps)

text \<open>The facts a committed checkpoint rests on, whichever way it was obtained.\<close>

definition checkpoint_ok :: "'z checkpoint_crypto_scheme \<Rightarrow> checkpoint \<Rightarrow> bool" where
  "checkpoint_ok x c \<longleftrightarrow>
     superstep_wf (cp_superstep c) \<and> journal_wf (cp_journal_head c) \<and> ready_wf (cp_ready_nodes c) \<and>
     (case cp_parent c of None \<Rightarrow> True | Some h \<Rightarrow> head_wf h) \<and>
     state_new x (cs_schema (cp_state c)) (cs_data (cp_state c)) = Inr (cp_state c) \<and>
     write_build x (cp_tenant_id c) (cp_run_id c) (cp_checkpoint_id c) (cp_superstep c) (cp_graph c) (cp_state c)
       (cp_ready_nodes c) (cp_parent c) None = Inr (write_intent c) \<and>
     checkpoint_commit x (write_intent c) (cp_journal_head c) = Inr c"

lemma write_build_supplied:
  "write_build x t r i n g state ready parent (Some d) = Inr w \<longleftrightarrow>
     write_build x t r i n g state ready parent None = Inr w \<and> cw_intent_digest w = d"
  by (auto simp: write_build_def result_simps)

lemma checkpoint_restore_iff:
  "checkpoint_restore x w j d = Inr c \<longleftrightarrow> checkpoint_commit x w j = Inr c \<and> cp_digest c = d"
  by (auto simp: checkpoint_restore_def checkpoint_commit_def checkpoint_build_def result_simps)

lemma write_build_fields:
  "write_build x t r i n g state ready parent s = Inr w \<Longrightarrow>
     cw_tenant_id w = t \<and> cw_run_id w = r \<and> cw_checkpoint_id w = i \<and> cw_superstep w = n \<and> cw_graph w = g \<and>
     cw_state w = state \<and> cw_ready_nodes w = ready \<and> cw_parent w = parent"
  by (auto simp: write_build_def result_simps)

lemma commit_fields: "checkpoint_commit x w j = Inr c \<Longrightarrow> write_intent c = w \<and> cp_journal_head c = j"
  by (auto simp: checkpoint_commit_def checkpoint_build_def write_intent_def result_simps)

lemma state_new_fields: "state_new x schema d = Inr st \<Longrightarrow> cs_schema st = schema \<and> cs_data st = d"
  by (auto simp: state_new_def result_simps)

lemma wire_parent_iff:
  "(case p of None \<Rightarrow> Inr None | Some h \<Rightarrow> map_ok Some (head_from_wire h)) = Inr q \<longleftrightarrow>
     (case p of None \<Rightarrow> True | Some h \<Rightarrow> head_wf h) \<and> q = p"
  by (auto simp: result_simps split: option.splits)

lemma restored_ok: "checkpoint_from_wire x w = Inr c \<Longrightarrow> checkpoint_ok x c"
proof -
  assume "checkpoint_from_wire x w = Inr c"
  then obtain st r wr where p: "superstep_wf (cp_superstep w)"
      "state_new x (cs_schema (cp_state w)) (cs_data (cp_state w)) = Inr st"
      "ready_try_new (ready_list (cp_ready_nodes w)) = Inr r"
      "case cp_parent w of None \<Rightarrow> True | Some h \<Rightarrow> head_wf h" "journal_wf (cp_journal_head w)"
      "write_build x (cp_tenant_id w) (cp_run_id w) (cp_checkpoint_id w) (cp_superstep w) (cp_graph w) st r (cp_parent w)
         None = Inr wr"
      "checkpoint_commit x wr (cp_journal_head w) = Inr c"
    by (auto simp: checkpoint_from_wire_def wire_parent_iff result_simps write_build_supplied checkpoint_restore_iff)
  have w: "wr = write_intent c" "cp_journal_head w = cp_journal_head c" using commit_fields [OF p(7)] by simp_all
  have f: "cp_tenant_id c = cp_tenant_id w" "cp_run_id c = cp_run_id w" "cp_checkpoint_id c = cp_checkpoint_id w"
      "cp_superstep c = cp_superstep w" "cp_graph c = cp_graph w" "cp_state c = st" "cp_ready_nodes c = r"
      "cp_parent c = cp_parent w"
    using write_build_fields [OF p(6)] unfolding w by (simp_all add: write_intent_def)
  show ?thesis
    using p(1,2,4-7) ready_try_new_wf [OF p(3)] state_new_fields [OF p(2)] unfolding checkpoint_ok_def f w by simp
qed

lemma ok_restored: "checkpoint_ok x c \<Longrightarrow> checkpoint_from_wire x c = Inr c"
proof -
  assume a: "checkpoint_ok x c"
  have "cw_intent_digest (write_intent c) = cp_intent_digest c" by (simp add: write_intent_def)
  moreover have "ready_try_new (ready_list (cp_ready_nodes c)) = Inr (cp_ready_nodes c)"
    using a by (simp add: checkpoint_ok_def ready_try_new_same)
  ultimately show ?thesis using a
    by (auto simp: checkpoint_ok_def checkpoint_from_wire_def wire_parent_iff result_simps write_build_supplied
        checkpoint_restore_iff)
qed

lemma restored_iff: "checkpoint_from_wire x c = Inr c \<longleftrightarrow> checkpoint_ok x c"
  using restored_ok ok_restored by blast

lemma shape_of_ok:
  "checkpoint_ok x c \<Longrightarrow> validate_write_shape (cp_tenant_id c) (cp_run_id c) (cp_checkpoint_id c) (cp_superstep c)
     (cp_graph c) (cp_state c) (cp_parent c) = Inr ()"
  by (auto simp: checkpoint_ok_def write_build_def result_simps)

lemma ok_root: "checkpoint_ok x c \<Longrightarrow> cp_parent c = None \<longleftrightarrow> cp_superstep c = superstep_INITIAL"
  using shape_of_ok [of x c] by (auto simp: validate_write_shape_def result_simps split: option.splits)

lemma ok_head: "checkpoint_ok x c \<Longrightarrow> head_wf (checkpoint_head_of c)"
  by (auto simp: checkpoint_ok_def head_wf_def checkpoint_head_of_def checkpoint_commit_def checkpoint_build_def
      validate_journal_scope_def write_intent_def result_simps)

lemma ok_parent:
  assumes "checkpoint_ok x c" and "cp_parent c = Some h"
  shows "ch_tenant_id h = cp_tenant_id c" and "ch_run_id h = cp_run_id c" and "ch_graph h = cp_graph c"
    and "unat (superstep_get (cp_superstep c)) = Suc (unat (superstep_get (ch_superstep h)))"
    and "sequence_get (jh_sequence (ch_journal_head h)) < sequence_get (jh_sequence (cp_journal_head c))"
    and "jh_recorded_at (ch_journal_head h) \<le> jh_recorded_at (cp_journal_head c)"
proof -
  have h: "superstep_wf (ch_superstep h)" using assms by (auto simp: checkpoint_ok_def head_wf_def)
  from shape_of_ok [OF assms(1)] assms(2)
  show "ch_tenant_id h = cp_tenant_id c" "ch_run_id h = cp_run_id c" "ch_graph h = cp_graph c"
    by (auto simp: validate_write_shape_def result_simps)
  from shape_of_ok [OF assms(1)] assms(2) have "superstep_checked_next (ch_superstep h) = Some (cp_superstep c)"
    by (auto simp: validate_write_shape_def result_simps)
  then show "unat (superstep_get (cp_superstep c)) = Suc (unat (superstep_get (ch_superstep h)))"
    using superstep_next_iff [OF h] by simp
  from assms show "sequence_get (jh_sequence (ch_journal_head h)) < sequence_get (jh_sequence (cp_journal_head c))"
    and "jh_recorded_at (ch_journal_head h) \<le> jh_recorded_at (cp_journal_head c)"
    by (auto simp: checkpoint_ok_def checkpoint_commit_def checkpoint_build_def write_intent_def result_simps not_le not_less)
qed

section \<open>A sample run\<close>

definition sample_crypto :: checkpoint_crypto where
  "sample_crypto = \<lparr>cr_canonicalize = (\<lambda>d. case d of JInt v \<Rightarrow> Some [char_of (nat v)] | _ \<Rightarrow> None), cr_sha256 = Sha256,
     cr_checkpoint = (\<lambda>w. case w of
       StateDigestWire _ d \<Rightarrow> Some (as_bytes d)
     | CheckpointIntentDigestWire _ _ _ n _ d _ _ \<Rightarrow> Some (char_of (unat (superstep_get n)) # as_bytes d)
     | CheckpointDigestWire d j \<Rightarrow> Some (as_bytes d @ [char_of (unat (sequence_get (jh_sequence j)))]))\<rparr>"

definition sample_version :: version where "sample_version = \<lparr>major = 1, minor = 0, patch = 0\<rparr>"

definition sample_schema :: schema_reference where
  "sample_schema = \<lparr>schema_id = ''https://acme/state'', schema_version = sample_version, schema_digest = Sha256 ''schema''\<rparr>"

definition sample_graph :: graph_reference where
  "sample_graph =
     \<lparr>gr_identity = \<lparr>cap_owner = \<lparr>issuer = ''https://acme'', subject = ''ops''\<rparr>,
        capability = \<lparr>cap_name = ''orders'', cap_version = sample_version\<rparr>\<rparr>,
      gr_definition_digest = Sha256 ''graph'', gr_state_schema = sample_schema\<rparr>"

definition sample_journal :: "u64 \<Rightarrow> journal_head" where
  "sample_journal n = \<lparr>jh_tenant_id = TenantId ''acme'', jh_run_id = RunId 7, jh_sequence = JournalSequence n,
     jh_event_id = EventId (ucast n), jh_recorded_at = Timestamp (int (unat n)), jh_digest = Sha256 ''event''\<rparr>"

definition ok_value :: "('e, 'a) result \<Rightarrow> 'a" where
  "ok_value r = projr r"

definition sample_root :: checkpoint where
  "sample_root = ok_value (checkpoint_commit sample_crypto
     (ok_value (write_initial sample_crypto (TenantId ''acme'') (RunId 7) (CheckpointId 1) sample_graph
       (ok_value (state_new sample_crypto sample_schema (JInt 65))) (ok_value (ready_try_new [NodeId ''ship'', NodeId ''pay'']))))
     (sample_journal 1))"

definition sample_tip :: checkpoint where
  "sample_tip = ok_value (checkpoint_commit sample_crypto
     (ok_value (write_successor sample_crypto (CheckpointId 2) sample_root
       (ok_value (state_new sample_crypto sample_schema (JInt 66))) (ok_value (ready_try_new []))))
     (sample_journal 3))"

section \<open>Lineages\<close>

text \<open>The verifier accepts a whole sequence, newest first, and is complete at its end.\<close>

definition complete_lineage :: "checkpoint_head \<Rightarrow> checkpoint list \<Rightarrow> bool" where
  "complete_lineage tip cs = (case try_fold verify_next (from_tip tip) cs of Inl _ \<Rightarrow> False | Inr v \<Rightarrow> lineage_complete v)"

lemma complete_lineage_Nil [simp]: "\<not> complete_lineage tip []"
  by (simp add: complete_lineage_def from_tip_def lineage_complete_def)

lemma complete_lineage_Cons [simp]:
  "complete_lineage tip (c # cs) \<longleftrightarrow>
     checkpoint_head_of c = tip \<and> (case cp_parent c of None \<Rightarrow> cs = [] | Some h \<Rightarrow> complete_lineage h cs)"
proof (cases "checkpoint_head_of c = tip")
  case True
  then have "verify_next (from_tip tip) c = Inr \<lparr>lv_expected = cp_parent c\<rparr>"
    by (simp add: verify_next_def from_tip_def)
  moreover have "verify_next \<lparr>lv_expected = None\<rparr> d = Inl AlreadyComplete" for d by (simp add: verify_next_def)
  ultimately show ?thesis using True
    by (cases cs; cases "cp_parent c") (simp_all add: complete_lineage_def from_tip_def lineage_complete_def)
next
  case False
  then have "verify_next (from_tip tip) c = Inl HeadMismatch" by (simp add: verify_next_def from_tip_def)
  with False show ?thesis by (simp add: complete_lineage_def)
qed

text \<open>
  C36. A lineage that the verifier accepts down to the root, over checkpoints that restore, is the whole
  history of its tip: it has one checkpoint for every superstep from the tip's down to zero, all of the
  tip's tenant, run and graph, and going back the journal sequence strictly falls while the journal time
  never rises.
\<close>

theorem lineage_exact:
  assumes "complete_lineage tip cs" and "\<forall>c\<in>set cs. checkpoint_from_wire x c = Inr c"
  shows "map (\<lambda>c. unat (superstep_get (cp_superstep c))) cs = rev [0..<Suc (unat (superstep_get (ch_superstep tip)))]
    \<and> (\<forall>c\<in>set cs. cp_tenant_id c = ch_tenant_id tip \<and> cp_run_id c = ch_run_id tip \<and> cp_graph c = ch_graph tip)
    \<and> sorted_wrt (\<lambda>c d. sequence_get (jh_sequence (cp_journal_head d)) < sequence_get (jh_sequence (cp_journal_head c))
        \<and> jh_recorded_at (cp_journal_head d) \<le> jh_recorded_at (cp_journal_head c)) cs"
  using assms
proof (induction cs arbitrary: tip)
  case (Cons c cs)
  then have ok: "checkpoint_ok x c" and tip: "tip = checkpoint_head_of c" by (simp_all add: restored_iff)
  note t [simp] = tip [unfolded checkpoint_head_of_def]
  show ?case
  proof (cases "cp_parent c")
    case None
    with Cons.prems(1) ok_root [OF ok] show ?thesis by (simp add: superstep_INITIAL_def)
  next
    case (Some h)
    note p = ok_parent [OF ok Some]
    from Some Cons.prems(1) have l: "complete_lineage h cs" by simp
    then obtain d ds where cs: "cs = d # ds" by (cases cs) simp_all
    with l have d: "h = checkpoint_head_of d" by simp
    have "cp_journal_head d = ch_journal_head h" by (simp add: d checkpoint_head_of_def)
    moreover note ih = Cons.IH [OF l] Cons.prems(2)
    ultimately show ?thesis using p by (auto simp: cs)
  qed
qed simp

section \<open>Histories\<close>

text \<open>
  The histories of one run, newest first: an initial intent committed at some journal head, then
  successors of the newest checkpoint.
\<close>

inductive history :: "'z checkpoint_crypto_scheme \<Rightarrow> checkpoint list \<Rightarrow> bool" for x where
  initial: "state_new x schema d = Inr st \<Longrightarrow> ready_try_new ns = Inr ready \<Longrightarrow> journal_wf j \<Longrightarrow>
    write_initial x t r i g st ready = Inr w \<Longrightarrow> checkpoint_commit x w j = Inr c \<Longrightarrow> history x [c]"
| advance: "history x (p # cs) \<Longrightarrow> state_new x schema d = Inr st \<Longrightarrow> ready_try_new ns = Inr ready \<Longrightarrow> journal_wf j \<Longrightarrow>
    write_successor x i p st ready = Inr w \<Longrightarrow> checkpoint_commit x w j = Inr c \<Longrightarrow> history x (c # p # cs)"

inductive_cases history_ConsE: "history x (c # cs)"

lemma commit_ok:
  assumes "write_build x t r i n g st ready parent None = Inr w" and "checkpoint_commit x w j = Inr c"
    and "state_new x schema d = Inr st" and "ready_wf ready" and "journal_wf j" and "superstep_wf n"
    and "case parent of None \<Rightarrow> True | Some h \<Rightarrow> head_wf h"
  shows "checkpoint_ok x c" and "cp_parent c = parent"
proof -
  have w: "w = write_intent c" "j = cp_journal_head c" using commit_fields [OF assms(2)] by simp_all
  have f: "cp_tenant_id c = t" "cp_run_id c = r" "cp_checkpoint_id c = i" "cp_superstep c = n" "cp_graph c = g"
      "cp_state c = st" "cp_ready_nodes c = ready" "cp_parent c = parent"
    using write_build_fields [OF assms(1)] unfolding w by (simp_all add: write_intent_def)
  show "checkpoint_ok x c"
    using assms state_new_fields [OF assms(3)] unfolding checkpoint_ok_def f w by simp
  show "cp_parent c = parent" by (rule f)
qed

lemma history_ok: "history x cs \<Longrightarrow> list_all (checkpoint_ok x) cs \<and> complete_lineage (checkpoint_head_of (hd cs)) cs"
proof (induction cs rule: history.induct)
  case (initial schema d st ns ready j t r i g w c)
  have "superstep_wf superstep_INITIAL" by (simp add: superstep_wf_def superstep_INITIAL_def)
  note ok = commit_ok [OF initial(4) [unfolded write_initial_def] initial(5,1) ready_try_new_wf [OF initial(2)] initial(3) this]
  show ?case using ok by simp
next
  case (advance p cs schema d st ns ready j i w c)
  then have p: "checkpoint_ok x p" by simp
  from advance(5) obtain n where n: "superstep_checked_next (cp_superstep p) = Some n"
      "write_build x (cp_tenant_id p) (cp_run_id p) i n (cp_graph p) st ready (Some (checkpoint_head_of p)) None = Inr w"
    by (auto simp: write_successor_def result_simps)
  have "superstep_wf n" using superstep_next_iff n(1) p by (auto simp: checkpoint_ok_def)
  note ok = commit_ok [OF n(2) advance(6,2) ready_try_new_wf [OF advance(3)] advance(4) this]
  show ?case using ok ok_head [OF p] advance.IH by simp
qed

lemma ok_history:
  "list_all (checkpoint_ok x) (c # cs) \<Longrightarrow> complete_lineage (checkpoint_head_of c) (c # cs) \<Longrightarrow> history x (c # cs)"
proof (induction cs arbitrary: c)
  case Nil
  then have ok: "checkpoint_ok x c" and root: "cp_parent c = None" by (simp_all split: option.splits)
  then have n: "cp_superstep c = superstep_INITIAL" using ok_root by blast
  show ?case
    using ok root n ready_try_new_same [of "cp_ready_nodes c"]
    by (intro history.initial [of x _ _ "cp_state c" _ "cp_ready_nodes c" "cp_journal_head c"])
      (auto simp: checkpoint_ok_def write_initial_def)
next
  case (Cons p cs)
  then have ok: "checkpoint_ok x c" and p: "checkpoint_ok x p" and l: "cp_parent c = Some (checkpoint_head_of p)"
      "complete_lineage (checkpoint_head_of p) (p # cs)"
    by (simp_all split: option.splits)
  have h: "history x (p # cs)" using Cons.IH Cons.prems(1) l(2) by simp
  note q = ok_parent [OF ok l(1)]
  have "superstep_checked_next (cp_superstep p) = Some (cp_superstep c)"
    using superstep_next_iff [of "cp_superstep p"] p ok q(4) by (simp add: checkpoint_ok_def checkpoint_head_of_def)
  then have "write_successor x (cp_checkpoint_id c) p (cp_state c) (cp_ready_nodes c) = Inr (write_intent c)"
    using ok l(1) q(1-3) by (simp add: write_successor_def checkpoint_ok_def checkpoint_head_of_def)
  then show ?case
    using ok ready_try_new_same [of "cp_ready_nodes c"]
    by (intro history.advance [OF h, of _ _ "cp_state c" _ "cp_ready_nodes c" "cp_journal_head c"]) (auto simp: checkpoint_ok_def)
qed

text \<open>
  C6. The lineage verifier is sound and complete: a sequence of checkpoints is accepted from the head of
  its newest element down to the root, with every element restoring from storage to itself, exactly when
  it was produced by committing an initial intent and then one successor after another.
\<close>

theorem lineage_is_history:
  "history x (c # cs) \<longleftrightarrow>
     complete_lineage (checkpoint_head_of c) (c # cs) \<and> list_all (\<lambda>b. checkpoint_from_wire x b = Inr b) (c # cs)"
proof
  assume "history x (c # cs)"
  from history_ok [OF this] show "complete_lineage (checkpoint_head_of c) (c # cs) \<and>
      list_all (\<lambda>b. checkpoint_from_wire x b = Inr b) (c # cs)"
    unfolding restored_iff list.sel by blast
next
  assume "complete_lineage (checkpoint_head_of c) (c # cs) \<and> list_all (\<lambda>b. checkpoint_from_wire x b = Inr b) (c # cs)"
  then show "history x (c # cs)" using ok_history [of x c cs] unfolding restored_iff by blast
qed

section \<open>Tamper evidence\<close>

text \<open>The checksummed preimages of a checkpoint with their domains.\<close>

definition data_digest :: "'z checkpoint_crypto_scheme \<Rightarrow> json \<Rightarrow> digest" where
  "data_digest x d = cr_sha256 x (the (cr_canonicalize x d))"

definition seals :: "'z checkpoint_crypto_scheme \<Rightarrow> checkpoint \<Rightarrow> (string \<times> checkpoint_preimage) list" where
  "seals x c =
     [(STATE_DIGEST_DOMAIN, StateDigestWire (cs_schema (cp_state c)) (data_digest x (cs_data (cp_state c)))),
      (INTENT_DIGEST_DOMAIN, intent_wire c),
      (CHECKPOINT_DIGEST_DOMAIN, CheckpointDigestWire (cp_intent_digest c) (cp_journal_head c))]"

definition seal_digest :: "'z checkpoint_crypto_scheme \<Rightarrow> string \<times> checkpoint_preimage \<Rightarrow> digest" where
  "seal_digest x p = cr_sha256 x (fst p @ the (cr_checkpoint x (snd p)))"

definition collision_free :: "'z checkpoint_crypto_scheme \<Rightarrow> checkpoint list \<Rightarrow> bool" where
  "collision_free x cs \<longleftrightarrow>
     inj_on (seal_digest x) (set (concat (map (seals x) cs))) \<and>
     inj_on (data_digest x) (set (map (\<lambda>c. cs_data (cp_state c)) cs))"

lemma ok_seals:
  assumes "checkpoint_ok x c"
  shows "cp_digest c = seal_digest x (CHECKPOINT_DIGEST_DOMAIN, CheckpointDigestWire (cp_intent_digest c) (cp_journal_head c))"
    and "cp_intent_digest c = seal_digest x (INTENT_DIGEST_DOMAIN, intent_wire c)"
    and "cs_digest (cp_state c) = seal_digest x
      (STATE_DIGEST_DOMAIN, StateDigestWire (cs_schema (cp_state c)) (data_digest x (cs_data (cp_state c))))"
proof -
  from assms have "checkpoint_commit x (write_intent c) (cp_journal_head c) = Inr c" by (simp add: checkpoint_ok_def)
  then obtain bytes where "cr_checkpoint x (CheckpointDigestWire (cp_intent_digest c) (cp_journal_head c)) = Some bytes"
      "cp_digest c = cr_sha256 x (CHECKPOINT_DIGEST_DOMAIN @ bytes)"
    by (cases c) (auto simp: checkpoint_commit_def checkpoint_build_def write_intent_def compute_checkpoint_digest_def result_simps)
  then show "cp_digest c = seal_digest x (CHECKPOINT_DIGEST_DOMAIN, CheckpointDigestWire (cp_intent_digest c) (cp_journal_head c))"
    by (simp add: seal_digest_def)
  from assms show "cp_intent_digest c = seal_digest x (INTENT_DIGEST_DOMAIN, intent_wire c)"
    by (cases c) (auto simp: checkpoint_ok_def write_build_def write_intent_def compute_intent_digest_def intent_wire_def
        seal_digest_def result_simps)
  from assms show "cs_digest (cp_state c) = seal_digest x
      (STATE_DIGEST_DOMAIN, StateDigestWire (cs_schema (cp_state c)) (data_digest x (cs_data (cp_state c))))"
    unfolding checkpoint_ok_def state_new_same
    by (auto simp: compute_state_digest_def canonical_json_new_def seal_digest_def data_digest_def result_simps)
qed

lemma same_head_same_checkpoint:
  assumes ok: "checkpoint_ok x c" "checkpoint_ok x d" and heads: "checkpoint_head_of c = checkpoint_head_of d"
    and free: "collision_free x cs" and mem: "c \<in> set cs" "d \<in> set cs"
  shows "c = d"
proof -
  let ?S = "set (concat (map (seals x) cs))"
  have inj: "a = b" if "seal_digest x a = seal_digest x b" "a \<in> set (seals x c)" "b \<in> set (seals x d)" for a b
  proof -
    have "a \<in> ?S" "b \<in> ?S" using that mem by auto
    with that(1) free show ?thesis unfolding collision_free_def by (blast dest: inj_onD)
  qed
  have "cp_digest c = cp_digest d" using heads by (simp add: checkpoint_head_of_def)
  from inj [OF this [unfolded ok_seals(1) [OF ok(1)] ok_seals(1) [OF ok(2)]]]
  have i: "cp_intent_digest c = cp_intent_digest d" "cp_journal_head c = cp_journal_head d" by (simp_all add: seals_def)
  from inj [OF i(1) [unfolded ok_seals(2) [OF ok(1)] ok_seals(2) [OF ok(2)]]]
  have w: "intent_wire c = intent_wire d" by (simp add: seals_def)
  then have "cs_digest (cp_state c) = cs_digest (cp_state d)" by (simp add: intent_wire_def)
  from inj [OF this [unfolded ok_seals(3) [OF ok(1)] ok_seals(3) [OF ok(2)]]]
  have s: "cs_schema (cp_state c) = cs_schema (cp_state d)"
      "data_digest x (cs_data (cp_state c)) = data_digest x (cs_data (cp_state d))" by (simp_all add: seals_def)
  have "cs_data (cp_state c) = cs_data (cp_state d)"
  proof (rule inj_onD)
    show "data_digest x (cs_data (cp_state c)) = data_digest x (cs_data (cp_state d))" by (rule s(2))
    show "inj_on (data_digest x) (set (map (\<lambda>c. cs_data (cp_state c)) cs))" using free by (simp add: collision_free_def)
  qed (use mem in auto)
  with s(1) w heads i show ?thesis
    by (cases c; cases d) (auto simp: intent_wire_def checkpoint_head_of_def)
qed

text \<open>
  C17. Histories are tamper evident: as long as no two of the checksummed preimages and state documents
  at hand share a digest, the head of a tip determines its complete lineage, state documents included.
\<close>

theorem lineage_tamper_evident:
  assumes "complete_lineage tip cs" and "complete_lineage tip ds"
    and "\<forall>c\<in>set cs \<union> set ds. checkpoint_from_wire x c = Inr c" and "collision_free x (cs @ ds)"
  shows "cs = ds"
proof -
  have "as = bs" if "complete_lineage t as" "complete_lineage t bs" "set as \<subseteq> set cs" "set bs \<subseteq> set ds" for t as bs
    using that
  proof (induction as arbitrary: t bs)
    case (Cons a as)
    then obtain b bs' where b: "bs = b # bs'" by (cases bs) simp_all
    have "a = b"
      using assms(3) Cons.prems by (intro same_head_same_checkpoint [of x a b "cs @ ds"] assms(4)) (auto simp: b restored_iff)
    then show ?case using Cons.IH Cons.prems b by (cases "cp_parent a") auto
  qed simp
  from this [OF assms(1,2)] show ?thesis by simp
qed

lemma sample_restores:
  "list_all (\<lambda>c. checkpoint_from_wire sample_crypto c = Inr c) [sample_tip, sample_root]"
  by code_simp

lemma sample_complete: "complete_lineage (checkpoint_head_of sample_tip) [sample_tip, sample_root]"
  by code_simp

lemma sample_collision_free: "collision_free sample_crypto ([sample_tip, sample_root] @ [sample_tip, sample_root])"
  by code_simp

theorem lineage_exact_witness:
  "complete_lineage (checkpoint_head_of sample_tip) [sample_tip, sample_root] \<and>
   map (\<lambda>c. unat (superstep_get (cp_superstep c))) [sample_tip, sample_root]
     = rev [0..<Suc (unat (superstep_get (ch_superstep (checkpoint_head_of sample_tip))))]"
  using sample_complete lineage_exact [OF sample_complete, of sample_crypto] sample_restores unfolding list_all_iff by blast

theorem lineage_tamper_evident_witness:
  "collision_free sample_crypto ([sample_tip, sample_root] @ [sample_tip, sample_root]) \<and>
   complete_lineage (checkpoint_head_of sample_tip) [sample_tip, sample_root] \<and>
   [sample_tip, sample_root] = [sample_tip, sample_root]"
  using sample_complete sample_collision_free
    lineage_tamper_evident [OF sample_complete sample_complete, of sample_crypto] sample_restores
  unfolding list_all_iff by blast

end
