(* ===== verification/Activation.thy ===== *)
theory Activation
  imports Checkpoint
begin

text \<open>
  Graph namespaces and node activations (\<open>crates/stateknot-core/src/tool_invocation.rs\<close>): the exact
  checkpoint, namespace, node and input checksum that every external call and every node result of a
  superstep is bound to.
\<close>

section \<open>Namespaces\<close>

datatype graph_namespace = GraphNamespace (namespace_str: string)

datatype graph_namespace_error = NamespaceTooLong nat nat | InvalidSegment nat node_id_error

definition NAMESPACE_MAX_LEN :: nat where "NAMESPACE_MAX_LEN = 512"

definition namespace_root :: graph_namespace where "namespace_root = GraphNamespace []"

text \<open>\<open>str::split\<close> on one character.\<close>

fun split_char :: "char \<Rightarrow> string \<Rightarrow> string list" where
  "split_char c [] = [[]]"
| "split_char c (a # s) =
     (if a = c then [] # split_char c s
      else case split_char c s of [] \<Rightarrow> [[a]] | segment # rest \<Rightarrow> (a # segment) # rest)"

definition check_segment :: "nat \<Rightarrow> string \<Rightarrow> (graph_namespace_error, nat) result" where
  "check_segment index segment =
     and_then (map_err (InvalidSegment index) (node_new segment)) (\<lambda>_. Inr (index + 1))"

definition namespace_new :: "string \<Rightarrow> (graph_namespace_error, graph_namespace) result" where
  "namespace_new v =
     and_then (reject_if (length v > NAMESPACE_MAX_LEN) (NamespaceTooLong NAMESPACE_MAX_LEN (length v))) (\<lambda>_.
     if v = [] then Inr namespace_root
     else and_then (try_fold check_segment 0 (split_char (CHR 0x2F) v)) (\<lambda>_. Inr (GraphNamespace v)))"

section \<open>Activations\<close>

record node_activation =
  na_base_checkpoint :: checkpoint_head
  na_graph_namespace :: graph_namespace
  na_node_id :: node_id
  na_input_digest :: digest

definition na_tenant_id :: "node_activation \<Rightarrow> tenant_id" where
  "na_tenant_id a = ch_tenant_id (na_base_checkpoint a)"

definition na_run_id :: "node_activation \<Rightarrow> run_id" where
  "na_run_id a = ch_run_id (na_base_checkpoint a)"

datatype ready_node_input = ReadyNodeInputDigestWire digest graph_namespace node_id

record activation_crypto = checkpoint_crypto +
  cr_ready_input :: "ready_node_input \<Rightarrow> string option"

datatype node_activation_error = NodeNotReady node_id | ActivationCanonicalSerialization

definition READY_NODE_INPUT_DIGEST_DOMAIN :: string where
  "READY_NODE_INPUT_DIGEST_DOMAIN = ''stateknot-ready-node-input-v1'' @ [CHR 0x00]"

definition compute_ready_node_input_digest ::
  "'z activation_crypto_scheme \<Rightarrow> digest \<Rightarrow> graph_namespace \<Rightarrow> node_id \<Rightarrow> (node_activation_error, digest) result" where
  "compute_ready_node_input_digest x base ns node =
     domain_digest x READY_NODE_INPUT_DIGEST_DOMAIN (cr_ready_input x (ReadyNodeInputDigestWire base ns node))
       ActivationCanonicalSerialization"

definition for_ready_root ::
  "'z activation_crypto_scheme \<Rightarrow> checkpoint \<Rightarrow> node_id \<Rightarrow> (node_activation_error, node_activation) result" where
  "for_ready_root x c node =
     and_then (reject_if (node \<notin> set (ready_list (cp_ready_nodes c))) (NodeNotReady node)) (\<lambda>_.
     and_then (compute_ready_node_input_digest x (cp_digest c) namespace_root node) (\<lambda>input_digest.
     Inr \<lparr>na_base_checkpoint = checkpoint_head_of c, na_graph_namespace = namespace_root, na_node_id = node,
          na_input_digest = input_digest\<rparr>))"

lemma for_ready_root_Inr:
  "for_ready_root x c node = Inr a \<Longrightarrow>
     node \<in> set (ready_list (cp_ready_nodes c)) \<and> na_base_checkpoint a = checkpoint_head_of c \<and> na_node_id a = node \<and>
     na_graph_namespace a = namespace_root"
  by (auto simp: for_ready_root_def result_simps)

section \<open>The namespace grammar\<close>

lemma split_char_not_Nil [simp]: "split_char c s \<noteq> []"
  by (induction s) (auto split: list.splits)

lemma try_fold_check_segment:
  "is_ok (try_fold check_segment k ss) \<longleftrightarrow> (\<forall>s\<in>set ss. is_ok (node_new s))"
proof (induction ss arbitrary: k)
  case (Cons s ss)
  then show ?case by (cases "node_new s") (simp_all add: check_segment_def)
qed simp

text \<open>The segments joined again give the text back.\<close>

fun join_slash :: "string list \<Rightarrow> string" where
  "join_slash [] = []"
| "join_slash [s] = s"
| "join_slash (s # t # ss) = s @ CHR 0x2F # join_slash (t # ss)"

lemma join_split: "join_slash (split_char (CHR 0x2F) s) = s"
proof (induction s)
  case (Cons a s)
  obtain h t where ht: "split_char (CHR 0x2F) s = h # t" using split_char_not_Nil list.exhaust by blast
  then show ?case using Cons by (cases t) auto
qed simp

lemma split_join:
  "ss \<noteq> [] \<Longrightarrow> \<forall>s\<in>set ss. CHR 0x2F \<notin> set s \<Longrightarrow> split_char (CHR 0x2F) (join_slash ss) = ss"
proof (induction ss rule: join_slash.induct)
  case (2 s)
  then have "CHR 0x2F \<notin> set s" by simp
  then show ?case by (induction s) auto
next
  case (3 s t ss)
  have "split_char (CHR 0x2F) (p @ CHR 0x2F # u) = p # split_char (CHR 0x2F) u" if "CHR 0x2F \<notin> set p" for p u
    using that by (induction p) auto
  with 3 show ?case by simp
qed simp

lemma slash_not_node_byte: "\<not> node_byte (CHR 0x2F)"
  by (simp add: node_byte_def is_ascii_alphanumeric_def is_ascii_lowercase_def is_ascii_uppercase_char_def
      is_ascii_digit_char_def byte_of_def)

lemma node_new_no_slash: "is_ok (node_new s) \<Longrightarrow> CHR 0x2F \<notin> set s"
  using slash_not_node_byte
  by (auto simp: node_new_def validate_node_id_def ok_simps list_all_iff result_simps)

text \<open>
  A namespace is the root or a path of node identities of at most 512 bytes in all, and a path has only
  one text.
\<close>

lemma namespace_new_iff:
  "namespace_new v = Inr n \<longleftrightarrow> n = GraphNamespace v \<and> length v \<le> NAMESPACE_MAX_LEN \<and>
     (v = [] \<or> (\<exists>!ss. ss \<noteq> [] \<and> v = join_slash ss \<and> (\<forall>s\<in>set ss. is_ok (node_new s))))"
proof -
  have "(\<exists>!ss. ss \<noteq> [] \<and> v = join_slash ss \<and> (\<forall>s\<in>set ss. is_ok (node_new s))) \<longleftrightarrow>
      (\<forall>s\<in>set (split_char (CHR 0x2F) v). is_ok (node_new s))"
  proof
    assume "\<exists>!ss. ss \<noteq> [] \<and> v = join_slash ss \<and> (\<forall>s\<in>set ss. is_ok (node_new s))"
    then show "\<forall>s\<in>set (split_char (CHR 0x2F) v). is_ok (node_new s)"
      using split_join node_new_no_slash by metis
  next
    assume "\<forall>s\<in>set (split_char (CHR 0x2F) v). is_ok (node_new s)"
    then show "\<exists>!ss. ss \<noteq> [] \<and> v = join_slash ss \<and> (\<forall>s\<in>set ss. is_ok (node_new s))"
      using join_split split_join node_new_no_slash by (intro ex1I [of _ "split_char (CHR 0x2F) v"]) auto
  qed
  then show ?thesis
    using try_fold_check_segment [of 0 "split_char (CHR 0x2F) v"]
    by (auto simp: namespace_new_def namespace_root_def result_simps)
qed

end
