(* ===== verification/ToolValues.thy ===== *)
theory ToolValues
  imports Activation Accounting Failure
begin

text \<open>
  The values of a tool call: \<open>crates/stateknot-core/src/tool.rs\<close> (execution semantics, limits, descriptors),
  \<open>tool_runtime.rs\<close> (inputs, results, errors) and the data of \<open>tool_invocation.rs\<close> (intents, states,
  transitions, records and heads). A tool descriptor is reduced to the fields an invocation reads, a
  bounded document to its value and its compact size, an artifact to its identity, size and provenance.
\<close>

section \<open>Tools\<close>

datatype tool_risk = ReadOnly | IdempotentWrite | NonIdempotentWrite

datatype tool_idempotency = IdempotencyNotApplicable | Intrinsic | RequiredKey | IdempotencyUnsupported

record tool_execution_semantics =
  ts_risk :: tool_risk
  ts_idempotency :: tool_idempotency
  ts_status_query :: bool
  ts_compensation :: bool

datatype tool_execution_semantics_error =
  InvalidIdempotency tool_risk tool_idempotency
| ReadOnlyRecoverySupport bool bool

definition semantics_new ::
  "tool_risk \<Rightarrow> tool_idempotency \<Rightarrow> bool \<Rightarrow> bool \<Rightarrow> (tool_execution_semantics_error, tool_execution_semantics) result" where
  "semantics_new risk idempotency status_query compensation =
     and_then (reject_if ((risk, idempotency) \<notin>
         {(ReadOnly, IdempotencyNotApplicable), (IdempotentWrite, Intrinsic), (IdempotentWrite, RequiredKey),
          (NonIdempotentWrite, IdempotencyUnsupported)}) (InvalidIdempotency risk idempotency)) (\<lambda>_.
     and_then (reject_if (risk = ReadOnly \<and> (status_query \<or> compensation))
       (ReadOnlyRecoverySupport status_query compensation)) (\<lambda>_.
     Inr \<lparr>ts_risk = risk, ts_idempotency = idempotency, ts_status_query = status_query, ts_compensation = compensation\<rparr>))"

record tool_execution_limits =
  tl_timeout :: duration_millis
  tl_max_concurrency :: execution_count
  tl_max_input_bytes :: byte_count
  tl_max_inline_result_bytes :: byte_count
  tl_max_artifacts :: execution_count
  tl_max_total_artifact_bytes :: byte_count

datatype tool_execution_limits_error =
  ZeroTimeout
| ZeroConcurrency
| ZeroInputBytes
| ZeroInlineResultBytes
| ArtifactCapacityMismatch execution_count byte_count

definition limits_new ::
  "duration_millis \<Rightarrow> execution_count \<Rightarrow> byte_count \<Rightarrow> byte_count \<Rightarrow> execution_count \<Rightarrow> byte_count \<Rightarrow>
     (tool_execution_limits_error, tool_execution_limits) result" where
  "limits_new timeout concurrency input inline artifacts total_bytes =
     and_then (reject_first
       [(as_i64 timeout = 0, ZeroTimeout),
        (execution_get concurrency = 0, ZeroConcurrency),
        (byte_get input = 0, ZeroInputBytes),
        (byte_get inline = 0, ZeroInlineResultBytes),
        ((execution_get artifacts = 0) \<noteq> (byte_get total_bytes = 0), ArtifactCapacityMismatch artifacts total_bytes)]) (\<lambda>_.
     Inr \<lparr>tl_timeout = timeout, tl_max_concurrency = concurrency, tl_max_input_bytes = input,
          tl_max_inline_result_bytes = inline, tl_max_artifacts = artifacts, tl_max_total_artifact_bytes = total_bytes\<rparr>)"

record tool_descriptor =
  td_identity :: capability_identity
  td_input_schema :: schema_reference
  td_output_schema :: schema_reference
  td_semantics :: tool_execution_semantics
  td_limits :: tool_execution_limits

section \<open>Inputs, results and errors\<close>

record bounded_json =
  bj_value :: json
  bj_compact_bytes :: nat

definition byte_count_from_usize :: "nat \<Rightarrow> byte_count" where
  "byte_count_from_usize n = ByteCount (if n < 2 ^ 64 then word_of_nat n else - 1)"

definition execution_count_from_usize :: "nat \<Rightarrow> execution_count" where
  "execution_count_from_usize n = ExecutionCount (if n < 2 ^ 64 then word_of_nat n else - 1)"

record tool_input =
  in_schema :: schema_reference
  in_value :: bounded_json

datatype tool_input_error = ObjectRootRequired

fun is_object :: "json \<Rightarrow> bool" where
  "is_object (JObject _) \<longleftrightarrow> True"
| "is_object _ \<longleftrightarrow> False"

definition input_new :: "schema_reference \<Rightarrow> bounded_json \<Rightarrow> (tool_input_error, tool_input) result" where
  "input_new schema v =
     and_then (reject_if (\<not> is_object (bj_value v)) ObjectRootRequired) (\<lambda>_. Inr \<lparr>in_schema = schema, in_value = v\<rparr>)"

record artifact_ref =
  ar_tenant_id :: tenant_id
  ar_artifact_id :: uuid
  ar_byte_length :: byte_count
  ar_digest :: digest
  ar_principal :: principal_identity
  ar_capability :: "capability_reference option"
  ar_run_id :: run_id

record tool_artifacts =
  ta_values :: "artifact_ref list"
  ta_total_bytes :: byte_count

datatype tool_artifacts_error = ArtifactsTooMany nat nat | ArtifactsDuplicateIdentity | TotalBytesOverflow

definition ARTIFACTS_MAX_LEN :: nat where "ARTIFACTS_MAX_LEN = 64"

definition collect_artifact :: "tool_artifacts \<Rightarrow> artifact_ref \<Rightarrow> (tool_artifacts_error, tool_artifacts) result" where
  "collect_artifact acc a =
     and_then (reject_if (length (ta_values acc) = ARTIFACTS_MAX_LEN)
       (ArtifactsTooMany ARTIFACTS_MAX_LEN (ARTIFACTS_MAX_LEN + 1))) (\<lambda>_.
     and_then (reject_if (list_ex (\<lambda>b. ar_tenant_id b = ar_tenant_id a \<and> ar_artifact_id b = ar_artifact_id a) (ta_values acc))
       ArtifactsDuplicateIdentity) (\<lambda>_.
     and_then (ok_or (byte_checked_add (ta_total_bytes acc) (ar_byte_length a)) TotalBytesOverflow) (\<lambda>bytes.
     Inr \<lparr>ta_values = ta_values acc @ [a], ta_total_bytes = bytes\<rparr>)))"

definition artifacts_try_new :: "artifact_ref list \<Rightarrow> (tool_artifacts_error, tool_artifacts) result" where
  "artifacts_try_new values = try_fold collect_artifact \<lparr>ta_values = [], ta_total_bytes = byte_ZERO\<rparr> values"

record tool_result_provenance =
  rp_invocation_id :: invocation_id
  rp_attempt_id :: attempt_id
  rp_tool :: capability_identity

record tool_result =
  tr_provenance :: tool_result_provenance
  tr_output_schema :: schema_reference
  tr_output :: bounded_json
  tr_artifacts :: tool_artifacts

datatype tool_error_phase = PhasePreparation | PhaseExecution | PhaseResult

datatype tool_external_effect = EffectNotApplicable | NotStarted | NotApplied | Applied | EffectUnknown

record tool_error_provenance =
  ep_invocation_id :: invocation_id
  ep_attempt_id :: attempt_id
  ep_tool :: capability_identity

record tool_recovery_handle =
  rh_namespace :: string
  rh_binding :: digest
  rh_opaque_id :: string

record tool_error =
  te_failure :: "json failure"
  te_phase :: tool_error_phase
  te_external_effect :: tool_external_effect
  te_provenance :: tool_error_provenance
  te_recovery_handle :: "tool_recovery_handle option"

datatype tool_error_build_error =
  UnknownEffectRequiresAmbiguousFailure
| AmbiguousFailureRequiresUnknownEffect
| PhaseEffectMismatch tool_error_phase tool_external_effect
| RecoveryHandleRequiresUnknownEffect

definition validate_tool_error_shape ::
  "json failure \<Rightarrow> tool_error_phase \<Rightarrow> tool_external_effect \<Rightarrow> (tool_error_build_error, unit) result" where
  "validate_tool_error_shape f phase effect =
     (let ambiguous = fl_category f = AmbiguousExternalOutcome;
          phase_effect_valid =
            (case phase of
               PhasePreparation \<Rightarrow> effect \<in> {EffectNotApplicable, NotStarted}
             | PhaseExecution \<Rightarrow> True
             | PhaseResult \<Rightarrow> effect \<in> {EffectNotApplicable, Applied, EffectUnknown})
      in reject_first
           [(effect = EffectUnknown \<and> \<not> ambiguous, UnknownEffectRequiresAmbiguousFailure),
            (ambiguous \<and> effect \<noteq> EffectUnknown, AmbiguousFailureRequiresUnknownEffect),
            (\<not> phase_effect_valid, PhaseEffectMismatch phase effect)])"

definition tool_error_new ::
  "json failure \<Rightarrow> tool_error_phase \<Rightarrow> tool_external_effect \<Rightarrow> tool_error_provenance \<Rightarrow>
     (tool_error_build_error, tool_error) result" where
  "tool_error_new f phase effect provenance =
     and_then (validate_tool_error_shape f phase effect) (\<lambda>_.
     Inr \<lparr>te_failure = f, te_phase = phase, te_external_effect = effect, te_provenance = provenance,
          te_recovery_handle = None\<rparr>)"

definition with_recovery_handle ::
  "tool_recovery_handle \<Rightarrow> tool_error \<Rightarrow> (tool_error_build_error, tool_error) result" where
  "with_recovery_handle h e =
     and_then (reject_if (te_external_effect e \<noteq> EffectUnknown) RecoveryHandleRequiresUnknownEffect) (\<lambda>_.
     Inr (e\<lparr>te_recovery_handle := Some h\<rparr>))"

section \<open>Intents\<close>

record tool_invocation_intent =
  ti_activation :: node_activation
  ti_invocation_id :: invocation_id
  ti_descriptor :: tool_descriptor
  ti_input :: tool_input
  ti_effective_limits :: tool_execution_limits
  ti_intent_digest :: digest

datatype tool_invocation_limit =
  LimitTimeout | LimitMaxConcurrency | LimitMaxInputBytes | LimitMaxInlineResultBytes | LimitMaxArtifacts
| LimitMaxTotalArtifactBytes

datatype tool_invocation_integrity_error = ToolCanonicalSerialization

datatype tool_invocation_intent_error =
  InputSchemaMismatch
| EffectiveLimitWidened tool_invocation_limit
| InputLimitExceeded byte_count byte_count
| IntentIntegrity tool_invocation_integrity_error
| ToolIntentDigestMismatch

definition validate_intent_shape ::
  "tool_descriptor \<Rightarrow> tool_input \<Rightarrow> tool_execution_limits \<Rightarrow> (tool_invocation_intent_error, unit) result" where
  "validate_intent_shape descriptor input effective =
     (let ceiling = td_limits descriptor;
          actual = byte_count_from_usize (bj_compact_bytes (in_value input));
          maximum = tl_max_input_bytes effective
      in reject_first
           [(in_schema input \<noteq> td_input_schema descriptor, InputSchemaMismatch),
            (tl_timeout effective > tl_timeout ceiling, EffectiveLimitWidened LimitTimeout),
            (tl_max_concurrency effective > tl_max_concurrency ceiling, EffectiveLimitWidened LimitMaxConcurrency),
            (tl_max_input_bytes effective > tl_max_input_bytes ceiling, EffectiveLimitWidened LimitMaxInputBytes),
            (tl_max_inline_result_bytes effective > tl_max_inline_result_bytes ceiling,
               EffectiveLimitWidened LimitMaxInlineResultBytes),
            (tl_max_artifacts effective > tl_max_artifacts ceiling, EffectiveLimitWidened LimitMaxArtifacts),
            (tl_max_total_artifact_bytes effective > tl_max_total_artifact_bytes ceiling,
               EffectiveLimitWidened LimitMaxTotalArtifactBytes),
            (actual > maximum, InputLimitExceeded maximum actual)])"

section \<open>Records\<close>

datatype tool_invocation_revision = ToolInvocationRevision (tool_revision_get: u64)

datatype tool_invocation_revision_error = ToolRevisionAboveMaximum

definition tool_revision_INITIAL :: tool_invocation_revision where "tool_revision_INITIAL = ToolInvocationRevision 0"

definition tool_revision_new :: "u64 \<Rightarrow> (tool_invocation_revision_error, tool_invocation_revision) result" where
  "tool_revision_new v =
     and_then (reject_if (v > MAX_DATABASE_ORDINAL) ToolRevisionAboveMaximum) (\<lambda>_. Inr (ToolInvocationRevision v))"

definition tool_revision_checked_next :: "tool_invocation_revision \<Rightarrow> tool_invocation_revision option" where
  "tool_revision_checked_next r =
     (if tool_revision_get r = MAX_DATABASE_ORDINAL then None else Some (ToolInvocationRevision (tool_revision_get r + 1)))"

datatype tool_invocation_status = StatusPrepared | StatusExecuting | StatusCommitted | StatusFailed | StatusUnknown

datatype tool_invocation_state =
  StatePrepared
| StateExecuting attempt_id
| StateCommitted tool_result
| StateFailed tool_error
| StateUnknown tool_error

fun tool_state_status :: "tool_invocation_state \<Rightarrow> tool_invocation_status" where
  "tool_state_status StatePrepared = StatusPrepared"
| "tool_state_status (StateExecuting _) = StatusExecuting"
| "tool_state_status (StateCommitted _) = StatusCommitted"
| "tool_state_status (StateFailed _) = StatusFailed"
| "tool_state_status (StateUnknown _) = StatusUnknown"

fun state_attempt_id :: "tool_invocation_state \<Rightarrow> attempt_id option" where
  "state_attempt_id StatePrepared = None"
| "state_attempt_id (StateExecuting a) = Some a"
| "state_attempt_id (StateCommitted r) = Some (rp_attempt_id (tr_provenance r))"
| "state_attempt_id (StateFailed e) = Some (ep_attempt_id (te_provenance e))"
| "state_attempt_id (StateUnknown e) = Some (ep_attempt_id (te_provenance e))"

datatype tool_invocation_transition_kind =
  KindStartAttempt | KindRecordResult | KindRecordError | KindReconcileResult | KindReconcileError

datatype tool_invocation_transition =
  StartAttempt attempt_id
| RecordResult tool_result
| RecordError tool_error
| ReconcileResult tool_result
| ReconcileError tool_error

fun tool_transition_kind :: "tool_invocation_transition \<Rightarrow> tool_invocation_transition_kind" where
  "tool_transition_kind (StartAttempt _) = KindStartAttempt"
| "tool_transition_kind (RecordResult _) = KindRecordResult"
| "tool_transition_kind (RecordError _) = KindRecordError"
| "tool_transition_kind (ReconcileResult _) = KindReconcileResult"
| "tool_transition_kind (ReconcileError _) = KindReconcileError"

record tool_invocation_head =
  th_tenant_id :: tenant_id
  th_run_id :: run_id
  th_invocation_id :: invocation_id
  th_revision :: tool_invocation_revision
  th_status :: tool_invocation_status
  th_attempt_id :: "attempt_id option"
  th_journal_head :: journal_head
  th_digest :: digest

record tool_invocation =
  tv_intent :: tool_invocation_intent
  tv_revision :: tool_invocation_revision
  tv_state :: tool_invocation_state
  tv_previous :: "tool_invocation_head option"
  tv_journal_head :: journal_head
  tv_transition :: "tool_invocation_transition option"
  tv_transition_digest :: "digest option"
  tv_digest :: digest

datatype tool_preimage =
  ToolInvocationIntentDigestWire node_activation invocation_id tool_descriptor tool_input tool_execution_limits
| ToolTransitionWire tool_invocation_transition
| ToolInvocationRecordDigestWire digest tool_invocation_revision tool_invocation_state "tool_invocation_head option"
    journal_head "digest option"
| ToolErrorWire tool_error
| ToolRecordWire tool_invocation

record tool_crypto = activation_crypto +
  cr_tool :: "tool_preimage \<Rightarrow> string option"

definition TOOL_INTENT_DIGEST_DOMAIN :: string where
  "TOOL_INTENT_DIGEST_DOMAIN = ''stateknot-tool-invocation-intent-v1'' @ [CHR 0x00]"

definition TOOL_TRANSITION_DIGEST_DOMAIN :: string where
  "TOOL_TRANSITION_DIGEST_DOMAIN = ''stateknot-tool-invocation-transition-v1'' @ [CHR 0x00]"

definition TOOL_RECORD_DIGEST_DOMAIN :: string where
  "TOOL_RECORD_DIGEST_DOMAIN = ''stateknot-tool-invocation-record-v1'' @ [CHR 0x00]"

definition tool_digest ::
  "'z tool_crypto_scheme \<Rightarrow> string \<Rightarrow> tool_preimage \<Rightarrow> (tool_invocation_integrity_error, digest) result" where
  "tool_digest x domain w = domain_digest x domain (cr_tool x w) ToolCanonicalSerialization"

definition canonical_equal ::
  "'z tool_crypto_scheme \<Rightarrow> tool_preimage \<Rightarrow> tool_preimage \<Rightarrow> (tool_invocation_integrity_error, bool) result" where
  "canonical_equal x a b =
     and_then (ok_or (cr_tool x a) ToolCanonicalSerialization) (\<lambda>left.
     and_then (ok_or (cr_tool x b) ToolCanonicalSerialization) (\<lambda>right. Inr (left = right)))"

definition tool_intent_new ::
  "'z tool_crypto_scheme \<Rightarrow> node_activation \<Rightarrow> invocation_id \<Rightarrow> tool_descriptor \<Rightarrow> tool_input \<Rightarrow> tool_execution_limits \<Rightarrow>
     (tool_invocation_intent_error, tool_invocation_intent) result" where
  "tool_intent_new x activation i descriptor input effective =
     and_then (validate_intent_shape descriptor input effective) (\<lambda>_.
     and_then (map_err IntentIntegrity (tool_digest x TOOL_INTENT_DIGEST_DOMAIN
       (ToolInvocationIntentDigestWire activation i descriptor input effective))) (\<lambda>digest.
     Inr \<lparr>ti_activation = activation, ti_invocation_id = i, ti_descriptor = descriptor, ti_input = input,
          ti_effective_limits = effective, ti_intent_digest = digest\<rparr>))"

definition tool_intent_restore ::
  "'z tool_crypto_scheme \<Rightarrow> node_activation \<Rightarrow> invocation_id \<Rightarrow> tool_descriptor \<Rightarrow> tool_input \<Rightarrow> tool_execution_limits \<Rightarrow>
     digest \<Rightarrow> (tool_invocation_intent_error, tool_invocation_intent) result" where
  "tool_intent_restore x activation i descriptor input effective digest =
     and_then (tool_intent_new x activation i descriptor input effective) (\<lambda>restored.
     and_then (reject_if (ti_intent_digest restored \<noteq> digest) ToolIntentDigestMismatch) (\<lambda>_. Inr restored))"

definition ti_tenant_id :: "tool_invocation_intent \<Rightarrow> tenant_id" where
  "ti_tenant_id i = na_tenant_id (ti_activation i)"

definition ti_run_id :: "tool_invocation_intent \<Rightarrow> run_id" where
  "ti_run_id i = na_run_id (ti_activation i)"

section \<open>Heads\<close>

datatype tool_invocation_head_error =
  ToolHeadJournalTenantMismatch
| ToolHeadJournalRunMismatch
| PreparedHasAttempt
| AttemptMissing
| InitialStatusMismatch
| PreparedRevisionMismatch

fun tool_head_error_from_scope :: "journal_scope_error \<Rightarrow> tool_invocation_head_error" where
  "tool_head_error_from_scope ScopeTenant = ToolHeadJournalTenantMismatch"
| "tool_head_error_from_scope ScopeRun = ToolHeadJournalRunMismatch"

definition validate_status_attempt ::
  "tool_invocation_status \<Rightarrow> attempt_id option \<Rightarrow> (tool_invocation_head_error, unit) result" where
  "validate_status_attempt status attempt =
     (if status = StatusPrepared then reject_if (attempt \<noteq> None) PreparedHasAttempt
      else reject_if (attempt = None) AttemptMissing)"

definition validate_revision_status ::
  "tool_invocation_revision \<Rightarrow> tool_invocation_status \<Rightarrow> (tool_invocation_head_error, unit) result" where
  "validate_revision_status revision status =
     (if revision = tool_revision_INITIAL then reject_if (status \<noteq> StatusPrepared) InitialStatusMismatch
      else reject_if (status = StatusPrepared) PreparedRevisionMismatch)"

definition tool_head_new ::
  "tenant_id \<Rightarrow> run_id \<Rightarrow> invocation_id \<Rightarrow> tool_invocation_revision \<Rightarrow> tool_invocation_status \<Rightarrow> attempt_id option \<Rightarrow>
     journal_head \<Rightarrow> digest \<Rightarrow> (tool_invocation_head_error, tool_invocation_head) result" where
  "tool_head_new t r i revision status attempt j d =
     and_then (map_err tool_head_error_from_scope (validate_journal_scope t r j)) (\<lambda>_.
     and_then (validate_status_attempt status attempt) (\<lambda>_.
     and_then (validate_revision_status revision status) (\<lambda>_.
     Inr \<lparr>th_tenant_id = t, th_run_id = r, th_invocation_id = i, th_revision = revision, th_status = status,
          th_attempt_id = attempt, th_journal_head = j, th_digest = d\<rparr>)))"

definition tool_head_of :: "tool_invocation \<Rightarrow> tool_invocation_head" where
  "tool_head_of v =
     \<lparr>th_tenant_id = ti_tenant_id (tv_intent v), th_run_id = ti_run_id (tv_intent v),
      th_invocation_id = ti_invocation_id (tv_intent v), th_revision = tv_revision v, th_status = tool_state_status (tv_state v),
      th_attempt_id = state_attempt_id (tv_state v), th_journal_head = tv_journal_head v, th_digest = tv_digest v\<rparr>"

end
