(* ===== verification/ToolInvocation.thy ===== *)
theory ToolInvocation
  imports ToolValues Transitions
begin

text \<open>
  \<open>crates/stateknot-core/src/tool_invocation.rs\<close>: the durable record of one logical tool call. Every revision
  is checksummed, bound to its predecessor and to a later journal head, and an external effect may be
  tried again only on the evidence of the last attempt.
\<close>

section \<open>Checks of results and errors\<close>

datatype tool_artifact_binding = BindingTenant | BindingRun | BindingPrincipal | BindingCapability

datatype tool_invocation_error =
  ToolIntegrity tool_invocation_integrity_error
| ToolJournalTenantMismatch
| ToolJournalRunMismatch
| ToolJournalDidNotAdvance journal_sequence journal_sequence
| ToolClockRegression timestamp timestamp
| ToolRevisionOverflow
| InvalidInitialShape
| InvalidSuccessorShape
| PreviousTenantMismatch
| PreviousRunMismatch
| PreviousInvocationMismatch
| PreviousRevisionMismatch tool_invocation_revision tool_invocation_revision
| TransitionDigestMismatch
| ToolInvalidTransition tool_invocation_status tool_invocation_transition_kind
| TransitionStateMismatch
| ReusedAttemptId
| RetryNotAuthorized
| RetryDelayOutOfRange
| RetryDelayNotElapsed timestamp timestamp
| RetryUnsafe
| ResultInvocationMismatch
| ResultAttemptMismatch
| ResultToolMismatch
| ResultSchemaMismatch
| ResultInlineLimitExceeded byte_count byte_count
| ResultArtifactCountExceeded execution_count execution_count
| ResultArtifactBytesExceeded byte_count byte_count
| ResultArtifactBinding nat tool_artifact_binding
| ErrorInvocationMismatch
| ErrorAttemptMismatch
| ErrorToolMismatch
| ErrorEffectRiskMismatch tool_risk tool_external_effect
| UnsafeRetryAfterAppliedNonIdempotentWrite
| FailedStateHasUnknownEffect
| UnknownStateRequiresUnknownEffect
| ToolDigestMismatch

fun map_scope_error :: "journal_scope_error \<Rightarrow> tool_invocation_error" where
  "map_scope_error ScopeTenant = ToolJournalTenantMismatch"
| "map_scope_error ScopeRun = ToolJournalRunMismatch"

definition validate_journal_advances :: "journal_head \<Rightarrow> journal_head \<Rightarrow> (tool_invocation_error, unit) result" where
  "validate_journal_advances previous actual =
     reject_first
       [(sequence_get (jh_sequence actual) \<le> sequence_get (jh_sequence previous),
           ToolJournalDidNotAdvance (jh_sequence previous) (jh_sequence actual)),
        (jh_recorded_at actual < jh_recorded_at previous,
           ToolClockRegression (jh_recorded_at previous) (jh_recorded_at actual))]"

definition validate_preparation_journal ::
  "tool_invocation_intent \<Rightarrow> journal_head \<Rightarrow> (tool_invocation_error, unit) result" where
  "validate_preparation_journal i j =
     and_then (map_err map_scope_error (validate_journal_scope (ti_tenant_id i) (ti_run_id i) j)) (\<lambda>_.
     validate_journal_advances (ch_journal_head (na_base_checkpoint (ti_activation i))) j)"

definition validate_successor_journal :: "tool_invocation \<Rightarrow> journal_head \<Rightarrow> (tool_invocation_error, unit) result" where
  "validate_successor_journal v j =
     and_then (map_err map_scope_error (validate_journal_scope (ti_tenant_id (tv_intent v)) (ti_run_id (tv_intent v)) j)) (\<lambda>_.
     validate_journal_advances (tv_journal_head v) j)"

definition check_artifact ::
  "tool_invocation_intent \<Rightarrow> nat \<Rightarrow> artifact_ref \<Rightarrow> (tool_invocation_error, nat) result" where
  "check_artifact i index a =
     and_then (reject_first
       [(ar_tenant_id a \<noteq> ti_tenant_id i, ResultArtifactBinding index BindingTenant),
        (ar_run_id a \<noteq> ti_run_id i, ResultArtifactBinding index BindingRun),
        (ar_principal a \<noteq> cap_owner (td_identity (ti_descriptor i)), ResultArtifactBinding index BindingPrincipal),
        (ar_capability a \<noteq> Some (capability (td_identity (ti_descriptor i))), ResultArtifactBinding index BindingCapability)]) (\<lambda>_.
     Inr (index + 1))"

definition validate_result_binding ::
  "tool_invocation_intent \<Rightarrow> attempt_id \<Rightarrow> tool_result \<Rightarrow> (tool_invocation_error, unit) result" where
  "validate_result_binding i expected r =
     (let provenance = tr_provenance r;
          inline = byte_count_from_usize (bj_compact_bytes (tr_output r));
          count = execution_count_from_usize (length (ta_values (tr_artifacts r)));
          bytes = ta_total_bytes (tr_artifacts r);
          limits = ti_effective_limits i
      in and_then (reject_first
           [(rp_invocation_id provenance \<noteq> ti_invocation_id i, ResultInvocationMismatch),
            (rp_attempt_id provenance \<noteq> expected, ResultAttemptMismatch),
            (rp_tool provenance \<noteq> td_identity (ti_descriptor i), ResultToolMismatch),
            (tr_output_schema r \<noteq> td_output_schema (ti_descriptor i), ResultSchemaMismatch),
            (inline > tl_max_inline_result_bytes limits,
               ResultInlineLimitExceeded (tl_max_inline_result_bytes limits) inline),
            (count > tl_max_artifacts limits, ResultArtifactCountExceeded (tl_max_artifacts limits) count),
            (bytes > tl_max_total_artifact_bytes limits,
               ResultArtifactBytesExceeded (tl_max_total_artifact_bytes limits) bytes)]) (\<lambda>_.
         and_then (try_fold (check_artifact i) 0 (ta_values (tr_artifacts r))) (\<lambda>_. Inr ())))"

definition effect_matches_risk :: "tool_risk \<Rightarrow> tool_external_effect \<Rightarrow> bool" where
  "effect_matches_risk risk effect =
     (case risk of
        ReadOnly \<Rightarrow> effect = EffectNotApplicable
      | _ \<Rightarrow> effect \<in> {NotStarted, NotApplied, Applied, EffectUnknown})"

definition validate_error_binding ::
  "tool_invocation_intent \<Rightarrow> attempt_id \<Rightarrow> tool_error \<Rightarrow> (tool_invocation_error, unit) result" where
  "validate_error_binding i expected e =
     (let provenance = te_provenance e; risk = ts_risk (td_semantics (ti_descriptor i)); effect = te_external_effect e
      in reject_first
           [(ep_invocation_id provenance \<noteq> ti_invocation_id i, ErrorInvocationMismatch),
            (ep_attempt_id provenance \<noteq> expected, ErrorAttemptMismatch),
            (ep_tool provenance \<noteq> td_identity (ti_descriptor i), ErrorToolMismatch),
            (\<not> effect_matches_risk risk effect, ErrorEffectRiskMismatch risk effect),
            (risk = NonIdempotentWrite \<and> effect = Applied \<and> safe_after_delay (fl_retry_advice (te_failure e)) \<noteq> None,
               UnsafeRetryAfterAppliedNonIdempotentWrite)])"

definition validate_state_binding ::
  "tool_invocation_intent \<Rightarrow> tool_invocation_state \<Rightarrow> (tool_invocation_error, unit) result" where
  "validate_state_binding i s =
     (case s of
        StatePrepared \<Rightarrow> Inr ()
      | StateExecuting _ \<Rightarrow> Inr ()
      | StateCommitted r \<Rightarrow> validate_result_binding i (rp_attempt_id (tr_provenance r)) r
      | StateFailed e \<Rightarrow>
          and_then (validate_error_binding i (ep_attempt_id (te_provenance e)) e) (\<lambda>_.
          reject_if (te_external_effect e = EffectUnknown) FailedStateHasUnknownEffect)
      | StateUnknown e \<Rightarrow>
          and_then (validate_error_binding i (ep_attempt_id (te_provenance e)) e) (\<lambda>_.
          reject_if (te_external_effect e \<noteq> EffectUnknown) UnknownStateRequiresUnknownEffect))"

section \<open>Transitions\<close>

fun state_from_error :: "tool_error \<Rightarrow> tool_invocation_state" where
  "state_from_error e = (if te_external_effect e = EffectUnknown then StateUnknown e else StateFailed e)"

definition retry_safe :: "tool_risk \<Rightarrow> tool_external_effect \<Rightarrow> bool" where
  "retry_safe risk effect \<longleftrightarrow>
     (risk, effect) \<in> {(ReadOnly, EffectNotApplicable), (IdempotentWrite, NotStarted), (IdempotentWrite, NotApplied),
       (IdempotentWrite, Applied), (NonIdempotentWrite, NotStarted), (NonIdempotentWrite, NotApplied)}"

definition validate_retry ::
  "tool_invocation \<Rightarrow> tool_error \<Rightarrow> timestamp \<Rightarrow> (tool_invocation_error, unit) result" where
  "validate_retry v e recorded_at =
     and_then (ok_or (safe_after_delay (fl_retry_advice (te_failure e))) RetryNotAuthorized) (\<lambda>delay.
     and_then (reject_if (\<not> retry_safe (ts_risk (td_semantics (ti_descriptor (tv_intent v)))) (te_external_effect e))
       RetryUnsafe) (\<lambda>_.
     let micros = unix_micros (jh_recorded_at (tv_journal_head v)) + as_i64 delay * 1000
     in and_then (reject_if (micros > unix_micros timestamp_MAX) RetryDelayOutOfRange) (\<lambda>_.
        and_then (i64_try_from micros RetryDelayOutOfRange) (\<lambda>value.
        and_then (map_err (\<lambda>_. RetryDelayOutOfRange) (from_unix_micros value)) (\<lambda>not_before.
        reject_if (recorded_at < not_before) (RetryDelayNotElapsed not_before recorded_at))))))"

definition apply_tool_transition ::
  "tool_invocation \<Rightarrow> tool_invocation_transition \<Rightarrow> timestamp \<Rightarrow> (tool_invocation_error, tool_invocation_state) result" where
  "apply_tool_transition v t recorded_at =
     (case (tv_state v, t) of
        (StatePrepared, StartAttempt a) \<Rightarrow> Inr (StateExecuting a)
      | (StateFailed e, StartAttempt a) \<Rightarrow>
          and_then (reject_if (ep_attempt_id (te_provenance e) = a) ReusedAttemptId) (\<lambda>_.
          and_then (validate_retry v e recorded_at) (\<lambda>_. Inr (StateExecuting a)))
      | (StateExecuting a, RecordResult r) \<Rightarrow>
          and_then (validate_result_binding (tv_intent v) a r) (\<lambda>_. Inr (StateCommitted r))
      | (StateExecuting a, RecordError e) \<Rightarrow>
          and_then (validate_error_binding (tv_intent v) a e) (\<lambda>_. Inr (state_from_error e))
      | (StateUnknown previous, ReconcileResult r) \<Rightarrow>
          and_then (validate_result_binding (tv_intent v) (ep_attempt_id (te_provenance previous)) r) (\<lambda>_.
          Inr (StateCommitted r))
      | (StateUnknown previous, ReconcileError e) \<Rightarrow>
          and_then (validate_error_binding (tv_intent v) (ep_attempt_id (te_provenance previous)) e) (\<lambda>_.
          Inr (state_from_error e))
      | _ \<Rightarrow> Inl (ToolInvalidTransition (tool_state_status (tv_state v)) (tool_transition_kind t)))"

definition record_digest ::
  "'z tool_crypto_scheme \<Rightarrow> tool_invocation_intent \<Rightarrow> tool_invocation_revision \<Rightarrow> tool_invocation_state \<Rightarrow>
     tool_invocation_head option \<Rightarrow> journal_head \<Rightarrow> digest option \<Rightarrow> (tool_invocation_error, digest) result" where
  "record_digest x i revision state previous j transition_digest =
     map_err ToolIntegrity (tool_digest x TOOL_RECORD_DIGEST_DOMAIN
       (ToolInvocationRecordDigestWire (ti_intent_digest i) revision state previous j transition_digest))"

definition compute_transition_digest ::
  "'z tool_crypto_scheme \<Rightarrow> tool_invocation_transition \<Rightarrow> (tool_invocation_error, digest) result" where
  "compute_transition_digest x t = map_err ToolIntegrity (tool_digest x TOOL_TRANSITION_DIGEST_DOMAIN (ToolTransitionWire t))"

definition tool_prepare ::
  "'z tool_crypto_scheme \<Rightarrow> tool_invocation_intent \<Rightarrow> journal_head \<Rightarrow> (tool_invocation_error, tool_invocation) result" where
  "tool_prepare x i j =
     and_then (validate_preparation_journal i j) (\<lambda>_.
     and_then (record_digest x i tool_revision_INITIAL StatePrepared None j None) (\<lambda>digest.
     Inr \<lparr>tv_intent = i, tv_revision = tool_revision_INITIAL, tv_state = StatePrepared, tv_previous = None,
          tv_journal_head = j, tv_transition = None, tv_transition_digest = None, tv_digest = digest\<rparr>))"

definition tool_advance ::
  "'z tool_crypto_scheme \<Rightarrow> tool_invocation \<Rightarrow> tool_invocation_transition \<Rightarrow> journal_head \<Rightarrow>
     (tool_invocation_error, tool_invocation) result" where
  "tool_advance x v t j =
     and_then (validate_successor_journal v j) (\<lambda>_.
     and_then (ok_or (tool_revision_checked_next (tv_revision v)) ToolRevisionOverflow) (\<lambda>revision.
     and_then (apply_tool_transition v t (jh_recorded_at j)) (\<lambda>state.
     and_then (compute_transition_digest x t) (\<lambda>transition_digest.
     and_then (record_digest x (tv_intent v) revision state (Some (tool_head_of v)) j (Some transition_digest)) (\<lambda>digest.
     Inr \<lparr>tv_intent = tv_intent v, tv_revision = revision, tv_state = state, tv_previous = Some (tool_head_of v),
          tv_journal_head = j, tv_transition = Some t, tv_transition_digest = Some transition_digest,
          tv_digest = digest\<rparr>)))))"

section \<open>Restoring records\<close>

definition transition_state_matches ::
  "'z tool_crypto_scheme \<Rightarrow> tool_invocation_head \<Rightarrow> tool_invocation_transition \<Rightarrow> tool_invocation_state \<Rightarrow>
     (tool_invocation_error, bool) result" where
  "transition_state_matches x previous t s =
     (let status = th_status previous;
          invalid = Inl (ToolInvalidTransition status (tool_transition_kind t));
          same_error = (\<lambda>e f. map_err ToolIntegrity (canonical_equal x (ToolErrorWire e) (ToolErrorWire f)))
      in case (t, s) of
           (StartAttempt a, StateExecuting b) \<Rightarrow>
             if status \<in> {StatusPrepared, StatusFailed}
             then and_then (reject_if (th_attempt_id previous = Some a) ReusedAttemptId) (\<lambda>_. Inr (a = b))
             else invalid
         | (RecordResult r, StateCommitted q) \<Rightarrow> if status = StatusExecuting then Inr (r = q) else invalid
         | (ReconcileResult r, StateCommitted q) \<Rightarrow> if status = StatusUnknown then Inr (r = q) else invalid
         | (RecordError e, StateFailed f) \<Rightarrow>
             if status = StatusExecuting \<and> te_external_effect e \<noteq> EffectUnknown then same_error e f else invalid
         | (RecordError e, StateUnknown f) \<Rightarrow>
             if status = StatusExecuting \<and> te_external_effect e = EffectUnknown then same_error e f else invalid
         | (ReconcileError e, StateUnknown f) \<Rightarrow>
             if status = StatusUnknown \<and> te_external_effect e = EffectUnknown then same_error e f else invalid
         | (ReconcileError e, StateFailed f) \<Rightarrow>
             if status = StatusUnknown \<and> te_external_effect e \<noteq> EffectUnknown then same_error e f else invalid
         | _ \<Rightarrow> invalid)"

definition validate_transition_payload ::
  "tool_invocation_intent \<Rightarrow> attempt_id option \<Rightarrow> tool_invocation_transition \<Rightarrow> (tool_invocation_error, unit) result" where
  "validate_transition_payload i expected t =
     (case t of
        StartAttempt _ \<Rightarrow> Inr ()
      | RecordResult r \<Rightarrow> and_then (ok_or expected TransitionStateMismatch) (\<lambda>a. validate_result_binding i a r)
      | ReconcileResult r \<Rightarrow> and_then (ok_or expected TransitionStateMismatch) (\<lambda>a. validate_result_binding i a r)
      | RecordError e \<Rightarrow> and_then (ok_or expected TransitionStateMismatch) (\<lambda>a. validate_error_binding i a e)
      | ReconcileError e \<Rightarrow> and_then (ok_or expected TransitionStateMismatch) (\<lambda>a. validate_error_binding i a e))"

definition validate_transition_shape ::
  "'z tool_crypto_scheme \<Rightarrow> tool_invocation_intent \<Rightarrow> tool_invocation_head \<Rightarrow> tool_invocation_transition \<Rightarrow>
     tool_invocation_state \<Rightarrow> (tool_invocation_error, unit) result" where
  "validate_transition_shape x i previous t s =
     and_then (transition_state_matches x previous t s) (\<lambda>valid.
     and_then (reject_if (\<not> valid) TransitionStateMismatch) (\<lambda>_.
     validate_transition_payload i (th_attempt_id previous) t))"

definition validate_successor_shape ::
  "'z tool_crypto_scheme \<Rightarrow> tool_invocation_intent \<Rightarrow> tool_invocation_revision \<Rightarrow> tool_invocation_state \<Rightarrow>
     tool_invocation_head \<Rightarrow> journal_head \<Rightarrow> tool_invocation_transition \<Rightarrow> digest \<Rightarrow> (tool_invocation_error, unit) result" where
  "validate_successor_shape x i revision state previous j t transition_digest =
     and_then (reject_first
       [(th_tenant_id previous \<noteq> ti_tenant_id i, PreviousTenantMismatch),
        (th_run_id previous \<noteq> ti_run_id i, PreviousRunMismatch),
        (th_invocation_id previous \<noteq> ti_invocation_id i, PreviousInvocationMismatch),
        (tool_revision_checked_next (th_revision previous) \<noteq> Some revision,
           PreviousRevisionMismatch (th_revision previous) revision)]) (\<lambda>_.
     and_then (validate_journal_advances (th_journal_head previous) j) (\<lambda>_.
     and_then (compute_transition_digest x t) (\<lambda>expected.
     and_then (reject_if (expected \<noteq> transition_digest) TransitionDigestMismatch) (\<lambda>_.
     validate_transition_shape x i previous t state))))"

definition validate_record_shape ::
  "'z tool_crypto_scheme \<Rightarrow> tool_invocation_intent \<Rightarrow> tool_invocation_revision \<Rightarrow> tool_invocation_state \<Rightarrow>
     tool_invocation_head option \<Rightarrow> journal_head \<Rightarrow> tool_invocation_transition option \<Rightarrow> digest option \<Rightarrow>
     (tool_invocation_error, unit) result" where
  "validate_record_shape x i revision state previous j transition transition_digest =
     and_then (map_err map_scope_error (validate_journal_scope (ti_tenant_id i) (ti_run_id i) j)) (\<lambda>_.
     and_then (validate_state_binding i state) (\<lambda>_.
     if revision = tool_revision_INITIAL
     then and_then (reject_if (state \<noteq> StatePrepared \<or> previous \<noteq> None \<or> transition \<noteq> None \<or> transition_digest \<noteq> None)
            InvalidInitialShape) (\<lambda>_. validate_preparation_journal i j)
     else (case (previous, transition, transition_digest) of
             (Some h, Some t, Some d) \<Rightarrow> validate_successor_shape x i revision state h j t d
           | _ \<Rightarrow> Inl InvalidSuccessorShape)))"

definition tool_restore :: "'z tool_crypto_scheme \<Rightarrow> tool_invocation \<Rightarrow> (tool_invocation_error, tool_invocation) result" where
  "tool_restore x v =
     and_then (validate_record_shape x (tv_intent v) (tv_revision v) (tv_state v) (tv_previous v) (tv_journal_head v)
       (tv_transition v) (tv_transition_digest v)) (\<lambda>_.
     and_then (record_digest x (tv_intent v) (tv_revision v) (tv_state v) (tv_previous v) (tv_journal_head v)
       (tv_transition_digest v)) (\<lambda>expected.
     and_then (reject_if (tv_digest v \<noteq> expected) ToolDigestMismatch) (\<lambda>_. Inr v)))"

section \<open>Histories\<close>

datatype tool_invocation_history_error =
  FirstRecordNotInitial tool_invocation_revision
| HistoryIntentMismatch
| PreviousHeadMismatch
| TransitionMissing
| HistoryTransition tool_invocation_error
| RecordMismatch
| HistoryIntegrity tool_invocation_integrity_error

record tool_history_verifier =
  hv_last :: "tool_invocation option"

definition history_verifier_new :: tool_history_verifier where
  "history_verifier_new = \<lparr>hv_last = None\<rparr>"

definition tool_verify_next ::
  "'z tool_crypto_scheme \<Rightarrow> tool_history_verifier \<Rightarrow> tool_invocation \<Rightarrow>
     (tool_invocation_history_error, tool_history_verifier) result" where
  "tool_verify_next x hv v =
     (case hv_last hv of
        None \<Rightarrow>
          and_then (reject_if (tv_revision v \<noteq> tool_revision_INITIAL) (FirstRecordNotInitial (tv_revision v))) (\<lambda>_.
          Inr (hv\<lparr>hv_last := Some v\<rparr>))
      | Some previous \<Rightarrow>
          and_then (reject_if (tv_intent v \<noteq> tv_intent previous) HistoryIntentMismatch) (\<lambda>_.
          and_then (reject_if (tv_previous v \<noteq> Some (tool_head_of previous)) PreviousHeadMismatch) (\<lambda>_.
          and_then (ok_or (tv_transition v) TransitionMissing) (\<lambda>t.
          and_then (map_err HistoryTransition (tool_advance x previous t (tv_journal_head v))) (\<lambda>expected.
          and_then (map_err HistoryIntegrity (canonical_equal x (ToolRecordWire expected) (ToolRecordWire v))) (\<lambda>same.
          and_then (reject_if (\<not> same) RecordMismatch) (\<lambda>_.
          Inr (hv\<lparr>hv_last := Some v\<rparr>))))))))"

section \<open>What a step does\<close>

definition tool_revision_wf :: "tool_invocation_revision \<Rightarrow> bool" where
  "tool_revision_wf r \<longleftrightarrow> tool_revision_get r \<le> MAX_DATABASE_ORDINAL"

lemma tool_revision_next:
  assumes "tool_revision_wf r" and "tool_revision_checked_next r = Some n"
  shows "tool_revision_wf n \<and> unat (tool_revision_get n) = Suc (unat (tool_revision_get r)) \<and> n \<noteq> tool_revision_INITIAL"
proof -
  have m: "unat MAX_DATABASE_ORDINAL = 9223372036854775807" by (simp add: MAX_DATABASE_ORDINAL_def)
  have r: "unat (tool_revision_get r) \<le> 9223372036854775807"
    using assms(1) m by (simp add: tool_revision_wf_def word_le_nat)
  then have u: "unat (tool_revision_get r + 1) = Suc (unat (tool_revision_get r))" by (simp add: unat_word_ariths)
  from assms(2) have n: "n = ToolInvocationRevision (tool_revision_get r + 1)" "tool_revision_get r \<noteq> MAX_DATABASE_ORDINAL"
    by (simp_all add: tool_revision_checked_next_def split: if_splits)
  then have "unat (tool_revision_get r) \<noteq> 9223372036854775807" using m by (simp add: word_eq_nat)
  then show ?thesis using r u by (auto simp: n(1) tool_revision_wf_def word_le_nat m tool_revision_INITIAL_def dest: arg_cong [of _ _ unat])
qed

lemma apply_tool_transition_cases [consumes 1, case_names start retry result error reconciled_result reconciled_error]:
  assumes "apply_tool_transition v t at = Inr s"
  obtains a where "tv_state v = StatePrepared" "t = StartAttempt a" "s = StateExecuting a"
  | e a where "tv_state v = StateFailed e" "t = StartAttempt a" "s = StateExecuting a"
      "ep_attempt_id (te_provenance e) \<noteq> a" "validate_retry v e at = Inr ()"
  | a r where "tv_state v = StateExecuting a" "t = RecordResult r" "s = StateCommitted r"
      "validate_result_binding (tv_intent v) a r = Inr ()"
  | a e where "tv_state v = StateExecuting a" "t = RecordError e" "s = state_from_error e"
      "validate_error_binding (tv_intent v) a e = Inr ()"
  | p r where "tv_state v = StateUnknown p" "t = ReconcileResult r" "s = StateCommitted r"
      "validate_result_binding (tv_intent v) (ep_attempt_id (te_provenance p)) r = Inr ()"
  | p e where "tv_state v = StateUnknown p" "t = ReconcileError e" "s = state_from_error e"
      "validate_error_binding (tv_intent v) (ep_attempt_id (te_provenance p)) e = Inr ()"
  using assms
  by (cases "tv_state v"; cases t) (auto simp: apply_tool_transition_def result_simps)

lemma validate_retry_Inr:
  assumes "validate_retry v e at = Inr u"
  shows "\<exists>d. fl_retry_advice (te_failure e) = SafeAfter d \<and>
    unix_micros (jh_recorded_at (tv_journal_head v)) + as_i64 d * 1000 \<le> unix_micros at"
    and "retry_safe (ts_risk (td_semantics (ti_descriptor (tv_intent v)))) (te_external_effect e)"
proof -
  show "\<exists>d. fl_retry_advice (te_failure e) = SafeAfter d \<and>
      unix_micros (jh_recorded_at (tv_journal_head v)) + as_i64 d * 1000 \<le> unix_micros at"
    using assms
    by (cases "fl_retry_advice (te_failure e)")
      (auto simp: validate_retry_def safe_after_delay_def result_simps Let_def less_timestamp_def not_less)
  show "retry_safe (ts_risk (td_semantics (ti_descriptor (tv_intent v)))) (te_external_effect e)"
    using assms by (auto simp: validate_retry_def result_simps Let_def)
qed

inductive tool_step :: "'z tool_crypto_scheme \<Rightarrow> tool_invocation \<Rightarrow> tool_invocation \<Rightarrow> bool" for x where
  advance: "tool_advance x v t j = Inr w \<Longrightarrow> tool_step x v w"

inductive_cases tool_stepE: "tool_step x v w"

lemma tool_advance_Inr:
  assumes "tool_advance x v t j = Inr w"
  shows "tv_intent w = tv_intent v" and "tv_previous w = Some (tool_head_of v)" and "tv_transition w = Some t"
    and "tv_journal_head w = j" and "tool_revision_checked_next (tv_revision v) = Some (tv_revision w)"
    and "apply_tool_transition v t (jh_recorded_at j) = Inr (tv_state w)"
    and "validate_successor_journal v j = Inr ()"
    and "\<exists>d. tv_transition_digest w = Some d \<and> compute_transition_digest x t = Inr d"
    and "record_digest x (tv_intent w) (tv_revision w) (tv_state w) (tv_previous w) j (tv_transition_digest w) = Inr (tv_digest w)"
  using assms by (auto simp: tool_advance_def result_simps)

interpretation tools: counting_machine "tool_step x" "\<lambda>v. tool_revision_wf (tv_revision v)" "\<lambda>v. unat (tool_revision_get (tv_revision v))"
  for x :: "'z tool_crypto_scheme"
  by unfold_locales (auto elim!: tool_stepE dest!: tool_advance_Inr(5) dest: tool_revision_next)

section \<open>Records restore\<close>

text \<open>The error a transition carries can be serialized.\<close>

definition serializable :: "'z tool_crypto_scheme \<Rightarrow> tool_invocation_transition \<Rightarrow> bool" where
  "serializable x t =
     (case t of
        RecordError e \<Rightarrow> cr_tool x (ToolErrorWire e) \<noteq> None
      | ReconcileError e \<Rightarrow> cr_tool x (ToolErrorWire e) \<noteq> None
      | _ \<Rightarrow> True)"

lemma canonical_equal_same: "cr_tool x w \<noteq> None \<Longrightarrow> canonical_equal x w w = Inr True"
  by (auto simp: canonical_equal_def)

lemma restore_same: "tool_restore x v = Inr w \<Longrightarrow> w = v"
  by (auto simp: tool_restore_def result_simps)

lemma prepare_restores: "tool_prepare x i j = Inr v \<Longrightarrow> tool_restore x v = Inr v"
  by (auto simp: tool_prepare_def tool_restore_def validate_record_shape_def validate_state_binding_def
      validate_preparation_journal_def result_simps)

lemma result_binding_own:
  "validate_result_binding i a r = Inr u \<Longrightarrow> validate_result_binding i (rp_attempt_id (tr_provenance r)) r = Inr u"
  by (auto simp: validate_result_binding_def Let_def result_simps)

lemma error_binding_own:
  "validate_error_binding i a e = Inr u \<Longrightarrow> validate_error_binding i (ep_attempt_id (te_provenance e)) e = Inr u"
  by (auto simp: validate_error_binding_def Let_def result_simps)

lemma applied_state_binding:
  "apply_tool_transition v t at = Inr s \<Longrightarrow> validate_state_binding (tv_intent v) s = Inr ()"
  by (cases rule: apply_tool_transition_cases)
    (auto simp: validate_state_binding_def result_simps intro: result_binding_own error_binding_own)

lemma applied_transition_shape:
  assumes "apply_tool_transition v t at = Inr s" and "serializable x t"
  shows "validate_transition_shape x (tv_intent v) (tool_head_of v) t s = Inr ()"
  using assms
  by (cases rule: apply_tool_transition_cases)
    (auto simp: validate_transition_shape_def transition_state_matches_def validate_transition_payload_def Let_def
      tool_head_of_def serializable_def canonical_equal_same)

lemma advance_restores:
  assumes "tool_advance x v t j = Inr w" and "tool_revision_wf (tv_revision v)" and "serializable x t"
  shows "tool_restore x w = Inr w"
proof -
  note f = tool_advance_Inr [OF assms(1)]
  obtain d where d: "tv_transition_digest w = Some d" "compute_transition_digest x t = Inr d" using f(8) by blast
  have n: "tv_revision w \<noteq> tool_revision_INITIAL" using tool_revision_next [OF assms(2) f(5)] by simp
  have scope: "validate_journal_scope (ti_tenant_id (tv_intent w)) (ti_run_id (tv_intent w)) j = Inr ()"
    and adv: "validate_journal_advances (tv_journal_head v) j = Inr ()"
    using f(7) by (auto simp: validate_successor_journal_def result_simps f(1))
  have "validate_successor_shape x (tv_intent w) (tv_revision w) (tv_state w) (tool_head_of v) j t d = Inr ()"
    using adv d(2) f(5) applied_transition_shape [OF f(6) assms(3)]
    by (simp add: validate_successor_shape_def tool_head_of_def f(1) result_simps reject_first.simps)
  then have "validate_record_shape x (tv_intent w) (tv_revision w) (tv_state w) (tv_previous w) j (tv_transition w)
      (tv_transition_digest w) = Inr ()"
    using scope n applied_state_binding [OF f(6)] by (simp add: validate_record_shape_def d(1) f(2,3) f(1))
  then show ?thesis using f(9) by (simp add: tool_restore_def f(4))
qed

section \<open>Histories of an invocation\<close>

text \<open>The records of one invocation, newest first: a preparation and then one accepted transition after another.\<close>

inductive tool_records :: "'z tool_crypto_scheme \<Rightarrow> tool_invocation list \<Rightarrow> bool" for x where
  prepared: "tool_prepare x i j = Inr v \<Longrightarrow> tool_records x [v]"
| advanced: "tool_records x (v # vs) \<Longrightarrow> tool_advance x v t j = Inr w \<Longrightarrow> serializable x t \<Longrightarrow> tool_records x (w # v # vs)"

inductive_cases tool_records_ConsE: "tool_records x (w # v # vs)"
inductive_cases tool_records_SingleE: "tool_records x [v]"

lemma tool_prepare_Inr:
  "tool_prepare x i j = Inr v \<Longrightarrow>
     tv_intent v = i \<and> tv_journal_head v = j \<and> tv_revision v = tool_revision_INITIAL \<and> tv_state v = StatePrepared"
  by (auto simp: tool_prepare_def result_simps)

lemma records_revision:
  "tool_records x vs \<Longrightarrow> tool_revision_wf (tv_revision (hd vs)) \<and> unat (tool_revision_get (tv_revision (hd vs))) + 1 = length vs"
proof (induction rule: tool_records.induct)
  case (prepared i j v)
  then show ?case using tool_prepare_Inr [OF prepared]
    by (simp add: tool_revision_INITIAL_def tool_revision_wf_def)
next
  case (advanced v vs t j w)
  then show ?case using tool_revision_next tool_advance_Inr(5) [OF advanced(2)] by auto
qed

text \<open>
  C37. Every record of an invocation's history restores from storage: the checks on reading a record back,
  written independently of the transition rules, accept every record the rules produce, and the record's
  revision is its position in the history.
\<close>

theorem tool_history_restores:
  assumes "tool_records x vs" and "k < length vs"
  shows "tool_restore x (vs ! k) = Inr (vs ! k) \<and> unat (tool_revision_get (tv_revision (vs ! k))) = length vs - 1 - k"
  using assms
proof (induction arbitrary: k rule: tool_records.induct)
  case (prepared i j v)
  then show ?case using tool_prepare_Inr [OF prepared(1)] prepare_restores by (simp add: tool_revision_INITIAL_def)
next
  case (advanced v vs t j w)
  have r: "tool_records x (w # v # vs)" using advanced by (blast intro: tool_records.advanced)
  have "tool_revision_wf (tv_revision v)" using records_revision [OF advanced(1)] by simp
  then have "tool_restore x w = Inr w" using advance_restores advanced(2,3) by blast
  then show ?case using advanced.IH [of "k - 1"] advanced.prems records_revision [OF r] by (cases k) auto
qed

text \<open>What a later record needs before an attempt is started again.\<close>

definition restart_justified :: "tool_invocation \<Rightarrow> tool_invocation \<Rightarrow> bool" where
  "restart_justified v w =
     (case tv_state w of
        StateExecuting a \<Rightarrow>
          (case tv_state v of
             StatePrepared \<Rightarrow> True
           | StateFailed e \<Rightarrow>
               retry_safe (ts_risk (td_semantics (ti_descriptor (tv_intent v)))) (te_external_effect e) \<and>
               ep_attempt_id (te_provenance e) \<noteq> a \<and>
               (case fl_retry_advice (te_failure e) of
                  SafeAfter d \<Rightarrow> unix_micros (jh_recorded_at (tv_journal_head v)) + as_i64 d * 1000
                    \<le> unix_micros (jh_recorded_at (tv_journal_head w))
                | _ \<Rightarrow> False)
           | _ \<Rightarrow> False)
      | _ \<Rightarrow> True)"

text \<open>A record that says the effect of a write that must not be repeated has happened.\<close>

definition effect_settled :: "tool_invocation \<Rightarrow> bool" where
  "effect_settled v =
     (case tv_state v of
        StateCommitted _ \<Rightarrow> True
      | StateFailed e \<Rightarrow>
          ts_risk (td_semantics (ti_descriptor (tv_intent v))) = NonIdempotentWrite \<and> te_external_effect e = Applied
      | _ \<Rightarrow> False)"

lemma advance_justified: "tool_advance x v t j = Inr w \<Longrightarrow> restart_justified v w \<and> \<not> effect_settled v"
proof -
  assume a: "tool_advance x v t j = Inr w"
  note f = tool_advance_Inr [OF a]
  from f(6) show ?thesis
  proof (cases rule: apply_tool_transition_cases)
    case (retry e b)
    then show ?thesis using validate_retry_Inr [OF retry(5)]
      by (auto simp: restart_justified_def effect_settled_def retry_safe_def f(4))
  qed (auto simp: restart_justified_def effect_settled_def)
qed

text \<open>
  C4. External effects are repeated only on evidence. In every history of a tool call, a new attempt is
  started only on the prepared record or on a failure that advises a retry, whose recorded effect makes a
  repetition safe for the tool's risk, under a new attempt identity and not before the advised delay has
  passed. A committed record, or for a non-idempotent write a failure whose effect was applied, is never
  followed by another record, so such an effect is applied at most once.
\<close>

theorem tool_effects_safe:
  assumes "tool_records x vs"
  shows "(\<forall>k. Suc k < length vs \<longrightarrow> restart_justified (vs ! Suc k) (vs ! k)) \<and> list_all (\<lambda>v. \<not> effect_settled v) (tl vs)"
  using assms
proof (induction rule: tool_records.induct)
  case (advanced v vs t j w)
  note adv = advance_justified [OF advanced(2)]
  have "restart_justified ((w # v # vs) ! Suc k) ((w # v # vs) ! k)" if "Suc k < length (w # v # vs)" for k
    using that adv advanced.IH by (cases k) auto
  then show ?case using adv advanced.IH by simp
qed simp

section \<open>The history verifier\<close>

text \<open>
  The verifier recomputes the successor and compares canonical bytes: the bytes of the stored record
  exist and are not those of another recomputed record.
\<close>

definition bytes_decide :: "'z tool_crypto_scheme \<Rightarrow> tool_invocation \<Rightarrow> tool_invocation \<Rightarrow> bool" where
  "bytes_decide x v w =
     (case tv_transition w of
        None \<Rightarrow> True
      | Some t \<Rightarrow>
          (case tool_advance x v t (tv_journal_head w) of
             Inl _ \<Rightarrow> True
           | Inr expected \<Rightarrow> cr_tool x (ToolRecordWire w) \<noteq> None \<and>
               (cr_tool x (ToolRecordWire expected) = cr_tool x (ToolRecordWire w) \<longrightarrow> expected = w)))"

definition tool_history_verifies :: "'z tool_crypto_scheme \<Rightarrow> tool_invocation list \<Rightarrow> bool" where
  "tool_history_verifies x vs \<longleftrightarrow> vs \<noteq> [] \<and> is_ok (try_fold (tool_verify_next x) history_verifier_new vs)"

lemma verified_last:
  "try_fold (tool_verify_next x) history_verifier_new (rev vs) = Inr hv \<Longrightarrow>
     hv_last hv = (if vs = [] then None else Some (hd vs))"
proof (cases vs)
  case (Cons w ws)
  assume "try_fold (tool_verify_next x) history_verifier_new (rev vs) = Inr hv"
  then show ?thesis by (auto simp: Cons try_fold_append result_simps tool_verify_next_def split: option.splits)
qed (auto simp: history_verifier_new_def)

lemma restored_serializable: "tool_restore x w = Inr w \<Longrightarrow> tv_revision w \<noteq> tool_revision_INITIAL \<Longrightarrow> tv_transition w = Some t \<Longrightarrow> serializable x t"
  by (auto simp: tool_restore_def validate_record_shape_def validate_successor_shape_def validate_transition_shape_def
      transition_state_matches_def serializable_def canonical_equal_def Let_def result_simps
      split: option.splits tool_invocation_transition.splits tool_invocation_state.splits if_splits)

lemma restored_initial:
  "tool_restore x v = Inr v \<Longrightarrow> tv_revision v = tool_revision_INITIAL \<Longrightarrow> tool_prepare x (tv_intent v) (tv_journal_head v) = Inr v"
  by (cases v) (auto simp: tool_restore_def validate_record_shape_def tool_prepare_def result_simps)

lemma verified_Cons:
  "is_ok (try_fold (tool_verify_next x) history_verifier_new (rev (w # v # vs))) \<longleftrightarrow>
     is_ok (try_fold (tool_verify_next x) history_verifier_new (rev (v # vs))) \<and>
     is_ok (tool_verify_next x \<lparr>hv_last = Some v\<rparr> w)"
proof (cases "try_fold (tool_verify_next x) history_verifier_new (rev (v # vs))")
  case (Inr hv)
  then have "hv = \<lparr>hv_last = Some v\<rparr>" using verified_last [OF Inr] by (cases hv) simp
  then show ?thesis
    using Inr by (simp only: rev.simps(2) [of w] try_fold_append and_then_simps try_fold.simps) (cases "tool_verify_next x hv w"; simp)
qed (simp only: rev.simps(2) [of w] try_fold_append and_then_simps is_ok_simps simp_thms)

lemma verify_successor_iff:
  assumes "bytes_decide x v w"
  shows "is_ok (tool_verify_next x \<lparr>hv_last = Some v\<rparr> w) \<longleftrightarrow>
    (\<exists>t. tv_transition w = Some t \<and> tool_advance x v t (tv_journal_head w) = Inr w)"
proof
  assume "is_ok (tool_verify_next x \<lparr>hv_last = Some v\<rparr> w)"
  then show "\<exists>t. tv_transition w = Some t \<and> tool_advance x v t (tv_journal_head w) = Inr w"
    using assms by (auto simp: tool_verify_next_def bytes_decide_def canonical_equal_def result_simps)
next
  assume "\<exists>t. tv_transition w = Some t \<and> tool_advance x v t (tv_journal_head w) = Inr w"
  then obtain t where t: "tv_transition w = Some t" "tool_advance x v t (tv_journal_head w) = Inr w" by blast
  have "cr_tool x (ToolRecordWire w) \<noteq> None" using assms t by (simp add: bytes_decide_def)
  then show "is_ok (tool_verify_next x \<lparr>hv_last = Some v\<rparr> w)"
    using t tool_advance_Inr(1,2) [OF t(2)] by (simp add: tool_verify_next_def canonical_equal_same)
qed

text \<open>
  C14. The history verifier of tool calls is exact: over records that restore, and as long as canonical
  bytes tell the recomputed successor from the stored one, it accepts a sequence, oldest first, exactly
  when it is a preparation followed by accepted transitions.
\<close>

theorem tool_verifier_exact:
  assumes "list_all (\<lambda>v. tool_restore x v = Inr v) vs" and "\<forall>k. Suc k < length vs \<longrightarrow> bytes_decide x (vs ! Suc k) (vs ! k)"
  shows "tool_history_verifies x (rev vs) \<longleftrightarrow> tool_records x vs"
  using assms
proof (induction vs rule: induct_list012)
  case 1
  then show ?case by (auto simp: tool_history_verifies_def elim: tool_records.cases)
next
  case (2 v)
  have "tool_history_verifies x (rev [v]) \<longleftrightarrow> tv_revision v = tool_revision_INITIAL"
    by (auto simp: tool_history_verifies_def tool_verify_next_def history_verifier_new_def result_simps)
  moreover have "tool_records x [v]" if "tv_revision v = tool_revision_INITIAL"
    using restored_initial [OF _ that] "2.prems"(1) by (auto intro: tool_records.prepared)
  moreover have "tv_revision v = tool_revision_INITIAL" if "tool_records x [v]"
    using that tool_prepare_Inr by (blast elim: tool_records_SingleE)
  ultimately show ?case by blast
next
  case (3 w v vs)
  have ih: "tool_history_verifies x (rev (v # vs)) \<longleftrightarrow> tool_records x (v # vs)"
  proof (rule "3.IH"(2))
    show "list_all (\<lambda>v. tool_restore x v = Inr v) (v # vs)" using "3.prems"(1) by simp
    show "\<forall>k. Suc k < length (v # vs) \<longrightarrow> bytes_decide x ((v # vs) ! Suc k) ((v # vs) ! k)"
      using "3.prems"(2) [rule_format, of "Suc k" for k] by simp
  qed
  have d: "bytes_decide x v w" using "3.prems"(2) [rule_format, of 0] by simp
  have "tool_history_verifies x (rev (w # v # vs)) \<longleftrightarrow>
      tool_records x (v # vs) \<and> (\<exists>t. tv_transition w = Some t \<and> tool_advance x v t (tv_journal_head w) = Inr w)"
    using ih verify_successor_iff [OF d] verified_Cons [of x w v vs] by (simp add: tool_history_verifies_def)
  also have "\<dots> \<longleftrightarrow> tool_records x (w # v # vs)"
  proof
    assume a: "tool_records x (v # vs) \<and> (\<exists>t. tv_transition w = Some t \<and> tool_advance x v t (tv_journal_head w) = Inr w)"
    then obtain t where t: "tv_transition w = Some t" "tool_advance x v t (tv_journal_head w) = Inr w" by blast
    have "tool_revision_wf (tv_revision v)" using records_revision a by fastforce
    then have "tv_revision w \<noteq> tool_revision_INITIAL" using tool_revision_next tool_advance_Inr(5) [OF t(2)] by blast
    then have "serializable x t" using "3.prems"(1) by (intro restored_serializable [OF _ _ t(1)]) simp_all
    then show "tool_records x (w # v # vs)" using a t(2) by (blast intro: tool_records.advanced)
  next
    assume "tool_records x (w # v # vs)"
    then show "tool_records x (v # vs) \<and> (\<exists>t. tv_transition w = Some t \<and> tool_advance x v t (tv_journal_head w) = Inr w)"
      using tool_advance_Inr(3,4) by (blast elim: tool_records_ConsE)
  qed
  finally show ?case .
qed

section \<open>A sample call\<close>

definition sample_tool_crypto :: tool_crypto where
  "sample_tool_crypto = \<lparr>cr_canonicalize = cr_canonicalize sample_crypto, cr_sha256 = cr_sha256 sample_crypto,
     cr_checkpoint = cr_checkpoint sample_crypto, cr_ready_input = (\<lambda>_. Some ''ready''), cr_tool = (\<lambda>_. Some ''tool'')\<rparr>"

definition sample_limits :: tool_execution_limits where
  "sample_limits = \<lparr>tl_timeout = DurationMillis 1000, tl_max_concurrency = ExecutionCount 1, tl_max_input_bytes = ByteCount 100,
     tl_max_inline_result_bytes = ByteCount 100, tl_max_artifacts = ExecutionCount 0, tl_max_total_artifact_bytes = ByteCount 0\<rparr>"

definition sample_descriptor :: tool_descriptor where
  "sample_descriptor = \<lparr>td_identity = gr_identity sample_graph, td_input_schema = sample_schema, td_output_schema = sample_schema,
     td_semantics = ok_value (semantics_new NonIdempotentWrite IdempotencyUnsupported True False), td_limits = sample_limits\<rparr>"

definition sample_activation :: node_activation where
  "sample_activation = \<lparr>na_base_checkpoint = \<lparr>ch_tenant_id = TenantId ''acme'', ch_run_id = RunId 7, ch_checkpoint_id = CheckpointId 1,
       ch_superstep = superstep_INITIAL, ch_graph = sample_graph, ch_journal_head = sample_journal 1, ch_digest = Sha256 ''base''\<rparr>,
     na_graph_namespace = namespace_root, na_node_id = NodeId ''pay'', na_input_digest = Sha256 ''input''\<rparr>"

definition sample_intent :: tool_invocation_intent where
  "sample_intent = \<lparr>ti_activation = sample_activation, ti_invocation_id = InvocationId 5, ti_descriptor = sample_descriptor,
     ti_input = \<lparr>in_schema = sample_schema, in_value = \<lparr>bj_value = JObject [], bj_compact_bytes = 2\<rparr>\<rparr>,
     ti_effective_limits = sample_limits, ti_intent_digest = Sha256 (TOOL_INTENT_DIGEST_DOMAIN @ ''tool'')\<rparr>"

definition sample_error :: tool_error where
  "sample_error = \<lparr>te_failure =
       \<lparr>fl_id = FailureId 1, fl_category = DependencyUnavailable, fl_code = ''gateway'', fl_origin = ''acme'', fl_message = [98],
        fl_retry_advice = SafeAfter (DurationMillis 2), fl_details = None, fl_caused_by_event_id = None\<rparr>,
     te_phase = PhaseExecution, te_external_effect = NotApplied,
     te_provenance = \<lparr>ep_invocation_id = InvocationId 5, ep_attempt_id = AttemptId 1, ep_tool = gr_identity sample_graph\<rparr>,
     te_recovery_handle = None\<rparr>"

definition sample_record ::
  "u64 \<Rightarrow> tool_invocation_state \<Rightarrow> int \<Rightarrow> (tool_invocation \<times> tool_invocation_transition) option \<Rightarrow> tool_invocation" where
  "sample_record n state micros step =
     \<lparr>tv_intent = sample_intent, tv_revision = ToolInvocationRevision n, tv_state = state,
      tv_previous = map_option (\<lambda>p. tool_head_of (fst p)) step,
      tv_journal_head = (sample_journal (n + 2))\<lparr>jh_recorded_at := Timestamp micros\<rparr>, tv_transition = map_option snd step,
      tv_transition_digest = map_option (\<lambda>_. Sha256 (TOOL_TRANSITION_DIGEST_DOMAIN @ ''tool'')) step,
      tv_digest = Sha256 (TOOL_RECORD_DIGEST_DOMAIN @ ''tool'')\<rparr>"

definition sample_v0 :: tool_invocation where
  "sample_v0 = sample_record 0 StatePrepared 10 None"

definition sample_v1 :: tool_invocation where
  "sample_v1 = sample_record 1 (StateExecuting (AttemptId 1)) 20 (Some (sample_v0, StartAttempt (AttemptId 1)))"

definition sample_v2 :: tool_invocation where
  "sample_v2 = sample_record 2 (StateFailed sample_error) 30 (Some (sample_v1, RecordError sample_error))"

definition sample_v3 :: tool_invocation where
  "sample_v3 = sample_record 3 (StateExecuting (AttemptId 2)) 2030 (Some (sample_v2, StartAttempt (AttemptId 2)))"

lemmas sample_call_defs = sample_record_def sample_intent_def sample_activation_def sample_journal_def
  sample_tool_crypto_def sample_crypto_def ti_tenant_id_def ti_run_id_def na_tenant_id_def na_run_id_def

lemma sample_prepared: "tool_prepare sample_tool_crypto sample_intent (tv_journal_head sample_v0) = Inr sample_v0"
  by code_simp

lemma sample_started: "tool_advance sample_tool_crypto sample_v0 (StartAttempt (AttemptId 1)) (tv_journal_head sample_v1) = Inr sample_v1"
  by code_simp

lemma sample_failed: "tool_advance sample_tool_crypto sample_v1 (RecordError sample_error) (tv_journal_head sample_v2) = Inr sample_v2"
  by code_simp

lemma sample_retried: "tool_advance sample_tool_crypto sample_v2 (StartAttempt (AttemptId 2)) (tv_journal_head sample_v3) = Inr sample_v3"
  by code_simp

lemma sample_records: "tool_records sample_tool_crypto [sample_v3, sample_v2, sample_v1, sample_v0]"
proof -
  have "serializable sample_tool_crypto t" for t
    by (simp add: serializable_def sample_tool_crypto_def split: tool_invocation_transition.splits)
  then show ?thesis
    using sample_prepared sample_started sample_failed sample_retried by (blast intro: tool_records.intros)
qed

lemma sample_bytes:
  "\<forall>k. Suc k < length [sample_v3, sample_v2, sample_v1, sample_v0] \<longrightarrow>
     bytes_decide sample_tool_crypto ([sample_v3, sample_v2, sample_v1, sample_v0] ! Suc k) ([sample_v3, sample_v2, sample_v1, sample_v0] ! k)"
proof -
  have decide: "bytes_decide sample_tool_crypto v w"
    if "tool_advance sample_tool_crypto v t (tv_journal_head w) = Inr w" for v w t
    using that tool_advance_Inr(3) [OF that] by (simp add: bytes_decide_def sample_tool_crypto_def)
  show ?thesis
    using decide [OF sample_started] decide [OF sample_failed] decide [OF sample_retried] by (simp add: less_Suc_eq)
qed

theorem tool_history_restores_witness:
  "tool_restore sample_tool_crypto sample_v2 = Inr sample_v2 \<and> unat (tool_revision_get (tv_revision sample_v2)) = 2"
  using tool_history_restores [OF sample_records, of 1] by simp

theorem tool_effects_safe_witness:
  "tool_records sample_tool_crypto [sample_v3, sample_v2, sample_v1, sample_v0] \<and> restart_justified sample_v2 sample_v3 \<and>
   \<not> effect_settled sample_v2"
  using sample_records tool_effects_safe [OF sample_records] by (simp add: less_Suc_eq all_conj_distrib)

theorem tool_verifier_exact_witness:
  "tool_history_verifies sample_tool_crypto (rev [sample_v3, sample_v2, sample_v1, sample_v0])"
proof -
  have "list_all (\<lambda>v. tool_restore sample_tool_crypto v = Inr v) [sample_v3, sample_v2, sample_v1, sample_v0]"
    by code_simp
  then show ?thesis using tool_verifier_exact [OF _ sample_bytes] sample_records by blast
qed

end
