(* ===== verification/NodeResult.thy ===== *)
theory NodeResult
  imports ToolValues Run "HOL-Library.Product_Lexorder"
begin

text \<open>
  \<open>crates/stateknot-core/src/node_result.rs\<close>: the immutable result of one node activation. The semantic
  intent (state change, control outcome, the external calls it consumed) has its own checksum, the
  idempotency fingerprint; the committed result adds the worker's fence and the journal head that
  anchors it. The head of a model call comes from \<open>model_invocation.rs\<close>, that of a child join from
  \<open>child_join.rs\<close>.
\<close>

section \<open>Routes\<close>

datatype route_id = RouteId (route_str: string)

instantiation route_id :: linorder
begin

definition less_eq_route_id :: "route_id \<Rightarrow> route_id \<Rightarrow> bool" where
  "less_eq_route_id s t \<longleftrightarrow> route_str s \<le> route_str t"

definition less_route_id :: "route_id \<Rightarrow> route_id \<Rightarrow> bool" where
  "less_route_id s t \<longleftrightarrow> route_str s < route_str t"

instance
  by standard (auto simp: less_eq_route_id_def less_route_id_def route_id.expand)

end

datatype route_id_error = RouteEmpty | RouteTooLong nat nat | RoutePathLike | RouteInvalidByte nat

definition ROUTE_MAX_LEN :: nat where "ROUTE_MAX_LEN = 128"

definition route_byte_valid :: "nat \<times> char \<Rightarrow> bool" where
  "route_byte_valid p = (if fst p = 0 then is_ascii_alphanumeric (snd p) else node_byte (snd p))"

definition validate_route_id :: "string \<Rightarrow> (route_id_error, unit) result" where
  "validate_route_id v =
     and_then (reject_first
       [(v = [], RouteEmpty),
        (length v > ROUTE_MAX_LEN, RouteTooLong ROUTE_MAX_LEN (length v)),
        (v \<in> {''.'', ''..''}, RoutePathLike)]) (\<lambda>_.
     case position (\<lambda>p. \<not> route_byte_valid p) (enumerate 0 v) of
       None \<Rightarrow> Inr () | Some index \<Rightarrow> Inl (RouteInvalidByte index))"

definition route_new :: "string \<Rightarrow> (route_id_error, route_id) result" where
  "route_new v = and_then (validate_route_id v) (\<lambda>_. Inr (RouteId v))"

section \<open>Updates, outputs and waits\<close>

record node_state_update =
  nu_schema :: schema_reference
  nu_data :: json
  nu_digest :: digest

record node_terminal_output =
  no_schema :: schema_reference
  no_data :: json
  no_digest :: digest

datatype node_state_change = Unchanged | Update node_state_update

fun change_update :: "node_state_change \<Rightarrow> node_state_update option" where
  "change_update Unchanged = None"
| "change_update (Update u) = Some u"

record journal_payload =
  jp_schema :: schema_reference
  jp_kind :: string
  jp_data :: json
  jp_digest :: digest

datatype node_wait =
  WaitInterrupt interrupt_id run_interrupt_kind journal_payload digest "principal_identity option" "string list"
    "timestamp option"
| WaitTimer timer_id run_timer_kind timestamp

fun wait_identity_uuid :: "node_wait \<Rightarrow> uuid" where
  "wait_identity_uuid (WaitInterrupt i _ _ _ _ _ _) = interrupt_uuid i"
| "wait_identity_uuid (WaitTimer t _ _) = timer_uuid t"

datatype node_waits = NodeWaits (waits_values: "node_wait list")

datatype node_waits_error = NodeWaitsEmpty | NodeWaitsTooMany nat nat | NodeWaitsDuplicateIdentity

definition NODE_WAITS_MAX_LEN :: nat where "NODE_WAITS_MAX_LEN = 64"

definition collect_node_wait :: "node_wait list \<Rightarrow> node_wait \<Rightarrow> (node_waits_error, node_wait list) result" where
  "collect_node_wait = push_distinct wait_identity_uuid NODE_WAITS_MAX_LEN
     (NodeWaitsTooMany NODE_WAITS_MAX_LEN (NODE_WAITS_MAX_LEN + 1)) (\<lambda>_. NodeWaitsDuplicateIdentity)"

definition node_waits_try_new :: "node_wait list \<Rightarrow> (node_waits_error, node_waits) result" where
  "node_waits_try_new values =
     and_then (try_fold collect_node_wait [] values) (\<lambda>collected.
     and_then (reject_if (collected = []) NodeWaitsEmpty) (\<lambda>_. Inr (NodeWaits collected)))"

datatype node_control =
  ControlContinue
| ControlRoute route_id
| ControlWait node_waits
| ControlTerminal node_terminal_output

datatype node_control_kind = KindContinue | KindRoute | KindWait | KindTerminal

section \<open>External calls a result consumes\<close>

datatype model_invocation_status = ModelPrepared | ModelExecuting | ModelCommitted | ModelFailed

record model_invocation_head =
  mh_tenant_id :: tenant_id
  mh_run_id :: run_id
  mh_invocation_id :: invocation_id
  mh_revision :: u64
  mh_status :: model_invocation_status
  mh_attempt_id :: "attempt_id option"
  mh_journal_head :: journal_head
  mh_digest :: digest

datatype node_invocation_binding =
  BindingModel node_activation model_invocation_head
| BindingTool node_activation tool_invocation_head

text \<open>The derived order of the binding kinds.\<close>

fun binding_kind :: "node_invocation_binding \<Rightarrow> nat" where
  "binding_kind (BindingModel _ _) = 0"
| "binding_kind (BindingTool _ _) = 1"

fun binding_activation :: "node_invocation_binding \<Rightarrow> node_activation" where
  "binding_activation (BindingModel a _) = a"
| "binding_activation (BindingTool a _) = a"

fun binding_invocation_id :: "node_invocation_binding \<Rightarrow> invocation_id" where
  "binding_invocation_id (BindingModel _ h) = mh_invocation_id h"
| "binding_invocation_id (BindingTool _ h) = th_invocation_id h"

fun binding_journal_head :: "node_invocation_binding \<Rightarrow> journal_head" where
  "binding_journal_head (BindingModel _ h) = mh_journal_head h"
| "binding_journal_head (BindingTool _ h) = th_journal_head h"

datatype node_invocation_binding_error =
  ModelNotConsumable model_invocation_status
| ToolNotConsumable tool_invocation_status
| BindingTenantMismatch
| BindingRunMismatch
| BindingJournalNotAfterBase
| BindingClockRegressionBase

definition validate_binding_scope ::
  "node_activation \<Rightarrow> tenant_id \<Rightarrow> run_id \<Rightarrow> journal_head \<Rightarrow> (node_invocation_binding_error, unit) result" where
  "validate_binding_scope a t r j =
     (let base = ch_journal_head (na_base_checkpoint a)
      in reject_first
           [(t \<noteq> na_tenant_id a \<or> jh_tenant_id j \<noteq> na_tenant_id a, BindingTenantMismatch),
            (r \<noteq> na_run_id a \<or> jh_run_id j \<noteq> na_run_id a, BindingRunMismatch),
            (sequence_get (jh_sequence j) \<le> sequence_get (jh_sequence base), BindingJournalNotAfterBase),
            (jh_recorded_at j < jh_recorded_at base, BindingClockRegressionBase)])"

definition restore_model ::
  "node_activation \<Rightarrow> model_invocation_head \<Rightarrow> (node_invocation_binding_error, node_invocation_binding) result" where
  "restore_model a h =
     and_then (reject_if (mh_status h \<notin> {ModelCommitted, ModelFailed}) (ModelNotConsumable (mh_status h))) (\<lambda>_.
     and_then (validate_binding_scope a (mh_tenant_id h) (mh_run_id h) (mh_journal_head h)) (\<lambda>_.
     Inr (BindingModel a h)))"

definition restore_tool ::
  "node_activation \<Rightarrow> tool_invocation_head \<Rightarrow> (node_invocation_binding_error, node_invocation_binding) result" where
  "restore_tool a h =
     and_then (reject_if (th_status h \<notin> {StatusCommitted, StatusFailed}) (ToolNotConsumable (th_status h))) (\<lambda>_.
     and_then (validate_binding_scope a (th_tenant_id h) (th_run_id h) (th_journal_head h)) (\<lambda>_.
     Inr (BindingTool a h)))"

datatype node_invocation_bindings = NodeInvocationBindings (bindings_list: "node_invocation_binding list")

datatype node_invocation_bindings_error =
  BindingsTooMany nat nat
| BindingsDuplicate nat invocation_id
| BindingsActivationMismatch

definition BINDINGS_MAX_LEN :: nat where "BINDINGS_MAX_LEN = 256"

definition binding_identity :: "node_invocation_binding \<Rightarrow> nat \<times> uuid" where
  "binding_identity b = (binding_kind b, invocation_uuid (binding_invocation_id b))"

definition collect_binding ::
  "node_invocation_binding list \<Rightarrow> node_invocation_binding \<Rightarrow>
     (node_invocation_bindings_error, node_invocation_binding list) result" where
  "collect_binding = push_distinct binding_identity BINDINGS_MAX_LEN
     (BindingsTooMany BINDINGS_MAX_LEN (BINDINGS_MAX_LEN + 1))
     (\<lambda>b. BindingsDuplicate (binding_kind b) (binding_invocation_id b))"

definition collect_bindings ::
  "node_invocation_binding list \<Rightarrow> (node_invocation_bindings_error, node_invocation_binding list) result" where
  "collect_bindings values = map_ok (sort_key binding_identity) (try_fold collect_binding [] values)"

definition validate_bindings_activation ::
  "node_activation \<Rightarrow> node_invocation_binding list \<Rightarrow> (node_invocation_bindings_error, unit) result" where
  "validate_bindings_activation a bs = reject_if (list_ex (\<lambda>b. binding_activation b \<noteq> a) bs) BindingsActivationMismatch"

definition bindings_try_new ::
  "node_activation \<Rightarrow> node_invocation_binding list \<Rightarrow> (node_invocation_bindings_error, node_invocation_bindings) result" where
  "bindings_try_new a values =
     and_then (collect_bindings values) (\<lambda>bs.
     and_then (validate_bindings_activation a bs) (\<lambda>_. Inr (NodeInvocationBindings bs)))"

record child_run_join_head =
  jn_activation :: node_activation
  jn_request_digest :: digest
  jn_binding_digest :: digest
  jn_journal_head :: journal_head

section \<open>Intents and results\<close>

record pending_node_result_intent =
  pi_activation :: node_activation
  pi_state_change :: node_state_change
  pi_control :: node_control
  pi_bindings :: node_invocation_bindings
  pi_child_join :: "child_run_join_head option"
  pi_intent_digest :: digest

record pending_node_result =
  pr_intent :: pending_node_result_intent
  pr_fence :: run_fence
  pr_journal_head :: journal_head
  pr_digest :: digest

record pending_node_result_head =
  ph_activation :: node_activation
  ph_intent_digest :: digest
  ph_fence :: run_fence
  ph_journal_head :: journal_head
  ph_digest :: digest

datatype result_preimage =
  SchemaPayloadDigestWire schema_reference digest
| PendingNodeResultIntentDigestWire node_activation node_state_change node_control node_invocation_bindings
    "child_run_join_head option"
| PendingNodeResultDigestWire digest run_fence journal_head

record result_crypto = tool_crypto +
  cr_result :: "result_preimage \<Rightarrow> string option"

datatype result_integrity_error = PayloadCanonicalization canonical_json_error | ResultCanonicalSerialization

definition UPDATE_DIGEST_DOMAIN :: string where
  "UPDATE_DIGEST_DOMAIN = ''stateknot-node-state-update-v1'' @ [CHR 0x00]"

definition TERMINAL_DIGEST_DOMAIN :: string where
  "TERMINAL_DIGEST_DOMAIN = ''stateknot-node-terminal-output-v1'' @ [CHR 0x00]"

definition RESULT_INTENT_DIGEST_DOMAIN :: string where
  "RESULT_INTENT_DIGEST_DOMAIN = ''stateknot-pending-node-result-intent-v1'' @ [CHR 0x00]"

definition RESULT_RECORD_DIGEST_DOMAIN :: string where
  "RESULT_RECORD_DIGEST_DOMAIN = ''stateknot-pending-node-result-v1'' @ [CHR 0x00]"

definition result_digest ::
  "'z result_crypto_scheme \<Rightarrow> string \<Rightarrow> result_preimage \<Rightarrow> (result_integrity_error, digest) result" where
  "result_digest x domain w = domain_digest x domain (cr_result x w) ResultCanonicalSerialization"

definition compute_payload_digest ::
  "'z result_crypto_scheme \<Rightarrow> string \<Rightarrow> schema_reference \<Rightarrow> json \<Rightarrow> (result_integrity_error, digest) result" where
  "compute_payload_digest x domain schema d =
     and_then (map_err PayloadCanonicalization (canonical_json_new x d)) (\<lambda>canonical.
     result_digest x domain (SchemaPayloadDigestWire schema (cj_digest canonical)))"

datatype node_payload_error = PayloadIntegrity result_integrity_error | PayloadDigestMismatch

definition update_new ::
  "'z result_crypto_scheme \<Rightarrow> schema_reference \<Rightarrow> json \<Rightarrow> (node_payload_error, node_state_update) result" where
  "update_new x schema d =
     and_then (map_err PayloadIntegrity (compute_payload_digest x UPDATE_DIGEST_DOMAIN schema d)) (\<lambda>digest.
     Inr \<lparr>nu_schema = schema, nu_data = d, nu_digest = digest\<rparr>)"

definition update_restore ::
  "'z result_crypto_scheme \<Rightarrow> schema_reference \<Rightarrow> json \<Rightarrow> digest \<Rightarrow> (node_payload_error, node_state_update) result" where
  "update_restore x schema d digest =
     and_then (update_new x schema d) (\<lambda>restored.
     and_then (reject_if (nu_digest restored \<noteq> digest) PayloadDigestMismatch) (\<lambda>_. Inr restored))"

definition output_new ::
  "'z result_crypto_scheme \<Rightarrow> schema_reference \<Rightarrow> json \<Rightarrow> (node_payload_error, node_terminal_output) result" where
  "output_new x schema d =
     and_then (map_err PayloadIntegrity (compute_payload_digest x TERMINAL_DIGEST_DOMAIN schema d)) (\<lambda>digest.
     Inr \<lparr>no_schema = schema, no_data = d, no_digest = digest\<rparr>)"

definition output_restore ::
  "'z result_crypto_scheme \<Rightarrow> schema_reference \<Rightarrow> json \<Rightarrow> digest \<Rightarrow> (node_payload_error, node_terminal_output) result" where
  "output_restore x schema d digest =
     and_then (output_new x schema d) (\<lambda>restored.
     and_then (reject_if (no_digest restored \<noteq> digest) PayloadDigestMismatch) (\<lambda>_. Inr restored))"

datatype pending_node_result_intent_error =
  ChildJoinScope
| IntentBindings node_invocation_bindings_error
| ResultIntentIntegrity result_integrity_error
| ResultIntentDigestMismatch

definition result_intent_new ::
  "'z result_crypto_scheme \<Rightarrow> node_activation \<Rightarrow> node_state_change \<Rightarrow> node_control \<Rightarrow> node_invocation_bindings \<Rightarrow>
     (pending_node_result_intent_error, pending_node_result_intent) result" where
  "result_intent_new x a change control bindings =
     and_then (map_err IntentBindings (validate_bindings_activation a (bindings_list bindings))) (\<lambda>_.
     and_then (map_err ResultIntentIntegrity (result_digest x RESULT_INTENT_DIGEST_DOMAIN
       (PendingNodeResultIntentDigestWire a change control bindings None))) (\<lambda>digest.
     Inr \<lparr>pi_activation = a, pi_state_change = change, pi_control = control, pi_bindings = bindings,
          pi_child_join = None, pi_intent_digest = digest\<rparr>))"

definition result_intent_restore ::
  "'z result_crypto_scheme \<Rightarrow> node_activation \<Rightarrow> node_state_change \<Rightarrow> node_control \<Rightarrow> node_invocation_bindings \<Rightarrow> digest \<Rightarrow>
     (pending_node_result_intent_error, pending_node_result_intent) result" where
  "result_intent_restore x a change control bindings digest =
     and_then (result_intent_new x a change control bindings) (\<lambda>restored.
     and_then (reject_if (pi_intent_digest restored \<noteq> digest) ResultIntentDigestMismatch) (\<lambda>_. Inr restored))"

definition with_child_join ::
  "'z result_crypto_scheme \<Rightarrow> child_run_join_head \<Rightarrow> pending_node_result_intent \<Rightarrow>
     (pending_node_result_intent_error, pending_node_result_intent) result" where
  "with_child_join x h i =
     and_then (reject_if (jn_activation h \<noteq> pi_activation i) ChildJoinScope) (\<lambda>_.
     and_then (map_err ResultIntentIntegrity (result_digest x RESULT_INTENT_DIGEST_DOMAIN
       (PendingNodeResultIntentDigestWire (pi_activation i) (pi_state_change i) (pi_control i) (pi_bindings i) (Some h)))) (\<lambda>digest.
     Inr (i\<lparr>pi_child_join := Some h, pi_intent_digest := digest\<rparr>)))"

definition result_intent_from_wire ::
  "'z result_crypto_scheme \<Rightarrow> pending_node_result_intent \<Rightarrow>
     (pending_node_result_intent_error, pending_node_result_intent) result" where
  "result_intent_from_wire x w =
     and_then (result_intent_new x (pi_activation w) (pi_state_change w) (pi_control w) (pi_bindings w)) (\<lambda>plain.
     and_then (case pi_child_join w of None \<Rightarrow> Inr plain | Some h \<Rightarrow> with_child_join x h plain) (\<lambda>result.
     and_then (reject_if (pi_intent_digest result \<noteq> pi_intent_digest w) ResultIntentDigestMismatch) (\<lambda>_. Inr result)))"

datatype pending_node_result_error =
  FenceTenantMismatch
| FenceRunMismatch
| ResultJournalTenantMismatch
| ResultJournalRunMismatch
| ResultJournalNotAfterBase
| ResultClockRegression
| JournalNotAfterBinding
| BindingClockRegression
| ResultIntegrity result_integrity_error
| ResultDigestMismatch

definition validate_basic_result_scope ::
  "node_activation \<Rightarrow> run_fence \<Rightarrow> journal_head \<Rightarrow> (pending_node_result_error, unit) result" where
  "validate_basic_result_scope a f j =
     (let base = ch_journal_head (na_base_checkpoint a)
      in reject_first
           [(fence_tenant_id f \<noteq> na_tenant_id a, FenceTenantMismatch),
            (fence_run_id f \<noteq> na_run_id a, FenceRunMismatch),
            (jh_tenant_id j \<noteq> na_tenant_id a, ResultJournalTenantMismatch),
            (jh_run_id j \<noteq> na_run_id a, ResultJournalRunMismatch),
            (sequence_get (jh_sequence j) \<le> sequence_get (jh_sequence base), ResultJournalNotAfterBase),
            (jh_recorded_at j < jh_recorded_at base, ResultClockRegression)])"

definition check_follows :: "journal_head \<Rightarrow> journal_head \<Rightarrow> (pending_node_result_error, unit) result" where
  "check_follows j evidence =
     reject_first
       [(sequence_get (jh_sequence j) \<le> sequence_get (jh_sequence evidence), JournalNotAfterBinding),
        (jh_recorded_at j < jh_recorded_at evidence, BindingClockRegression)]"

definition validate_result_shape ::
  "pending_node_result_intent \<Rightarrow> run_fence \<Rightarrow> journal_head \<Rightarrow> (pending_node_result_error, unit) result" where
  "validate_result_shape i f j =
     and_then (validate_basic_result_scope (pi_activation i) f j) (\<lambda>_.
     and_then (case pi_child_join i of None \<Rightarrow> Inr () | Some join \<Rightarrow> check_follows j (jn_journal_head join)) (\<lambda>_.
     try_fold (\<lambda>_ b. check_follows j (binding_journal_head b)) () (bindings_list (pi_bindings i))))"

definition result_commit ::
  "'z result_crypto_scheme \<Rightarrow> pending_node_result_intent \<Rightarrow> run_fence \<Rightarrow> journal_head \<Rightarrow>
     (pending_node_result_error, pending_node_result) result" where
  "result_commit x i f j =
     and_then (validate_result_shape i f j) (\<lambda>_.
     and_then (map_err ResultIntegrity (result_digest x RESULT_RECORD_DIGEST_DOMAIN
       (PendingNodeResultDigestWire (pi_intent_digest i) f j))) (\<lambda>digest.
     Inr \<lparr>pr_intent = i, pr_fence = f, pr_journal_head = j, pr_digest = digest\<rparr>))"

definition result_restore ::
  "'z result_crypto_scheme \<Rightarrow> pending_node_result_intent \<Rightarrow> run_fence \<Rightarrow> journal_head \<Rightarrow> digest \<Rightarrow>
     (pending_node_result_error, pending_node_result) result" where
  "result_restore x i f j digest =
     and_then (result_commit x i f j) (\<lambda>restored.
     and_then (reject_if (pr_digest restored \<noteq> digest) ResultDigestMismatch) (\<lambda>_. Inr restored))"

definition result_head :: "pending_node_result \<Rightarrow> pending_node_result_head" where
  "result_head r =
     \<lparr>ph_activation = pi_activation (pr_intent r), ph_intent_digest = pi_intent_digest (pr_intent r), ph_fence = pr_fence r,
      ph_journal_head = pr_journal_head r, ph_digest = pr_digest r\<rparr>"

definition result_head_new ::
  "node_activation \<Rightarrow> digest \<Rightarrow> run_fence \<Rightarrow> journal_head \<Rightarrow> digest \<Rightarrow> (pending_node_result_error, pending_node_result_head) result" where
  "result_head_new a d f j digest =
     and_then (validate_basic_result_scope a f j) (\<lambda>_.
     Inr \<lparr>ph_activation = a, ph_intent_digest = d, ph_fence = f, ph_journal_head = j, ph_digest = digest\<rparr>)"

section \<open>Collections\<close>

lemma node_waits_iff:
  "node_waits_try_new ws = Inr out \<longleftrightarrow>
     ws \<noteq> [] \<and> length ws \<le> NODE_WAITS_MAX_LEN \<and> distinct (map wait_identity_uuid ws) \<and> out = NodeWaits ws"
  by (auto simp: node_waits_try_new_def collect_node_wait_def collect_distinct result_simps)

lemma bindings_iff:
  "bindings_try_new a bs = Inr out \<longleftrightarrow>
     length bs \<le> BINDINGS_MAX_LEN \<and> distinct (map binding_identity bs) \<and> (\<forall>b\<in>set bs. binding_activation b = a) \<and>
     out = NodeInvocationBindings (sort_key binding_identity bs)"
  by (auto simp: bindings_try_new_def collect_bindings_def collect_binding_def collect_distinct validate_bindings_activation_def
      list_ex_iff result_simps)

section \<open>Committed results\<close>

text \<open>What a committed result is bound to: its scope, and journal positions before its own.\<close>

definition journal_follows :: "journal_head \<Rightarrow> journal_head \<Rightarrow> bool" where
  "journal_follows j i \<longleftrightarrow> sequence_get (jh_sequence i) < sequence_get (jh_sequence j) \<and> jh_recorded_at i \<le> jh_recorded_at j"

lemma check_follows_iff: "check_follows j i = Inr u \<longleftrightarrow> journal_follows j i"
  by (auto simp: check_follows_def journal_follows_def result_simps)

lemma try_fold_check:
  "try_fold (\<lambda>_ b. f b) () bs = Inr u \<longleftrightarrow> (\<forall>b\<in>set bs. f b = Inr ())" for f :: "'a \<Rightarrow> ('e, unit) result"
  by (induction bs) (auto simp: result_simps)

lemma result_commit_iff:
  "result_commit x i f j = Inr r \<longleftrightarrow>
     fence_tenant_id f = na_tenant_id (pi_activation i) \<and> fence_run_id f = na_run_id (pi_activation i) \<and>
     jh_tenant_id j = na_tenant_id (pi_activation i) \<and> jh_run_id j = na_run_id (pi_activation i) \<and>
     journal_follows j (ch_journal_head (na_base_checkpoint (pi_activation i))) \<and>
     (\<forall>h. pi_child_join i = Some h \<longrightarrow> journal_follows j (jn_journal_head h)) \<and>
     (\<forall>b\<in>set (bindings_list (pi_bindings i)). journal_follows j (binding_journal_head b)) \<and>
     (\<exists>d. result_digest x RESULT_RECORD_DIGEST_DOMAIN (PendingNodeResultDigestWire (pi_intent_digest i) f j) = Inr d \<and>
        r = \<lparr>pr_intent = i, pr_fence = f, pr_journal_head = j, pr_digest = d\<rparr>)"
  by (auto simp: result_commit_def validate_result_shape_def validate_basic_result_scope_def Let_def try_fold_check check_follows_iff
      journal_follows_def result_simps split: option.splits)

text \<open>The semantic fingerprint does not depend on the worker, the journal position or the order of the calls.\<close>

lemma intent_fingerprint:
  assumes "bindings_try_new a bs = Inr b" and "bindings_try_new a cs = Inr c" and "set bs = set cs"
  shows "result_intent_new x a change control b = result_intent_new x a change control c"
  using assms sort_key_permuted [of binding_identity bs cs] by (auto simp: bindings_iff)

lemma result_restores:
  "result_commit x i f j = Inr r \<Longrightarrow> result_restore x (pr_intent r) (pr_fence r) (pr_journal_head r) (pr_digest r) = Inr r"
  by (auto simp: result_restore_def result_simps) (auto simp: result_commit_def result_simps)

end
