(* ===== verification/Barrier.thy ===== *)
theory Barrier
  imports NodeResult
begin

text \<open>
  Checkpoint barriers (\<open>crates/stateknot-core/src/barrier.rs\<close>): the set of result heads one barrier consumes,
  bound to the exact base checkpoint, its ready nodes and the successor write. The lemmas state when a
  set of heads and a barrier are accepted, and that an accepted barrier restores.
\<close>

section \<open>Result heads\<close>

instantiation graph_namespace :: linorder
begin

definition less_eq_graph_namespace :: "graph_namespace \<Rightarrow> graph_namespace \<Rightarrow> bool" where
  "less_eq_graph_namespace s t \<longleftrightarrow> namespace_str s \<le> namespace_str t"

definition less_graph_namespace :: "graph_namespace \<Rightarrow> graph_namespace \<Rightarrow> bool" where
  "less_graph_namespace s t \<longleftrightarrow> namespace_str s < namespace_str t"

instance
  by standard (auto simp: less_eq_graph_namespace_def less_graph_namespace_def graph_namespace.expand)

end

definition namespace_is_root :: "graph_namespace \<Rightarrow> bool" where
  "namespace_is_root n \<longleftrightarrow> namespace_str n = []"

datatype barrier_result_heads = BarrierResultHeads (heads_list: "pending_node_result_head list")

datatype barrier_result_heads_error =
  BarrierHeadsEmpty
| BarrierHeadsTooMany nat nat
| DuplicateActivation graph_namespace node_id
| MixedBaseCheckpoints
| NestedGraphNamespace graph_namespace

definition BARRIER_MAX_LEN :: nat where "BARRIER_MAX_LEN = READY_MAX_LEN"

definition head_identity :: "pending_node_result_head \<Rightarrow> graph_namespace \<times> node_id" where
  "head_identity h = (na_graph_namespace (ph_activation h), na_node_id (ph_activation h))"

text \<open>One iteration: the heads collected so far, whose identities are the set of the source, and the base of the first.\<close>

definition add_head ::
  "pending_node_result_head list \<times> checkpoint_head option \<Rightarrow> pending_node_result_head \<Rightarrow>
     (barrier_result_heads_error, pending_node_result_head list \<times> checkpoint_head option) result" where
  "add_head s h =
     (case s of (collected, base) \<Rightarrow>
        and_then (reject_if (length collected = BARRIER_MAX_LEN) (BarrierHeadsTooMany BARRIER_MAX_LEN (BARRIER_MAX_LEN + 1))) (\<lambda>_.
        and_then (reject_if (\<not> namespace_is_root (na_graph_namespace (ph_activation h)))
          (NestedGraphNamespace (na_graph_namespace (ph_activation h)))) (\<lambda>_.
        and_then (case base of
            Some expected \<Rightarrow> and_then (reject_if (na_base_checkpoint (ph_activation h) \<noteq> expected) MixedBaseCheckpoints) (\<lambda>_. Inr base)
          | None \<Rightarrow> Inr (Some (na_base_checkpoint (ph_activation h)))) (\<lambda>base'.
        and_then (reject_if (head_identity h \<in> head_identity ` set collected)
          (DuplicateActivation (na_graph_namespace (ph_activation h)) (na_node_id (ph_activation h)))) (\<lambda>_.
        Inr (collected @ [h], base'))))))"

definition heads_try_new ::
  "pending_node_result_head list \<Rightarrow> (barrier_result_heads_error, barrier_result_heads) result" where
  "heads_try_new heads =
     and_then (try_fold add_head ([], None) heads) (\<lambda>(collected, _).
     and_then (reject_if (collected = []) BarrierHeadsEmpty) (\<lambda>_.
     Inr (BarrierResultHeads (sort_key head_identity collected))))"

section \<open>Barriers\<close>

record checkpoint_barrier =
  cb_base_checkpoint :: checkpoint_head
  cb_base_ready_nodes :: ready_nodes
  cb_result_heads :: barrier_result_heads
  cb_successor :: checkpoint_write
  cb_intent_digest :: digest

datatype checkpoint_barrier_error =
  BarrierResults barrier_result_heads_error
| EmptyReadySet
| SuccessorParentMismatch
| BarrierResultBaseMismatch
| UnexpectedResultNode node_id
| BarrierMissingResultNode node_id
| BarrierCanonicalSerialization
| BarrierDigestMismatch

datatype barrier_preimage = CheckpointBarrierDigestWire checkpoint_head ready_nodes barrier_result_heads digest

record barrier_crypto = result_crypto +
  cr_barrier :: "barrier_preimage \<Rightarrow> string option"

definition BARRIER_INTENT_DIGEST_DOMAIN :: string where
  "BARRIER_INTENT_DIGEST_DOMAIN = ''stateknot-checkpoint-barrier-intent-v1'' @ [CHR 0x00]"

definition observe_head ::
  "checkpoint_head \<Rightarrow> ready_nodes \<Rightarrow> node_id list \<Rightarrow> pending_node_result_head \<Rightarrow> (checkpoint_barrier_error, node_id list) result" where
  "observe_head base ready observed h =
     and_then (reject_first
       [(na_base_checkpoint (ph_activation h) \<noteq> base, BarrierResultBaseMismatch),
        (na_node_id (ph_activation h) \<notin> set (ready_list ready), UnexpectedResultNode (na_node_id (ph_activation h)))]) (\<lambda>_.
     Inr (na_node_id (ph_activation h) # observed))"

definition validate_barrier_shape ::
  "checkpoint_head \<Rightarrow> ready_nodes \<Rightarrow> barrier_result_heads \<Rightarrow> checkpoint_write \<Rightarrow> (checkpoint_barrier_error, unit) result" where
  "validate_barrier_shape base ready heads successor =
     and_then (reject_first
       [(ready_list ready = [], EmptyReadySet),
        (cw_parent successor \<noteq> Some base, SuccessorParentMismatch)]) (\<lambda>_.
     and_then (try_fold (observe_head base ready) [] (heads_list heads)) (\<lambda>observed.
     try_fold (\<lambda>_ n. reject_if (n \<notin> set observed) (BarrierMissingResultNode n)) () (ready_list ready)))"

definition compute_barrier_digest ::
  "'z barrier_crypto_scheme \<Rightarrow> barrier_preimage \<Rightarrow> (checkpoint_barrier_error, digest) result" where
  "compute_barrier_digest x w = domain_digest x BARRIER_INTENT_DIGEST_DOMAIN (cr_barrier x w) BarrierCanonicalSerialization"

definition barrier_build ::
  "'z barrier_crypto_scheme \<Rightarrow> checkpoint_head \<Rightarrow> ready_nodes \<Rightarrow> barrier_result_heads \<Rightarrow> checkpoint_write \<Rightarrow> digest option \<Rightarrow>
     (checkpoint_barrier_error, checkpoint_barrier) result" where
  "barrier_build x base ready heads successor supplied =
     and_then (validate_barrier_shape base ready heads successor) (\<lambda>_.
     and_then (compute_barrier_digest x (CheckpointBarrierDigestWire base ready heads (cw_intent_digest successor))) (\<lambda>digest.
     and_then (reject_if (supplied \<noteq> None \<and> supplied \<noteq> Some digest) BarrierDigestMismatch) (\<lambda>_.
     Inr \<lparr>cb_base_checkpoint = base, cb_base_ready_nodes = ready, cb_result_heads = heads, cb_successor = successor,
          cb_intent_digest = digest\<rparr>)))"

definition barrier_new ::
  "'z barrier_crypto_scheme \<Rightarrow> checkpoint \<Rightarrow> checkpoint_write \<Rightarrow> pending_node_result_head list \<Rightarrow>
     (checkpoint_barrier_error, checkpoint_barrier) result" where
  "barrier_new x base successor heads =
     and_then (map_err BarrierResults (heads_try_new heads)) (\<lambda>hs.
     barrier_build x (checkpoint_head_of base) (cp_ready_nodes base) hs successor None)"

definition barrier_restore ::
  "'z barrier_crypto_scheme \<Rightarrow> checkpoint_head \<Rightarrow> ready_nodes \<Rightarrow> barrier_result_heads \<Rightarrow> checkpoint_write \<Rightarrow> digest \<Rightarrow>
     (checkpoint_barrier_error, checkpoint_barrier) result" where
  "barrier_restore x base ready heads successor digest = barrier_build x base ready heads successor (Some digest)"

section \<open>What is accepted\<close>

definition same_base :: "checkpoint_head option \<Rightarrow> pending_node_result_head list \<Rightarrow> bool" where
  "same_base base hs \<longleftrightarrow>
     (\<exists>b. (base = None \<or> base = Some b) \<and> (\<forall>h\<in>set hs. na_base_checkpoint (ph_activation h) = b))"

lemma add_head_iff:
  "add_head (vs, base) h = Inr out \<longleftrightarrow>
     length vs \<noteq> BARRIER_MAX_LEN \<and> namespace_is_root (na_graph_namespace (ph_activation h)) \<and>
     (base = None \<or> base = Some (na_base_checkpoint (ph_activation h))) \<and> head_identity h \<notin> head_identity ` set vs \<and>
     out = (vs @ [h], Some (na_base_checkpoint (ph_activation h)))"
  by (cases base) (auto simp: add_head_def result_simps)

lemma try_fold_add_head:
  assumes "distinct (map head_identity vs)" and "length vs \<le> BARRIER_MAX_LEN"
  shows "(\<exists>b. try_fold add_head (vs, base) hs = Inr (out, b)) \<longleftrightarrow>
    out = vs @ hs \<and> distinct (map head_identity (vs @ hs)) \<and> length (vs @ hs) \<le> BARRIER_MAX_LEN \<and>
    list_all (\<lambda>h. namespace_is_root (na_graph_namespace (ph_activation h))) hs \<and> same_base base hs"
  using assms
proof (induction hs arbitrary: vs base)
  case (Cons h hs)
  let ?a = "na_base_checkpoint (ph_activation h)"
  let ?ok = "length vs \<noteq> BARRIER_MAX_LEN \<and> namespace_is_root (na_graph_namespace (ph_activation h)) \<and>
     (base = None \<or> base = Some ?a) \<and> head_identity h \<notin> head_identity ` set vs"
  have step: "(\<exists>b. try_fold add_head (vs, base) (h # hs) = Inr (out, b)) \<longleftrightarrow>
      ?ok \<and> (\<exists>b. try_fold add_head (vs @ [h], Some ?a) hs = Inr (out, b))"
    by (auto simp: and_then_Inr_iff add_head_iff)
  have base: "same_base base (h # hs) \<longleftrightarrow> (base = None \<or> base = Some ?a) \<and> same_base (Some ?a) hs"
    by (auto simp: same_base_def)
  show ?case
  proof (cases ?ok)
    case True
    have "(\<exists>b. try_fold add_head (vs @ [h], Some ?a) hs = Inr (out, b)) \<longleftrightarrow>
        out = vs @ h # hs \<and> distinct (map head_identity (vs @ h # hs)) \<and> length (vs @ h # hs) \<le> BARRIER_MAX_LEN \<and>
        list_all (\<lambda>h. namespace_is_root (na_graph_namespace (ph_activation h))) hs \<and> same_base (Some ?a) hs"
      using True Cons.prems by (subst Cons.IH) auto
    then show ?thesis unfolding step base using True by simp
  next
    case False
    then show ?thesis unfolding step base using Cons.prems(2) by (auto simp: image_iff)
  qed
qed (auto simp: same_base_def)

lemma heads_try_new_iff:
  "heads_try_new hs = Inr b \<longleftrightarrow>
     hs \<noteq> [] \<and> length hs \<le> BARRIER_MAX_LEN \<and> distinct (map head_identity hs) \<and>
     list_all (\<lambda>h. namespace_is_root (na_graph_namespace (ph_activation h))) hs \<and> same_base None hs \<and>
     b = BarrierResultHeads (sort_key head_identity hs)"
proof -
  have "heads_try_new hs = Inr b \<longleftrightarrow>
      (\<exists>out. (\<exists>base. try_fold add_head ([], None) hs = Inr (out, base)) \<and> out \<noteq> [] \<and> b = BarrierResultHeads (sort_key head_identity out))"
    by (auto simp: heads_try_new_def result_simps)
  then show ?thesis using try_fold_add_head [of "[]" None hs] by auto
qed

lemma try_fold_observe:
  "try_fold (observe_head base ready) vs hs = Inr out \<longleftrightarrow>
     (\<forall>h\<in>set hs. na_base_checkpoint (ph_activation h) = base \<and> na_node_id (ph_activation h) \<in> set (ready_list ready)) \<and>
     out = rev (map (\<lambda>h. na_node_id (ph_activation h)) hs) @ vs"
  by (induction hs arbitrary: vs) (auto simp: observe_head_def result_simps)

lemma validate_barrier_shape_iff:
  "validate_barrier_shape base ready heads successor = Inr u \<longleftrightarrow>
     ready_list ready \<noteq> [] \<and> cw_parent successor = Some base \<and>
     (\<forall>h\<in>set (heads_list heads). na_base_checkpoint (ph_activation h) = base) \<and>
     (\<lambda>h. na_node_id (ph_activation h)) ` set (heads_list heads) = set (ready_list ready)"
  by (auto simp: validate_barrier_shape_def try_fold_observe try_fold_check result_simps)

text \<open>At the root of the graph the canonical order is the order of the nodes.\<close>

lemma insort_key_cong:
  assumes "\<And>a b. a \<in> insert v (set xs) \<Longrightarrow> b \<in> insert v (set xs) \<Longrightarrow> f a \<le> f b \<longleftrightarrow> g a \<le> g b"
  shows "insort_key f v xs = insort_key g v xs"
  using assms by (induction xs) auto

lemma sort_key_cong_order:
  assumes "\<And>a b. a \<in> set xs \<Longrightarrow> b \<in> set xs \<Longrightarrow> f a \<le> f b \<longleftrightarrow> g a \<le> g b"
  shows "sort_key f xs = sort_key g xs"
  using assms
proof (induction xs)
  case (Cons v xs)
  then have "sort_key f xs = sort_key g xs" by auto
  moreover have "insort_key f v (sort_key g xs) = insort_key g v (sort_key g xs)"
    using Cons.prems by (intro insort_key_cong) auto
  ultimately show ?case by simp
qed simp

lemma sort_key_root:
  assumes "list_all (\<lambda>h. na_graph_namespace (ph_activation h) = namespace_root) hs"
  shows "sort_key head_identity hs = sort_key (\<lambda>h. na_node_id (ph_activation h)) hs"
  using assms by (intro sort_key_cong_order) (auto simp: head_identity_def list_all_iff less_eq_prod_def)

text \<open>Acceptance, shared by the planner.\<close>

lemma barrier_new_iff:
  "barrier_new x base successor hs = Inr b \<longleftrightarrow>
     ready_list (cp_ready_nodes base) \<noteq> [] \<and> length hs \<le> BARRIER_MAX_LEN \<and>
     list_all (\<lambda>h. na_graph_namespace (ph_activation h) = namespace_root \<and>
        na_base_checkpoint (ph_activation h) = checkpoint_head_of base) hs \<and>
     distinct (map (\<lambda>h. na_node_id (ph_activation h)) hs) \<and>
     set (map (\<lambda>h. na_node_id (ph_activation h)) hs) = set (ready_list (cp_ready_nodes base)) \<and>
     cw_parent successor = Some (checkpoint_head_of base) \<and>
     (\<exists>d. compute_barrier_digest x (CheckpointBarrierDigestWire (checkpoint_head_of base) (cp_ready_nodes base)
            (BarrierResultHeads (sort_key (\<lambda>h. na_node_id (ph_activation h)) hs)) (cw_intent_digest successor)) = Inr d \<and>
        b = \<lparr>cb_base_checkpoint = checkpoint_head_of base, cb_base_ready_nodes = cp_ready_nodes base,
             cb_result_heads = BarrierResultHeads (sort_key (\<lambda>h. na_node_id (ph_activation h)) hs),
             cb_successor = successor, cb_intent_digest = d\<rparr>)"
proof (cases "list_all (\<lambda>h. na_graph_namespace (ph_activation h) = namespace_root) hs")
  case True
  have root: "namespace_is_root n \<longleftrightarrow> n = namespace_root" for n
    by (cases n) (simp add: namespace_is_root_def namespace_root_def)
  have keys: "map head_identity hs = map (Pair namespace_root) (map (\<lambda>h. na_node_id (ph_activation h)) hs)"
    using True by (simp add: head_identity_def list_all_iff)
  have sorted: "sort_key head_identity hs = sort_key (\<lambda>h. na_node_id (ph_activation h)) hs"
    using True by (rule sort_key_root)
  have "distinct (map head_identity hs) \<longleftrightarrow> distinct (map (\<lambda>h. na_node_id (ph_activation h)) hs)"
    unfolding keys by (simp add: distinct_map inj_on_def)
  then show ?thesis using True
    by (auto simp: barrier_new_def barrier_build_def heads_try_new_iff validate_barrier_shape_iff sorted root same_base_def
        list_all_iff result_simps)
next
  case False
  then show ?thesis
    by (auto simp: barrier_new_def heads_try_new_iff namespace_is_root_def namespace_root_def list_all_iff result_simps
        graph_namespace.expand)
qed

text \<open>
  C15. A barrier is accepted exactly when its results cover the base: at most 1024 results, all at the root of
  the graph and all of the base checkpoint, exactly one for every ready node of the base and none for
  another node, with a successor that names the base as its parent. The heads are kept by node, so the order in
  which the results arrive changes nothing.
\<close>

theorem barrier_exact:
  "barrier_new x base successor hs = Inr b \<longleftrightarrow>
     ready_list (cp_ready_nodes base) \<noteq> [] \<and> length hs \<le> BARRIER_MAX_LEN \<and>
     list_all (\<lambda>h. na_graph_namespace (ph_activation h) = namespace_root \<and>
        na_base_checkpoint (ph_activation h) = checkpoint_head_of base) hs \<and>
     distinct (map (\<lambda>h. na_node_id (ph_activation h)) hs) \<and>
     set (map (\<lambda>h. na_node_id (ph_activation h)) hs) = set (ready_list (cp_ready_nodes base)) \<and>
     cw_parent successor = Some (checkpoint_head_of base) \<and>
     (\<exists>d. compute_barrier_digest x (CheckpointBarrierDigestWire (checkpoint_head_of base) (cp_ready_nodes base)
            (BarrierResultHeads (sort_key (\<lambda>h. na_node_id (ph_activation h)) hs)) (cw_intent_digest successor)) = Inr d \<and>
        b = \<lparr>cb_base_checkpoint = checkpoint_head_of base, cb_base_ready_nodes = cp_ready_nodes base,
             cb_result_heads = BarrierResultHeads (sort_key (\<lambda>h. na_node_id (ph_activation h)) hs),
             cb_successor = successor, cb_intent_digest = d\<rparr>)"
  by (rule barrier_new_iff)

lemma barrier_restores:
  assumes "barrier_new x base successor hs = Inr b"
  shows "barrier_restore x (cb_base_checkpoint b) (cb_base_ready_nodes b) (cb_result_heads b) (cb_successor b) (cb_intent_digest b) = Inr b"
  using assms by (auto simp: barrier_new_def barrier_restore_def barrier_build_def result_simps)

end
