(* ===== verification/Graph.thy ===== *)
theory Graph
  imports NodeResult
begin

text \<open>
  \<open>crates/stateknot-core/src/graph.rs\<close> up to the barrier planner, with \<open>child_run_policy.rs\<close>: graph limits,
  routes, nodes, delegation policies and the compiler of graph definitions, which accepts a definition
  only if every node is reachable from an entry and can reach a wait or the end.
\<close>

section \<open>Limits, routes and nodes\<close>

record graph_reducer_reference =
  gd_identity :: capability_identity
  gd_definition_digest :: digest

record graph_execution_limits =
  gl_maximum_supersteps :: superstep
  gl_maximum_parallelism :: u16

datatype graph_execution_limits_error = ZeroSupersteps | ZeroParallelism | ParallelismAboveFrameworkMaximum nat nat

definition execution_limits_new ::
  "superstep \<Rightarrow> u16 \<Rightarrow> (graph_execution_limits_error, graph_execution_limits) result" where
  "execution_limits_new supersteps parallelism =
     and_then (reject_first
       [(superstep_get supersteps = 0, ZeroSupersteps),
        (parallelism = 0, ZeroParallelism),
        (unat parallelism > READY_MAX_LEN, ParallelismAboveFrameworkMaximum READY_MAX_LEN (unat parallelism))]) (\<lambda>_.
     Inr \<lparr>gl_maximum_supersteps = supersteps, gl_maximum_parallelism = parallelism\<rparr>)"

record graph_route =
  gt_route_id :: route_id
  gt_successors :: ready_nodes

datatype graph_route_error = EmptySuccessors

definition graph_route_new :: "route_id \<Rightarrow> ready_nodes \<Rightarrow> (graph_route_error, graph_route) result" where
  "graph_route_new r s =
     and_then (reject_if (ready_list s = []) EmptySuccessors) (\<lambda>_. Inr \<lparr>gt_route_id = r, gt_successors = s\<rparr>)"

datatype graph_routes = GraphRoutes (routes_list: "graph_route list")

datatype graph_routes_error = RoutesTooMany nat nat | RoutesDuplicate route_id

definition ROUTES_MAX_LEN :: nat where "ROUTES_MAX_LEN = 256"

definition graph_routes_try_new :: "graph_route list \<Rightarrow> (graph_routes_error, graph_routes) result" where
  "graph_routes_try_new routes =
     map_ok (\<lambda>values. GraphRoutes (sort_key gt_route_id values))
       (try_fold (push_distinct gt_route_id ROUTES_MAX_LEN (RoutesTooMany ROUTES_MAX_LEN (ROUTES_MAX_LEN + 1))
          (\<lambda>r. RoutesDuplicate (gt_route_id r))) [] routes)"

definition routes_get :: "graph_routes \<Rightarrow> route_id \<Rightarrow> graph_route option" where
  "routes_get rs r = map_option (\<lambda>i. routes_list rs ! i) (binary_search gt_route_id r (routes_list rs))"

record graph_node =
  gn_node_id :: node_id
  gn_continue_to :: "ready_nodes option"
  gn_routes :: graph_routes
  gn_wait_to :: "ready_nodes option"
  gn_terminal :: bool

datatype graph_node_error = NoControlOutcome | EmptyContinueSuccessors | EmptyWaitSuccessors

definition graph_node_new ::
  "node_id \<Rightarrow> ready_nodes option \<Rightarrow> graph_routes \<Rightarrow> ready_nodes option \<Rightarrow> bool \<Rightarrow> (graph_node_error, graph_node) result" where
  "graph_node_new n continue_to routes wait_to terminal =
     and_then (reject_first
       [(case continue_to of None \<Rightarrow> False | Some s \<Rightarrow> ready_list s = [], EmptyContinueSuccessors),
        (case wait_to of None \<Rightarrow> False | Some s \<Rightarrow> ready_list s = [], EmptyWaitSuccessors),
        (continue_to = None \<and> routes_list routes = [] \<and> wait_to = None \<and> \<not> terminal, NoControlOutcome)]) (\<lambda>_.
     Inr \<lparr>gn_node_id = n, gn_continue_to = continue_to, gn_routes = routes, gn_wait_to = wait_to, gn_terminal = terminal\<rparr>)"

definition successor_sets :: "graph_node \<Rightarrow> ready_nodes list" where
  "successor_sets node =
     (case gn_continue_to node of None \<Rightarrow> [] | Some s \<Rightarrow> [s]) @
     map gt_successors (routes_list (gn_routes node)) @
     (case gn_wait_to node of None \<Rightarrow> [] | Some s \<Rightarrow> [s])"

definition is_boundary :: "graph_node \<Rightarrow> bool" where
  "is_boundary node \<longleftrightarrow> gn_terminal node \<or> gn_wait_to node \<noteq> None"

section \<open>Delegation policies\<close>

type_synonym child_run_slot = string

record child_agent_reference =
  ca_identity :: capability_identity
  ca_definition_digest :: digest

record child_run_declaration =
  cd_node_id :: node_id
  cd_slot :: child_run_slot
  cd_agent :: child_agent_reference
  cd_graph :: graph_reference
  cd_input_schema :: schema_reference
  cd_output_schema :: schema_reference

record child_run_topology_limits =
  cl_maximum_descendant_depth :: u16
  cl_maximum_children_per_run :: u16
  cl_maximum_active_descendants :: u16

record graph_child_run_policy =
  cp_version :: u8
  cp_limits :: child_run_topology_limits
  cp_declarations :: "child_run_declaration list"

datatype child_run_policy_error =
  AgentEncoding
| TargetSchemaMismatch
| TargetGraphMismatch
| DepthNotNarrowed
| InvalidLimits
| TooManyDeclarations
| TooManyNodeSlots
| DuplicateSlot
| EmptyDeclarations
| UndeclaredParentNode
| UnsupportedVersion

definition CHILD_MAX_DEPTH :: nat where "CHILD_MAX_DEPTH = 32"
definition CHILD_MAX_CHILDREN :: nat where "CHILD_MAX_CHILDREN = 256"
definition MAX_DECLARATIONS :: nat where "MAX_DECLARATIONS = 256"
definition MAX_SLOTS_PER_NODE :: nat where "MAX_SLOTS_PER_NODE = 64"

definition topology_limits_new :: "u16 \<Rightarrow> u16 \<Rightarrow> u16 \<Rightarrow> (child_run_policy_error, child_run_topology_limits) result" where
  "topology_limits_new depth children active =
     and_then (reject_if
       (\<not> (1 \<le> unat depth \<and> unat depth \<le> CHILD_MAX_DEPTH) \<or>
        \<not> (1 \<le> unat children \<and> unat children \<le> CHILD_MAX_CHILDREN) \<or>
        \<not> (1 \<le> unat active \<and> unat active \<le> CHILD_MAX_CHILDREN)) InvalidLimits) (\<lambda>_.
     Inr \<lparr>cl_maximum_descendant_depth = depth, cl_maximum_children_per_run = children,
          cl_maximum_active_descendants = active\<rparr>)"

text \<open>\<open>per_node\<close> counts the declarations seen for each node.\<close>

definition add_declaration ::
  "((node_id \<times> child_run_slot) \<times> child_run_declaration) list \<times> (node_id \<times> nat) list \<Rightarrow> child_run_declaration \<Rightarrow>
     (child_run_policy_error,
      ((node_id \<times> child_run_slot) \<times> child_run_declaration) list \<times> (node_id \<times> nat) list) result" where
  "add_declaration s d =
     (case s of (ordered, per_node) \<Rightarrow>
        and_then (reject_if (length ordered = MAX_DECLARATIONS) TooManyDeclarations) (\<lambda>_.
        let count = (case map_of per_node (cd_node_id d) of None \<Rightarrow> 0 | Some n \<Rightarrow> n) + 1
        in and_then (reject_if (count > MAX_SLOTS_PER_NODE) TooManyNodeSlots) (\<lambda>_.
           and_then (reject_if (map_of ordered (cd_node_id d, cd_slot d) \<noteq> None) DuplicateSlot) (\<lambda>_.
           Inr (bt_insert (cd_node_id d, cd_slot d) d ordered, bt_insert (cd_node_id d) count per_node)))))"

definition child_policy_new ::
  "child_run_topology_limits \<Rightarrow> child_run_declaration list \<Rightarrow> (child_run_policy_error, graph_child_run_policy) result" where
  "child_policy_new limits declarations =
     and_then (try_fold add_declaration ([], []) declarations) (\<lambda>(ordered, per_node).
     and_then (reject_if (ordered = []) EmptyDeclarations) (\<lambda>_.
     Inr \<lparr>cp_version = 1, cp_limits = limits, cp_declarations = map snd ordered\<rparr>))"

definition policy_declaration :: "graph_child_run_policy \<Rightarrow> node_id \<Rightarrow> child_run_slot \<Rightarrow> child_run_declaration option" where
  "policy_declaration p n slot =
     map_option (\<lambda>i. cp_declarations p ! i)
       (binary_search (\<lambda>d. (cd_node_id d, cd_slot d)) (n, slot) (cp_declarations p))"

section \<open>Compiled graphs\<close>

record compiled_graph =
  cg_identity :: capability_identity
  cg_input_schema :: schema_reference
  cg_state_schema :: schema_reference
  cg_update_schema :: schema_reference
  cg_output_schema :: schema_reference
  cg_reducer :: graph_reducer_reference
  cg_entry_nodes :: ready_nodes
  cg_nodes :: "graph_node list"
  cg_limits :: graph_execution_limits
  cg_child_runs :: "graph_child_run_policy option"
  cg_definition_digest :: digest

definition compiled_reference :: "compiled_graph \<Rightarrow> graph_reference" where
  "compiled_reference g =
     \<lparr>gr_identity = cg_identity g, gr_definition_digest = cg_definition_digest g, gr_state_schema = cg_state_schema g\<rparr>"

definition graph_node_get :: "compiled_graph \<Rightarrow> node_id \<Rightarrow> graph_node option" where
  "graph_node_get g n = map_option (\<lambda>i. cg_nodes g ! i) (binary_search gn_node_id n (cg_nodes g))"

datatype graph_definition =
  GraphDefinitionDigestWire capability_identity schema_reference schema_reference schema_reference schema_reference
    graph_reducer_reference ready_nodes "graph_node list" graph_execution_limits "graph_child_run_policy option"

record agent_descriptor =
  ad_identity :: capability_identity
  ad_input_schema :: schema_reference
  ad_output_schema :: schema_reference

record graph_crypto = result_crypto +
  cr_graph :: "graph_definition \<Rightarrow> string option"
  cr_agent :: "agent_descriptor \<Rightarrow> string option"

definition canonical_definition_bytes :: "'z graph_crypto_scheme \<Rightarrow> compiled_graph \<Rightarrow> string option" where
  "canonical_definition_bytes x g = cr_graph x (GraphDefinitionDigestWire (cg_identity g) (cg_input_schema g) (cg_state_schema g)
     (cg_update_schema g) (cg_output_schema g) (cg_reducer g) (cg_entry_nodes g) (cg_nodes g) (cg_limits g) (cg_child_runs g))"

datatype graph_compile_error =
  EmptyNodes
| TooManyNodes nat nat
| DuplicateNode node_id
| EmptyEntryNodes
| MissingEntryNode node_id
| MissingSuccessorNode node_id node_id
| DuplicateRoute route_id node_id node_id
| TooManyRoutes nat nat
| ParallelismExceeded "node_id option" nat nat
| UnreachableNode node_id
| NoBoundaryPath node_id
| DefinitionTooLarge nat nat
| GraphCanonicalSerialization
| GraphDigestMismatch
| ChildPolicy child_run_policy_error
| MissingNodePanic

definition MAX_NODES :: nat where "MAX_NODES = READY_MAX_LEN"
definition MAX_ROUTES :: nat where "MAX_ROUTES = MAX_NODES * ROUTES_MAX_LEN"
definition MAX_DEFINITION_BYTES :: nat where "MAX_DEFINITION_BYTES = 2 * 1024 * 1024"

subsection \<open>Collecting the nodes\<close>

type_synonym node_table = "(node_id \<times> graph_node) list"

definition own_route ::
  "node_id \<Rightarrow> (route_id \<times> node_id) list \<Rightarrow> graph_route \<Rightarrow> (graph_compile_error, (route_id \<times> node_id) list) result" where
  "own_route n owners route =
     (case map_of owners (gt_route_id route) of
        Some first \<Rightarrow> Inl (DuplicateRoute (gt_route_id route) first n)
      | None \<Rightarrow> Inr (bt_insert (gt_route_id route) n owners))"

definition add_node ::
  "node_table \<times> nat \<times> (route_id \<times> node_id) list \<Rightarrow> graph_node \<Rightarrow>
     (graph_compile_error, node_table \<times> nat \<times> (route_id \<times> node_id) list) result" where
  "add_node s node =
     (case s of (by_id, route_count, owners) \<Rightarrow>
        and_then (reject_if (length by_id = MAX_NODES) (TooManyNodes MAX_NODES (MAX_NODES + 1))) (\<lambda>_.
        let count = route_count + length (routes_list (gn_routes node))
        in and_then (reject_if (count \<ge> 2 ^ 64) (TooManyRoutes MAX_ROUTES (2 ^ 64 - 1))) (\<lambda>_.
           and_then (reject_if (count > MAX_ROUTES) (TooManyRoutes MAX_ROUTES count)) (\<lambda>_.
           and_then (try_fold (own_route (gn_node_id node)) owners (routes_list (gn_routes node))) (\<lambda>owners'.
           and_then (reject_if (map_of by_id (gn_node_id node) \<noteq> None) (DuplicateNode (gn_node_id node))) (\<lambda>_.
           Inr (bt_insert (gn_node_id node) node by_id, count, owners')))))))"

definition collect_graph_nodes :: "graph_node list \<Rightarrow> (graph_compile_error, node_table) result" where
  "collect_graph_nodes nodes =
     and_then (try_fold add_node ([], 0, []) nodes) (\<lambda>(by_id, _, _).
     and_then (reject_if (by_id = []) EmptyNodes) (\<lambda>_. Inr by_id))"

subsection \<open>Reachability and boundaries\<close>

definition check_successor ::
  "node_table \<Rightarrow> node_id \<Rightarrow> node_id \<Rightarrow> (graph_compile_error, unit) result" where
  "check_successor nodes from_node target = reject_if (map_of nodes target = None) (MissingSuccessorNode from_node target)"

definition validate_node_successors ::
  "node_table \<Rightarrow> graph_node \<Rightarrow> graph_execution_limits \<Rightarrow> (graph_compile_error, unit) result" where
  "validate_node_successors nodes node limits =
     try_fold (\<lambda>_ successors.
       and_then (reject_if (length (ready_list successors) > unat (gl_maximum_parallelism limits))
         (ParallelismExceeded (Some (gn_node_id node)) (unat (gl_maximum_parallelism limits)) (length (ready_list successors)))) (\<lambda>_.
       try_fold (\<lambda>_ target. check_successor nodes (gn_node_id node) target) () (ready_list successors))) ()
       (successor_sets node)"

text \<open>The breadth-first search; indexing the table with an absent node is a panic.\<close>

function reach_loop :: "node_table \<Rightarrow> node_id list \<Rightarrow> node_id list \<Rightarrow> node_id list option" where
  "reach_loop nodes reachable queue =
     (case queue of
        [] \<Rightarrow> Some reachable
      | n # rest \<Rightarrow>
          if n \<in> set reachable then reach_loop nodes reachable rest
          else (case map_of nodes n of
                  None \<Rightarrow> None
                | Some node \<Rightarrow> reach_loop nodes (n # reachable) (rest @ concat (map ready_list (successor_sets node)))))"
  by pat_completeness auto
termination
proof (relation "measures [\<lambda>(nodes, reachable, queue). card (fst ` set nodes - set reachable), \<lambda>(nodes, reachable, queue). length queue]",
    goal_cases)
  case (3 nodes reachable queue n rest node)
  then have "n \<in> fst ` set nodes" by (metis domI dom_map_of_conv_image_fst)
  then have "fst ` set nodes - set (n # reachable) \<subset> fst ` set nodes - set reachable" using 3 by auto
  then show ?case by (simp add: psubset_card_mono)
qed auto

declare reach_loop.simps [simp del]

definition validate_reachability :: "node_table \<Rightarrow> ready_nodes \<Rightarrow> (graph_compile_error, unit) result" where
  "validate_reachability nodes entries =
     and_then (ok_or (reach_loop nodes [] (ready_list entries)) MissingNodePanic) (\<lambda>reachable.
     case find (\<lambda>n. n \<notin> set reachable) (map fst nodes) of None \<Rightarrow> Inr () | Some n \<Rightarrow> Inl (UnreachableNode n))"

definition boundary_step :: "graph_node \<Rightarrow> node_id list \<Rightarrow> node_id list" where
  "boundary_step node reach =
     (if gn_node_id node \<in> set reach then reach
      else if list_ex (\<lambda>successors. list_ex (\<lambda>s. s \<in> set reach) (ready_list successors)) (successor_sets node)
      then gn_node_id node # reach else reach)"

definition boundary_pass :: "node_table \<Rightarrow> node_id list \<Rightarrow> node_id list" where
  "boundary_pass nodes reach = fold boundary_step (map snd nodes) reach"

lemma boundary_step_cases:
  "boundary_step n reach = reach \<or> boundary_step n reach = gn_node_id n # reach \<and> gn_node_id n \<notin> set reach"
  by (auto simp: boundary_step_def)

lemma boundary_fold_props:
  "\<exists>new. fold boundary_step ns reach = new @ reach \<and> set new \<subseteq> gn_node_id ` set ns \<and> set new \<inter> set reach = {} \<and> distinct new"
proof (induction ns arbitrary: reach)
  case (Cons n ns)
  obtain new where new: "fold boundary_step ns (boundary_step n reach) = new @ boundary_step n reach"
      "set new \<subseteq> gn_node_id ` set ns" "set new \<inter> set (boundary_step n reach) = {}" "distinct new"
    using Cons by blast
  show ?case
  proof (cases "boundary_step n reach = reach")
    case True
    then show ?thesis using new by (intro exI [of _ new]) auto
  next
    case False
    then have "boundary_step n reach = gn_node_id n # reach" "gn_node_id n \<notin> set reach" using boundary_step_cases by blast+
    then show ?thesis using new by (intro exI [of _ "new @ [gn_node_id n]"]) auto
  qed
qed simp

function boundary_loop :: "node_table \<Rightarrow> node_id list \<Rightarrow> node_id list" where
  "boundary_loop nodes reach =
     (let grown = boundary_pass nodes reach
      in if length grown = length reach then grown else boundary_loop nodes grown)"
  by pat_completeness auto
termination
proof (relation "measure (\<lambda>(nodes, reach). card (gn_node_id ` snd ` set nodes - set reach))", goal_cases)
  case (2 nodes reach grown)
  obtain new where new: "grown = new @ reach" "set new \<subseteq> gn_node_id ` snd ` set nodes" "set new \<inter> set reach = {}"
    using boundary_fold_props [of "map snd nodes" reach] 2(1) unfolding boundary_pass_def by (auto simp: image_image)
  have "new \<noteq> []" using 2(2) new(1) by auto
  then obtain n where "n \<in> set new" by (cases new) auto
  then have "gn_node_id ` snd ` set nodes - set grown \<subset> gn_node_id ` snd ` set nodes - set reach" using new by auto
  then show ?case by (simp add: psubset_card_mono)
qed auto

declare boundary_loop.simps [simp del]

definition validate_boundary_paths :: "node_table \<Rightarrow> (graph_compile_error, unit) result" where
  "validate_boundary_paths nodes =
     (let reach = boundary_loop nodes (map gn_node_id (filter is_boundary (map snd nodes)))
      in case find (\<lambda>n. n \<notin> set reach) (map fst nodes) of None \<Rightarrow> Inr () | Some n \<Rightarrow> Inl (NoBoundaryPath n))"

definition validate_compiled_shape ::
  "node_table \<Rightarrow> ready_nodes \<Rightarrow> graph_execution_limits \<Rightarrow> (graph_compile_error, unit) result" where
  "validate_compiled_shape nodes entries limits =
     and_then (reject_if (ready_list entries = []) EmptyEntryNodes) (\<lambda>_.
     and_then (reject_if (length (ready_list entries) > unat (gl_maximum_parallelism limits))
       (ParallelismExceeded None (unat (gl_maximum_parallelism limits)) (length (ready_list entries)))) (\<lambda>_.
     and_then (try_fold (\<lambda>_ e. reject_if (map_of nodes e = None) (MissingEntryNode e)) () (ready_list entries)) (\<lambda>_.
     and_then (try_fold (\<lambda>_ node. validate_node_successors nodes node limits) () (map snd nodes)) (\<lambda>_.
     and_then (validate_reachability nodes entries) (\<lambda>_.
     validate_boundary_paths nodes)))))"

subsection \<open>Compiling\<close>

definition validate_nodes :: "graph_child_run_policy \<Rightarrow> compiled_graph \<Rightarrow> (child_run_policy_error, unit) result" where
  "validate_nodes p g = reject_if (list_ex (\<lambda>d. graph_node_get g (cd_node_id d) = None) (cp_declarations p)) UndeclaredParentNode"

definition graph_build ::
  "'z graph_crypto_scheme \<Rightarrow> capability_identity \<Rightarrow> schema_reference \<Rightarrow> schema_reference \<Rightarrow> schema_reference \<Rightarrow> schema_reference \<Rightarrow>
     graph_reducer_reference \<Rightarrow> ready_nodes \<Rightarrow> graph_node list \<Rightarrow> graph_execution_limits \<Rightarrow> graph_child_run_policy option \<Rightarrow>
     digest option \<Rightarrow> (graph_compile_error, compiled_graph) result" where
  "graph_build x identity input state update_schema output_schema reducer entries nodes limits child_runs supplied =
     and_then (collect_graph_nodes nodes) (\<lambda>by_id.
     and_then (validate_compiled_shape by_id entries limits) (\<lambda>_.
     let graph = \<lparr>cg_identity = identity, cg_input_schema = input, cg_state_schema = state, cg_update_schema = update_schema,
           cg_output_schema = output_schema, cg_reducer = reducer, cg_entry_nodes = entries, cg_nodes = map snd by_id,
           cg_limits = limits, cg_child_runs = child_runs, cg_definition_digest = cr_sha256 x []\<rparr>
     in and_then (case child_runs of None \<Rightarrow> Inr () | Some p \<Rightarrow> map_err ChildPolicy (validate_nodes p graph)) (\<lambda>_.
        and_then (ok_or (canonical_definition_bytes x graph) GraphCanonicalSerialization) (\<lambda>canonical.
        and_then (reject_if (length canonical > MAX_DEFINITION_BYTES) (DefinitionTooLarge MAX_DEFINITION_BYTES (length canonical))) (\<lambda>_.
        and_then (reject_if (supplied \<noteq> None \<and> supplied \<noteq> Some (cr_sha256 x canonical)) GraphDigestMismatch) (\<lambda>_.
        Inr (graph\<lparr>cg_definition_digest := cr_sha256 x canonical\<rparr>)))))))"

definition graph_compile ::
  "'z graph_crypto_scheme \<Rightarrow> capability_identity \<Rightarrow> schema_reference \<Rightarrow> schema_reference \<Rightarrow> schema_reference \<Rightarrow> schema_reference \<Rightarrow>
     graph_reducer_reference \<Rightarrow> ready_nodes \<Rightarrow> graph_node list \<Rightarrow> graph_execution_limits \<Rightarrow>
     (graph_compile_error, compiled_graph) result" where
  "graph_compile x identity input state update_schema output_schema reducer entries nodes limits =
     graph_build x identity input state update_schema output_schema reducer entries nodes limits None None"

definition with_child_runs ::
  "'z graph_crypto_scheme \<Rightarrow> graph_child_run_policy \<Rightarrow> compiled_graph \<Rightarrow> (graph_compile_error, compiled_graph) result" where
  "with_child_runs x p g =
     graph_build x (cg_identity g) (cg_input_schema g) (cg_state_schema g) (cg_update_schema g) (cg_output_schema g) (cg_reducer g)
       (cg_entry_nodes g) (cg_nodes g) (cg_limits g) (Some p) None"

subsection \<open>Delegation targets\<close>

definition agent_reference ::
  "'z graph_crypto_scheme \<Rightarrow> agent_descriptor \<Rightarrow> (child_run_policy_error, child_agent_reference) result" where
  "agent_reference x a =
     and_then (domain_digest x (''stateknot.child-agent-definition.v1'' @ [CHR 0x00]) (cr_agent x a) AgentEncoding) (\<lambda>digest.
     Inr \<lparr>ca_identity = ad_identity a, ca_definition_digest = digest\<rparr>)"

definition declaration_new ::
  "'z graph_crypto_scheme \<Rightarrow> node_id \<Rightarrow> child_run_slot \<Rightarrow> agent_descriptor \<Rightarrow> compiled_graph \<Rightarrow>
     (child_run_policy_error, child_run_declaration) result" where
  "declaration_new x n slot a g =
     and_then (reject_if (ad_input_schema a \<noteq> cg_input_schema g \<or> ad_output_schema a \<noteq> cg_output_schema g) TargetSchemaMismatch) (\<lambda>_.
     and_then (agent_reference x a) (\<lambda>agent.
     Inr \<lparr>cd_node_id = n, cd_slot = slot, cd_agent = agent, cd_graph = compiled_reference g,
          cd_input_schema = ad_input_schema a, cd_output_schema = ad_output_schema a\<rparr>))"

definition descendant_depth :: "compiled_graph \<Rightarrow> u16" where
  "descendant_depth g = (case cg_child_runs g of None \<Rightarrow> 0 | Some p \<Rightarrow> cl_maximum_descendant_depth (cp_limits p))"

definition validate_target ::
  "child_run_declaration \<Rightarrow> compiled_graph \<Rightarrow> child_run_topology_limits \<Rightarrow> (child_run_policy_error, unit) result" where
  "validate_target d target limits =
     reject_first
       [(compiled_reference target \<noteq> cd_graph d, TargetGraphMismatch),
        (cg_input_schema target \<noteq> cd_input_schema d \<or> cg_output_schema target \<noteq> cd_output_schema d, TargetSchemaMismatch),
        (descendant_depth target \<ge> cl_maximum_descendant_depth limits, DepthNotNarrowed)]"

end
