(* ===== verification/GraphPaths.thy ===== *)
theory GraphPaths
  imports Graph
begin

text \<open>
  What the graph compiler of \<open>Graph\<close> accepts: the breadth-first search finds exactly the nodes on a path
  from an entry, the boundary iteration exactly the nodes with a path to a wait or an end, and so a
  definition compiles exactly when it is a well-formed connected graph. Delegation between graphs is
  bounded by the declared depth.
\<close>

section \<open>Edges and paths\<close>

definition node_edge :: "graph_node set \<Rightarrow> node_id \<Rightarrow> node_id \<Rightarrow> bool" where
  "node_edge ns a b \<longleftrightarrow> (\<exists>n\<in>ns. gn_node_id n = a \<and> (\<exists>s\<in>set (successor_sets n). b \<in> set (ready_list s)))"

text \<open>The table of a graph: every node under its own identity, ascending.\<close>

definition table_of :: "graph_node list \<Rightarrow> node_table" where
  "table_of ns = map (\<lambda>n. (gn_node_id n, n)) (sort_key gn_node_id ns)"

lemma table_of_simps [simp]:
  "fst ` set (table_of ns) = gn_node_id ` set ns"
  "snd ` set (table_of ns) = set ns"
  "map fst (table_of ns) = map gn_node_id (sort_key gn_node_id ns)"
  "map snd (table_of ns) = sort_key gn_node_id ns"
  by (auto simp: table_of_def image_image comp_def)

lemma map_of_table:
  assumes "distinct (map gn_node_id ns)"
  shows "map_of (table_of ns) a = Some n \<longleftrightarrow> n \<in> set ns \<and> gn_node_id n = a"
proof -
  have "distinct (map fst (table_of ns))" using assms by (simp add: distinct_map)
  then have "map_of (table_of ns) a = Some n \<longleftrightarrow> (a, n) \<in> set (table_of ns)" by simp
  also have "\<dots> \<longleftrightarrow> n \<in> set ns \<and> gn_node_id n = a" by (auto simp: table_of_def)
  finally show ?thesis .
qed

lemma map_of_table_None: "map_of (table_of ns) a = None \<longleftrightarrow> a \<notin> gn_node_id ` set ns"
  by (simp add: map_of_eq_None_iff)

lemma bt_sorted_table: "distinct (map gn_node_id ns) \<Longrightarrow> bt_sorted (table_of ns)"
  by (simp add: strict_sorted_iff distinct_map)

lemma successors_are_edges:
  assumes "distinct (map gn_node_id ns)" and "map_of (table_of ns) a = Some n"
  shows "set (concat (map ready_list (successor_sets n))) = {b. node_edge (set ns) a b}"
proof -
  have n: "n \<in> set ns" "gn_node_id n = a" using assms map_of_table by blast+
  have "m = n" if "m \<in> set ns" "gn_node_id m = a" for m
    using assms that map_of_table [OF assms(1), of a m] by simp
  then have "node_edge (set ns) a b \<longleftrightarrow> (\<exists>s\<in>set (successor_sets n). b \<in> set (ready_list s))" for b
    unfolding node_edge_def using n by blast
  then show ?thesis by auto
qed

lemma reach_loop_exact:
  assumes "distinct (map gn_node_id ns)" and "\<And>a b. node_edge (set ns) a b \<Longrightarrow> b \<in> gn_node_id ` set ns"
  shows "set queue \<subseteq> gn_node_id ` set ns \<Longrightarrow>
    (\<And>a b. a \<in> set reachable \<Longrightarrow> node_edge (set ns) a b \<Longrightarrow> b \<in> set reachable \<union> set queue) \<Longrightarrow>
    \<exists>out. reach_loop (table_of ns) reachable queue = Some out \<and>
      set out = {b. \<exists>a\<in>set reachable \<union> set queue. (node_edge (set ns))\<^sup>*\<^sup>* a b}"
proof (induction "table_of ns" reachable queue rule: reach_loop.induct)
  case (1 reachable queue)
  let ?E = "node_edge (set ns)"
  show ?case
  proof (cases queue)
    case Nil
    have "b \<in> set reachable" if "?E\<^sup>*\<^sup>* a b" "a \<in> set reachable" for a b
      using that
    proof (induction rule: rtranclp_induct)
      case (step y z)
      then show ?case using "1.prems"(2) [of y z] Nil by simp
    qed
    then have "{b. \<exists>a\<in>set reachable \<union> set queue. ?E\<^sup>*\<^sup>* a b} = set reachable" using Nil by auto
    then show ?thesis using Nil by (simp add: reach_loop.simps)
  next
    case (Cons n rest)
    show ?thesis
    proof (cases "n \<in> set reachable")
      case True
      then have e: "set reachable \<union> set rest = set reachable \<union> set queue" using Cons by auto
      have "\<exists>out. reach_loop (table_of ns) reachable rest = Some out \<and>
          set out = {b. \<exists>a\<in>set reachable \<union> set rest. ?E\<^sup>*\<^sup>* a b}"
      proof (rule "1.hyps"(1) [OF Cons True])
        show "set rest \<subseteq> gn_node_id ` set ns" using "1.prems"(1) Cons by simp
        show "b \<in> set reachable \<union> set rest" if "a \<in> set reachable" "?E a b" for a b
          unfolding e using "1.prems"(2) [OF that] .
      qed
      moreover have "reach_loop (table_of ns) reachable queue = reach_loop (table_of ns) reachable rest"
        using Cons True by (subst reach_loop.simps) simp
      ultimately show ?thesis unfolding e by simp
    next
      case False
      obtain node where node: "map_of (table_of ns) n = Some node"
        using "1.prems"(1) Cons map_of_table_None [of ns n] by auto
      let ?S = "concat (map ready_list (successor_sets node))"
      have succ: "set ?S = {b. ?E n b}" using successors_are_edges [OF assms(1) node] .
      have "\<exists>out. reach_loop (table_of ns) (n # reachable) (rest @ ?S) = Some out \<and>
          set out = {b. \<exists>a\<in>set (n # reachable) \<union> set (rest @ ?S). ?E\<^sup>*\<^sup>* a b}"
      proof (rule "1.hyps"(2) [OF Cons False node])
        show "set (rest @ ?S) \<subseteq> gn_node_id ` set ns"
          unfolding set_append succ using "1.prems"(1) Cons assms(2) by fastforce
        show "b \<in> set (n # reachable) \<union> set (rest @ ?S)" if "a \<in> set (n # reachable)" "?E a b" for a b
          unfolding set_append succ using that "1.prems"(2) [of a b] Cons by fastforce
      qed
      moreover have "{b. \<exists>a\<in>set (n # reachable) \<union> set (rest @ ?S). ?E\<^sup>*\<^sup>* a b} =
          {b. \<exists>a\<in>set reachable \<union> set queue. ?E\<^sup>*\<^sup>* a b}"
        unfolding set_append succ using Cons by (fastforce intro: converse_rtranclp_into_rtranclp)
      moreover have "reach_loop (table_of ns) reachable queue = reach_loop (table_of ns) (n # reachable) (rest @ ?S)"
        using Cons False node by (subst reach_loop.simps) simp
      ultimately show ?thesis by simp
    qed
  qed
qed

lemma find_None_list: "(case find P xs of None \<Rightarrow> Inr () | Some y \<Rightarrow> Inl (f y)) = Inr u \<longleftrightarrow> (\<forall>y\<in>set xs. \<not> P y)"
  by (auto simp: find_None_iff split: option.splits) (metis find_None_iff option.distinct(1))

lemma validate_reachability_iff:
  assumes "distinct (map gn_node_id ns)" and "\<And>a b. node_edge (set ns) a b \<Longrightarrow> b \<in> gn_node_id ` set ns"
    and "set (ready_list entries) \<subseteq> gn_node_id ` set ns"
  shows "validate_reachability (table_of ns) entries = Inr u \<longleftrightarrow>
    (\<forall>n\<in>set ns. \<exists>e\<in>set (ready_list entries). (node_edge (set ns))\<^sup>*\<^sup>* e (gn_node_id n))"
proof -
  obtain out where out: "reach_loop (table_of ns) [] (ready_list entries) = Some out"
      "set out = {b. \<exists>a\<in>set (ready_list entries). (node_edge (set ns))\<^sup>*\<^sup>* a b}"
    using reach_loop_exact [where reachable = "[]", OF assms(1) _ assms(3)] assms(2) by auto
  show ?thesis unfolding validate_reachability_def out(1)
    by (simp add: find_None_list out(2))
qed

section \<open>Boundary paths\<close>

lemma boundary_fold_fixed:
  "fold boundary_step ns reach = reach \<Longrightarrow> n \<in> set ns \<Longrightarrow> boundary_step n reach = reach"
proof (induction ns)
  case (Cons m ns)
  obtain new where "fold boundary_step ns (boundary_step m reach) = new @ boundary_step m reach"
    using boundary_fold_props by blast
  then have "length new + length (boundary_step m reach) = length reach"
    using Cons.prems(1) by (metis fold_simps(2) length_append)
  moreover have "boundary_step m reach = reach \<or> length (boundary_step m reach) = Suc (length reach)"
    using boundary_step_cases [of m reach] by auto
  ultimately have m: "boundary_step m reach = reach" by auto
  then show ?case using Cons.IH Cons.prems by (metis fold_simps(2) set_ConsD)
qed simp

lemma boundary_fold_sound:
  assumes "\<And>n s b. n \<in> set ns \<Longrightarrow> s \<in> set (successor_sets n) \<Longrightarrow> b \<in> set (ready_list s) \<Longrightarrow> P b \<Longrightarrow> P (gn_node_id n)"
    and "\<forall>b\<in>set reach. P b"
  shows "\<forall>b\<in>set (fold boundary_step ns reach). P b"
  using assms
proof (induction ns arbitrary: reach)
  case (Cons n ns)
  have "\<forall>b\<in>set (boundary_step n reach). P b"
  proof (cases "boundary_step n reach = reach")
    case False
    then obtain s b where "s \<in> set (successor_sets n)" "b \<in> set (ready_list s)" "b \<in> set reach"
      unfolding boundary_step_def list_ex_iff by meson
    then have "P (gn_node_id n)" using Cons.prems(1) [of n s b] Cons.prems(2) by simp
    moreover have "boundary_step n reach = gn_node_id n # reach" using False boundary_step_cases by blast
    ultimately show ?thesis using Cons.prems(2) by simp
  next
    case True
    then show ?thesis using Cons.prems(2) by simp
  qed
  then have "\<forall>b\<in>set (fold boundary_step ns (boundary_step n reach)). P b"
    by (intro Cons.IH) (rule Cons.prems(1), auto)
  then show ?case by simp
qed simp

definition reaches_boundary :: "graph_node set \<Rightarrow> node_id \<Rightarrow> bool" where
  "reaches_boundary ns a \<longleftrightarrow> (\<exists>b\<in>ns. is_boundary b \<and> (node_edge ns)\<^sup>*\<^sup>* a (gn_node_id b))"

lemma boundary_loop_exact:
  assumes "distinct (map gn_node_id ns)"
    and "gn_node_id ` {n \<in> set ns. is_boundary n} \<subseteq> set reach" and "\<forall>b\<in>set reach. reaches_boundary (set ns) b"
  shows "n \<in> set ns \<Longrightarrow> gn_node_id n \<in> set (boundary_loop (table_of ns) reach) \<longleftrightarrow> reaches_boundary (set ns) (gn_node_id n)"
  using assms(2,3)
proof (induction "table_of ns" reach rule: boundary_loop.induct)
  case (1 reach)
  let ?out = "boundary_pass (table_of ns) reach"
  obtain new where new: "?out = new @ reach" using boundary_fold_props unfolding boundary_pass_def by blast
  have sound: "\<forall>b\<in>set ?out. reaches_boundary (set ns) b"
    unfolding boundary_pass_def
  proof (rule boundary_fold_sound [OF _ "1.prems"(3)])
    fix n s b
    assume a: "n \<in> set (map snd (table_of ns))" "s \<in> set (successor_sets n)" "b \<in> set (ready_list s)"
      and b: "reaches_boundary (set ns) b"
    have "node_edge (set ns) (gn_node_id n) b" using a by (auto simp: node_edge_def)
    then show "reaches_boundary (set ns) (gn_node_id n)"
      using b unfolding reaches_boundary_def by (meson converse_rtranclp_into_rtranclp)
  qed
  show ?case
  proof (cases "length ?out = length reach")
    case False
    have "gn_node_id n \<in> set (boundary_loop (table_of ns) ?out) \<longleftrightarrow> reaches_boundary (set ns) (gn_node_id n)"
      using "1.prems"(2) new sound by (intro "1.hyps" [OF refl False "1.prems"(1)]) auto
    then show ?thesis using False by (subst boundary_loop.simps) (simp add: Let_def)
  next
    case True
    then have fixed: "?out = reach" using new by simp
    have step: "a \<in> set reach" if edge: "node_edge (set ns) a b" and b: "b \<in> set reach" for a b
    proof -
      obtain m s where m: "m \<in> set ns" "gn_node_id m = a" "s \<in> set (successor_sets m)" "b \<in> set (ready_list s)"
        using edge unfolding node_edge_def by blast
      have "boundary_step m reach = reach"
        using boundary_fold_fixed [of "map snd (table_of ns)" reach m] fixed m(1) by (simp add: boundary_pass_def)
      then show ?thesis using m b by (auto simp: boundary_step_def list_ex_iff split: if_splits)
    qed
    have "a \<in> set reach" if "(node_edge (set ns))\<^sup>*\<^sup>* a c" "c \<in> set reach" for a c
      using that by (induction rule: converse_rtranclp_induct) (auto intro: step)
    then have "gn_node_id n \<in> set reach" if "reaches_boundary (set ns) (gn_node_id n)"
      using that "1.prems"(2) unfolding reaches_boundary_def by blast
    then have "gn_node_id n \<in> set reach \<longleftrightarrow> reaches_boundary (set ns) (gn_node_id n)" using "1.prems"(3) by blast
    then show ?thesis using True fixed by (subst boundary_loop.simps) (simp add: Let_def)
  qed
qed

lemma validate_boundary_paths_iff:
  assumes "distinct (map gn_node_id ns)"
  shows "validate_boundary_paths (table_of ns) = Inr u \<longleftrightarrow> (\<forall>n\<in>set ns. reaches_boundary (set ns) (gn_node_id n))"
proof -
  let ?start = "map gn_node_id (filter is_boundary (map snd (table_of ns)))"
  have "gn_node_id n \<in> set (boundary_loop (table_of ns) ?start) \<longleftrightarrow> reaches_boundary (set ns) (gn_node_id n)"
    if "n \<in> set ns" for n
    using that by (intro boundary_loop_exact assms) (auto simp: reaches_boundary_def)
  then show ?thesis by (simp add: validate_boundary_paths_def Let_def find_None_list)
qed

section \<open>Collecting nodes and routes\<close>

abbreviation route_ids :: "graph_node \<Rightarrow> route_id list" where
  "route_ids n \<equiv> map gt_route_id (routes_list (gn_routes n))"

lemma own_route_Inr_iff:
  "own_route n owners r = Inr out \<longleftrightarrow>
     gt_route_id r \<notin> fst ` set owners \<and> out = bt_insert (gt_route_id r) n owners"
  by (auto simp: own_route_def map_of_eq_None_iff split: option.splits dest: map_of_SomeD)
    (metis fst_conv image_eqI map_of_SomeD)

lemma own_routes_iff:
  "(\<exists>out. try_fold (own_route n) owners rs = Inr out) \<longleftrightarrow>
     distinct (map gt_route_id rs) \<and> gt_route_id ` set rs \<inter> fst ` set owners = {}"
proof (induction rs arbitrary: owners)
  case (Cons r rs)
  have "(\<exists>out. try_fold (own_route n) owners (r # rs) = Inr out) \<longleftrightarrow> gt_route_id r \<notin> fst ` set owners \<and>
      (\<exists>out. try_fold (own_route n) (bt_insert (gt_route_id r) n owners) rs = Inr out)"
    by (simp add: own_route_Inr_iff and_then_Inr_iff)
  then show ?case unfolding Cons.IH by auto
qed simp

lemma own_routes_keys:
  "try_fold (own_route n) owners rs = Inr out \<Longrightarrow> fst ` set out = gt_route_id ` set rs \<union> fst ` set owners"
proof (induction rs arbitrary: owners)
  case (Cons r rs)
  then have "try_fold (own_route n) (bt_insert (gt_route_id r) n owners) rs = Inr out"
    by (simp add: own_route_Inr_iff and_then_Inr_iff)
  then show ?case using Cons.IH [of "bt_insert (gt_route_id r) n owners"] by auto
qed simp

lemma add_node_iff:
  "(\<exists>out. add_node (by_id, k, owners) n = Inr out) \<longleftrightarrow>
     length by_id \<noteq> MAX_NODES \<and> k + length (route_ids n) \<le> MAX_ROUTES \<and> distinct (route_ids n) \<and>
     set (route_ids n) \<inter> fst ` set owners = {} \<and> gn_node_id n \<notin> fst ` set by_id"
proof -
  have "MAX_ROUTES < 2 ^ 64" by (simp add: MAX_ROUTES_def MAX_NODES_def READY_MAX_LEN_def ROUTES_MAX_LEN_def)
  then show ?thesis
    using own_routes_iff [of "gn_node_id n" owners "routes_list (gn_routes n)"]
    by (auto simp: add_node_def Let_def result_simps map_of_eq_None_iff)
qed

lemma add_node_fields:
  assumes "add_node (by_id, k, owners) n = Inr out"
  shows "\<exists>owners'. out = (bt_insert (gn_node_id n) n by_id, k + length (route_ids n), owners') \<and>
    fst ` set owners' = set (route_ids n) \<union> fst ` set owners \<and> gn_node_id n \<notin> fst ` set by_id"
  using assms own_routes_keys by (fastforce simp: add_node_def Let_def result_simps map_of_eq_None_iff)

definition fits :: "node_table \<Rightarrow> nat \<Rightarrow> (route_id \<times> node_id) list \<Rightarrow> node_id list \<Rightarrow> route_id list \<Rightarrow> bool" where
  "fits by_id k owners ids rs \<longleftrightarrow>
     length by_id + length ids \<le> MAX_NODES \<and> k + length rs \<le> MAX_ROUTES \<and>
     distinct rs \<and> set rs \<inter> fst ` set owners = {} \<and> distinct ids \<and> set ids \<inter> fst ` set by_id = {}"

lemma fits_Cons:
  assumes "i \<notin> fst ` set by_id" and "fst ` set owners' = set r \<union> fst ` set owners"
    and "distinct r" and "set r \<inter> fst ` set owners = {}"
  shows "fits by_id k owners (i # ids) (r @ rs) \<longleftrightarrow> fits (bt_insert i v by_id) (k + length r) owners' ids rs"
  unfolding fits_def fst_set_bt_insert assms(2) using assms(1,3,4) length_bt_insert_fresh [OF assms(1)]
  by (simp add: Int_Un_distrib Int_Un_distrib2 add.assoc) blast

lemma try_fold_add_node:
  assumes "length by_id \<le> MAX_NODES" and "k \<le> MAX_ROUTES"
  shows "(\<exists>out. try_fold add_node (by_id, k, owners) ns = Inr out) \<longleftrightarrow>
    fits by_id k owners (map gn_node_id ns) (concat (map route_ids ns))"
  using assms
proof (induction ns arbitrary: by_id k owners)
  case (Cons n ns)
  show ?case
  proof (cases "\<exists>out. add_node (by_id, k, owners) n = Inr out")
    case False
    then have "\<nexists>out. try_fold add_node (by_id, k, owners) (n # ns) = Inr out" by (auto simp: and_then_Inr_iff)
    moreover have "\<not> fits by_id k owners (gn_node_id n # map gn_node_id ns) (route_ids n @ concat (map route_ids ns))"
      using False unfolding add_node_iff fits_def by (auto simp: Int_Un_distrib2)
    ultimately show ?thesis by simp
  next
    case True
    then obtain owners' where o: "add_node (by_id, k, owners) n =
        Inr (bt_insert (gn_node_id n) n by_id, k + length (route_ids n), owners')"
        "fst ` set owners' = set (route_ids n) \<union> fst ` set owners"
      using add_node_fields by blast
    note a = True [unfolded add_node_iff]
    have "(\<exists>out. try_fold add_node (by_id, k, owners) (n # ns) = Inr out) \<longleftrightarrow>
        (\<exists>out. try_fold add_node (bt_insert (gn_node_id n) n by_id, k + length (route_ids n), owners') ns = Inr out)"
      by (simp add: o(1))
    also have "\<dots> \<longleftrightarrow> fits (bt_insert (gn_node_id n) n by_id) (k + length (route_ids n)) owners'
        (map gn_node_id ns) (concat (map route_ids ns))"
      using a Cons.prems by (intro Cons.IH) (simp_all add: length_bt_insert_fresh)
    finally show ?thesis using fits_Cons [of "gn_node_id n" by_id owners' "route_ids n" owners k] a o(2) by simp
  qed
qed (simp add: fits_def)

lemma try_fold_add_node_table:
  "try_fold add_node (by_id, k, owners) ns = Inr (out, c, w) \<Longrightarrow> out = index_by gn_node_id ns by_id"
proof (induction ns arbitrary: by_id k owners)
  case (Cons n ns)
  then obtain t where t: "add_node (by_id, k, owners) n = Inr t" "try_fold add_node t ns = Inr (out, c, w)"
    by (auto simp: result_simps)
  then show ?case using add_node_fields [OF t(1)] Cons.IH by auto
qed simp

lemma collect_graph_nodes_iff:
  "collect_graph_nodes ns = Inr t \<longleftrightarrow>
     ns \<noteq> [] \<and> length ns \<le> MAX_NODES \<and> distinct (map gn_node_id ns) \<and>
     length (concat (map route_ids ns)) \<le> MAX_ROUTES \<and> distinct (concat (map route_ids ns)) \<and> t = table_of ns"
  (is "_ \<longleftrightarrow> ?R")
proof -
  have ex: "(\<exists>out. try_fold add_node ([], 0, []) ns = Inr out) \<longleftrightarrow>
      length ns \<le> MAX_NODES \<and> length (concat (map route_ids ns)) \<le> MAX_ROUTES \<and>
      distinct (concat (map route_ids ns)) \<and> distinct (map gn_node_id ns)"
    using try_fold_add_node [of "[]" 0 "[]" ns] by (simp add: fits_def)
  have table: "table_of ns = [] \<longleftrightarrow> ns = []" by (metis table_of_simps(2) set_empty image_is_empty)
  show ?thesis
  proof (cases "\<exists>out. try_fold add_node ([], 0, []) ns = Inr out")
    case False
    then have "collect_graph_nodes ns \<noteq> Inr t" by (auto simp: collect_graph_nodes_def result_simps)
    then show ?thesis using False ex by blast
  next
    case True
    then obtain m c w where o: "try_fold add_node ([], 0, []) ns = Inr (m, c, w)" by auto
    have "distinct (map gn_node_id ns)" using True ex by blast
    then have "m = table_of ns"
      unfolding table_of_def try_fold_add_node_table [OF o] by (rule index_by_is_sort)
    then show ?thesis using o True ex table by (auto simp: collect_graph_nodes_def result_simps)
  qed
qed

section \<open>What compiles\<close>

text \<open>The definition of a graph the runtime can execute: bounded, closed, connected, and never without an end.\<close>

definition sound_graph :: "graph_node list \<Rightarrow> ready_nodes \<Rightarrow> graph_execution_limits \<Rightarrow> bool" where
  "sound_graph ns entries limits \<longleftrightarrow>
     (ns \<noteq> [] \<and> length ns \<le> MAX_NODES \<and> distinct (map gn_node_id ns)) \<and>
     (length (concat (map route_ids ns)) \<le> MAX_ROUTES \<and> distinct (concat (map route_ids ns))) \<and>
     (ready_list entries \<noteq> [] \<and> length (ready_list entries) \<le> unat (gl_maximum_parallelism limits) \<and>
      set (ready_list entries) \<subseteq> gn_node_id ` set ns) \<and>
     (\<forall>n\<in>set ns. \<forall>s\<in>set (successor_sets n).
        length (ready_list s) \<le> unat (gl_maximum_parallelism limits) \<and> set (ready_list s) \<subseteq> gn_node_id ` set ns) \<and>
     (\<forall>n\<in>set ns. \<exists>e\<in>set (ready_list entries). (node_edge (set ns))\<^sup>*\<^sup>* e (gn_node_id n)) \<and>
     (\<forall>n\<in>set ns. reaches_boundary (set ns) (gn_node_id n))"

lemma reject_if_unit_iff: "reject_if c e = Inr u \<longleftrightarrow> \<not> c"
  by (auto simp: reject_if_def)

lemma validate_node_successors_iff:
  "validate_node_successors (table_of ns) n limits = Inr u \<longleftrightarrow>
     (\<forall>s\<in>set (successor_sets n).
        length (ready_list s) \<le> unat (gl_maximum_parallelism limits) \<and> set (ready_list s) \<subseteq> gn_node_id ` set ns)"
  by (auto simp: validate_node_successors_def check_successor_def try_fold_check reject_if_unit_iff and_then_Inr_iff
      map_of_table_None not_less)

lemma validate_compiled_shape_iff:
  assumes "distinct (map gn_node_id ns)"
  shows "validate_compiled_shape (table_of ns) entries limits = Inr u \<longleftrightarrow>
    (ready_list entries \<noteq> [] \<and> length (ready_list entries) \<le> unat (gl_maximum_parallelism limits) \<and>
      set (ready_list entries) \<subseteq> gn_node_id ` set ns) \<and>
     (\<forall>n\<in>set ns. \<forall>s\<in>set (successor_sets n).
        length (ready_list s) \<le> unat (gl_maximum_parallelism limits) \<and> set (ready_list s) \<subseteq> gn_node_id ` set ns) \<and>
     (\<forall>n\<in>set ns. \<exists>e\<in>set (ready_list entries). (node_edge (set ns))\<^sup>*\<^sup>* e (gn_node_id n)) \<and>
     (\<forall>n\<in>set ns. reaches_boundary (set ns) (gn_node_id n))"
  (is "_ \<longleftrightarrow> ?E \<and> ?S \<and> ?R \<and> ?B")
proof -
  have local: "try_fold (\<lambda>_ e. reject_if (map_of (table_of ns) e = None) (MissingEntryNode e)) () (ready_list entries) = Inr v \<longleftrightarrow>
      set (ready_list entries) \<subseteq> gn_node_id ` set ns" for v
    by (auto simp: try_fold_check reject_if_unit_iff map_of_table_None)
  have succ: "try_fold (\<lambda>_ node. validate_node_successors (table_of ns) node limits) () (map snd (table_of ns)) = Inr v \<longleftrightarrow> ?S" for v
    by (simp add: try_fold_check validate_node_successors_iff)
  have "validate_compiled_shape (table_of ns) entries limits = Inr u \<longleftrightarrow> ?E \<and> ?S \<and>
      validate_reachability (table_of ns) entries = Inr () \<and> validate_boundary_paths (table_of ns) = Inr u"
    unfolding validate_compiled_shape_def
    by (simp only: and_then_Inr_iff reject_if_unit_iff local succ not_less) auto
  moreover have "validate_reachability (table_of ns) entries = Inr () \<longleftrightarrow> ?R" if "?E" "?S"
    using that by (intro validate_reachability_iff assms) (auto simp: node_edge_def)
  ultimately show ?thesis using validate_boundary_paths_iff [OF assms, of u] by blast
qed

definition compiled_from ::
  "capability_identity \<Rightarrow> schema_reference \<Rightarrow> schema_reference \<Rightarrow> schema_reference \<Rightarrow> schema_reference \<Rightarrow>
     graph_reducer_reference \<Rightarrow> ready_nodes \<Rightarrow> graph_node list \<Rightarrow> graph_execution_limits \<Rightarrow> digest \<Rightarrow> compiled_graph" where
  "compiled_from identity input state update_schema output_schema reducer entries ns limits digest =
     \<lparr>cg_identity = identity, cg_input_schema = input, cg_state_schema = state, cg_update_schema = update_schema,
      cg_output_schema = output_schema, cg_reducer = reducer, cg_entry_nodes = entries,
      cg_nodes = sort_key gn_node_id ns, cg_limits = limits, cg_child_runs = None, cg_definition_digest = digest\<rparr>"

text \<open>Acceptance, shared by the runs of a graph.\<close>

lemma graph_compile_iff:
  "graph_compile x identity input state update_schema output_schema reducer entries ns limits = Inr g \<longleftrightarrow>
     sound_graph ns entries limits \<and>
     (\<exists>bytes. cr_graph x (GraphDefinitionDigestWire identity input state update_schema output_schema reducer entries
          (sort_key gn_node_id ns) limits None) = Some bytes \<and> length bytes \<le> MAX_DEFINITION_BYTES \<and>
        g = compiled_from identity input state update_schema output_schema reducer entries ns limits (cr_sha256 x bytes))"
proof (cases "distinct (map gn_node_id ns)")
  case True
  then show ?thesis
    by (simp add: graph_compile_def graph_build_def Let_def and_then_Inr_iff collect_graph_nodes_iff
        validate_compiled_shape_iff reject_if_unit_iff ok_or_Inr_iff canonical_definition_bytes_def
        sound_graph_def compiled_from_def not_less) blast
next
  case False
  then show ?thesis
    by (simp add: graph_compile_def graph_build_def and_then_Inr_iff collect_graph_nodes_iff sound_graph_def)
qed

text \<open>
  C8. The graph compiler accepts a definition exactly when it is a sound graph: between one and 1024
  distinct nodes, routes distinct across the graph, entries and every successor set declared and within
  the parallelism limit, every node on a path from an entry, every node with a path to a wait or an
  end, and a canonical form of at most two mebibytes. The result lists the nodes by identity and carries the
  digest of that form. In particular the two searches of the compiler always end.
\<close>

theorem graph_compile_exact:
  "graph_compile x identity input state update_schema output_schema reducer entries ns limits = Inr g \<longleftrightarrow>
     sound_graph ns entries limits \<and>
     (\<exists>bytes. cr_graph x (GraphDefinitionDigestWire identity input state update_schema output_schema reducer entries
          (sort_key gn_node_id ns) limits None) = Some bytes \<and> length bytes \<le> MAX_DEFINITION_BYTES \<and>
        g = compiled_from identity input state update_schema output_schema reducer entries ns limits (cr_sha256 x bytes))"
  by (rule graph_compile_iff)

section \<open>Delegation\<close>

text \<open>\<open>delegates g h\<close>: a declaration of \<open>g\<close> accepts the compiled graph \<open>h\<close> as its target.\<close>

definition delegates :: "compiled_graph \<Rightarrow> compiled_graph \<Rightarrow> bool" where
  "delegates g h \<longleftrightarrow> (\<exists>p d. cg_child_runs g = Some p \<and> d \<in> set (cp_declarations p) \<and> validate_target d h (cp_limits p) = Inr ())"

lemma delegates_narrows: "delegates g h \<Longrightarrow> descendant_depth h < descendant_depth g"
  by (auto simp: delegates_def validate_target_def descendant_depth_def result_simps)

lemma chain_depth:
  "successively delegates (g # gs) \<Longrightarrow> unat (descendant_depth (last (g # gs))) + length gs \<le> unat (descendant_depth g)"
proof (induction gs arbitrary: g)
  case (Cons h gs)
  then have "unat (descendant_depth h) < unat (descendant_depth g)" using delegates_narrows by (simp add: word_less_nat_alt)
  moreover have "unat (descendant_depth (last (h # gs))) + length gs \<le> unat (descendant_depth h)"
    using Cons by simp
  ultimately show ?case by simp
qed simp

lemma chain_narrows:
  "successively delegates (g # gs) \<Longrightarrow> \<forall>h\<in>set gs. descendant_depth h < descendant_depth g"
proof (induction gs arbitrary: g)
  case (Cons h gs)
  then have "descendant_depth h < descendant_depth g" "\<forall>k\<in>set gs. descendant_depth k < descendant_depth h"
    using delegates_narrows by auto
  then show ?case by auto
qed simp

lemma chain_distinct: "successively delegates gs \<Longrightarrow> distinct gs"
proof (induction gs)
  case (Cons g gs)
  have "\<forall>h\<in>set gs. descendant_depth h < descendant_depth g" using chain_narrows [OF Cons.prems] .
  moreover have "successively delegates gs" using Cons.prems by (cases gs) auto
  ultimately show ?case using Cons.IH by auto
qed simp

text \<open>
  C38. Delegation between graphs always bottoms out: along any chain in which every graph declares the
  next as a child target that passes validation, no graph occurs twice, and below a graph whose policy
  was built with descendant depth \<open>d\<close> there are at most \<open>d\<close> further graphs, so at most 32.
\<close>

theorem delegation_bounded:
  assumes "cg_child_runs g = Some p" and "topology_limits_new d c a = Inr (cp_limits p)"
    and "successively delegates (g # gs)"
  shows "distinct (g # gs) \<and> length gs \<le> unat d \<and> length gs \<le> CHILD_MAX_DEPTH"
proof -
  have "cl_maximum_descendant_depth (cp_limits p) = d \<and> unat d \<le> CHILD_MAX_DEPTH"
    using assms(2) by (cases "cp_limits p") (auto simp: topology_limits_new_def result_simps)
  then have d: "descendant_depth g = d" "unat d \<le> CHILD_MAX_DEPTH" using assms(1) by (simp_all add: descendant_depth_def)
  have "length gs \<le> unat d" using chain_depth [OF assms(3)] d(1) by simp
  then show ?thesis using chain_distinct [OF assms(3)] d(2) by simp
qed

definition sample_policy :: "u16 \<Rightarrow> compiled_graph \<Rightarrow> graph_child_run_policy" where
  "sample_policy d h =
     \<lparr>cp_version = 1,
      cp_limits = \<lparr>cl_maximum_descendant_depth = d, cl_maximum_children_per_run = 1, cl_maximum_active_descendants = 1\<rparr>,
      cp_declarations = [\<lparr>cd_node_id = NodeId ''start'', cd_slot = ''slot'',
        cd_agent = \<lparr>ca_identity = gr_identity sample_graph, ca_definition_digest = Sha256 ''agent''\<rparr>,
        cd_graph = compiled_reference h, cd_input_schema = cg_input_schema h, cd_output_schema = cg_output_schema h\<rparr>]\<rparr>"

definition sample_compiled :: "graph_child_run_policy option \<Rightarrow> string \<Rightarrow> compiled_graph" where
  "sample_compiled p digest =
     \<lparr>cg_identity = gr_identity sample_graph, cg_input_schema = sample_schema, cg_state_schema = sample_schema,
      cg_update_schema = sample_schema, cg_output_schema = sample_schema,
      cg_reducer = \<lparr>gd_identity = gr_identity sample_graph, gd_definition_digest = Sha256 ''reducer''\<rparr>,
      cg_entry_nodes = ReadyNodes [NodeId ''start''],
      cg_nodes = [\<lparr>gn_node_id = NodeId ''start'', gn_continue_to = None, gn_routes = GraphRoutes [], gn_wait_to = None,
        gn_terminal = True\<rparr>],
      cg_limits = \<lparr>gl_maximum_supersteps = Superstep 4, gl_maximum_parallelism = 2\<rparr>,
      cg_child_runs = p, cg_definition_digest = Sha256 digest\<rparr>"

definition sample_leaf :: compiled_graph where "sample_leaf = sample_compiled None ''leaf''"
definition sample_middle :: compiled_graph where "sample_middle = sample_compiled (Some (sample_policy 1 sample_leaf)) ''middle''"
definition sample_top :: compiled_graph where "sample_top = sample_compiled (Some (sample_policy 2 sample_middle)) ''top''"

lemma delegates_sample:
  "descendant_depth h < d \<Longrightarrow> delegates (sample_compiled (Some (sample_policy d h)) s) h"
  by (simp add: delegates_def sample_compiled_def sample_policy_def validate_target_def result_simps)

theorem delegation_bounded_witness:
  "distinct [sample_top, sample_middle, sample_leaf] \<and> length [sample_middle, sample_leaf] \<le> unat (2 :: u16)"
proof -
  have "delegates sample_middle sample_leaf" unfolding sample_middle_def
    by (rule delegates_sample) (simp add: sample_leaf_def sample_compiled_def descendant_depth_def)
  moreover have "delegates sample_top sample_middle" unfolding sample_top_def
    by (rule delegates_sample) (simp add: sample_middle_def sample_compiled_def sample_policy_def descendant_depth_def)
  ultimately have chain: "successively delegates [sample_top, sample_middle, sample_leaf]" by simp
  have p: "cg_child_runs sample_top = Some (sample_policy 2 sample_middle)" by (simp add: sample_top_def sample_compiled_def)
  have l: "topology_limits_new 2 1 1 = Inr (cp_limits (sample_policy 2 sample_middle))"
    by (simp add: topology_limits_new_def sample_policy_def CHILD_MAX_DEPTH_def CHILD_MAX_CHILDREN_def)
  show ?thesis using delegation_bounded [OF p l chain] by simp
qed

end
