(* ===== verification/Planner.thy ===== *)
theory Planner
  imports Barrier GraphPaths "HOL-Library.Multiset"
begin

text \<open>
  Planning one superstep (\<open>GraphBarrierPlanner\<close> in \<open>crates/stateknot-core/src/graph.rs\<close>): the complete results of
  the ready nodes of a checkpoint are checked, ordered by node, their controls resolved against the
  compiled graph, their updates reduced, and the successor and the barrier built. The schema registry and
  the reducer are supplied by the application; they are parameters, and a panic in them is the value
  \<open>None\<close>.
\<close>

section \<open>Application callbacks\<close>

datatype graph_schema_validation_error = SchemaRejected | SchemaUnavailable

datatype graph_reducer_error = ReducerRejected | ReducerUnavailable | ReducerResourceLimit

record graph_reducer_input =
  gi_node_id :: node_id
  gi_update :: node_state_update

type_synonym graph_schema_validator = "schema_reference \<Rightarrow> json \<Rightarrow> (graph_schema_validation_error, unit) result option"

record graph_reducer =
  rd_reference :: graph_reducer_reference
  rd_reduce :: "json \<Rightarrow> graph_reducer_input list \<Rightarrow> (graph_reducer_error, json) result option"

section \<open>Plans and errors\<close>

datatype graph_barrier_disposition =
  DispositionContinue
| DispositionWait node_waits
| DispositionTerminal node_terminal_output

record graph_barrier_plan =
  bp_barrier :: checkpoint_barrier
  bp_disposition :: graph_barrier_disposition

datatype graph_value_kind = BaseState | NodeUpdate | TerminalOutput | ReducedState

datatype graph_barrier_plan_error =
  GraphReferenceMismatch
| InitialReadySetMismatch
| SuperstepLimitReached superstep superstep
| BaseParallelismExceeded nat nat
| UnknownReadyNode node_id
| ReducerReferenceMismatch
| ResultCountMismatch nat nat
| DuplicateResultNode node_id
| MissingResultNode node_id
| ResultBaseMismatch node_id
| NonRootActivation node_id
| ActivationMismatch node_id
| UpdateSchemaMismatch node_id
| TerminalOutputSchemaMismatch node_id
| SchemaValidation graph_value_kind "node_id option" graph_schema_validation_error
| SchemaValidatorPanicked graph_value_kind "node_id option"
| UndeclaredControl node_id node_control_kind
| UndeclaredRoute node_id route_id
| TerminalNotExclusive
| AdvancingBarrierWithoutSuccessor
| SuccessorParallelismExceeded nat nat
| InvalidWaitBatch node_waits_error
| ReducerFailed graph_reducer_error
| ReducerPanicked
| InvalidReducedState checkpoint_state_error
| InvalidSuccessor checkpoint_write_error
| InvalidBarrier checkpoint_barrier_error

section \<open>The planner\<close>

definition validate_schema ::
  "graph_schema_validator \<Rightarrow> schema_reference \<Rightarrow> json \<Rightarrow> graph_value_kind \<Rightarrow> node_id option \<Rightarrow>
     (graph_barrier_plan_error, unit) result" where
  "validate_schema schemas schema v kind node =
     (case schemas schema v of
        Some (Inr _) \<Rightarrow> Inr ()
      | Some (Inl source) \<Rightarrow> Inl (SchemaValidation kind node source)
      | None \<Rightarrow> Inl (SchemaValidatorPanicked kind node))"

definition validate_checkpoint :: "compiled_graph \<Rightarrow> checkpoint \<Rightarrow> (graph_barrier_plan_error, unit) result" where
  "validate_checkpoint g base =
     and_then (reject_first
       [(cp_graph base \<noteq> compiled_reference g, GraphReferenceMismatch),
        (cp_superstep base = superstep_INITIAL \<and> cp_ready_nodes base \<noteq> cg_entry_nodes g, InitialReadySetMismatch),
        (superstep_get (cp_superstep base) \<ge> superstep_get (gl_maximum_supersteps (cg_limits g)),
           SuperstepLimitReached (gl_maximum_supersteps (cg_limits g)) (cp_superstep base)),
        (length (ready_list (cp_ready_nodes base)) > unat (gl_maximum_parallelism (cg_limits g)),
           BaseParallelismExceeded (unat (gl_maximum_parallelism (cg_limits g))) (length (ready_list (cp_ready_nodes base))))]) (\<lambda>_.
     try_fold (\<lambda>_ n. reject_if (graph_node_get g n = None) (UnknownReadyNode n)) () (ready_list (cp_ready_nodes base)))"

definition order_result ::
  "'z barrier_crypto_scheme \<Rightarrow> checkpoint \<Rightarrow> (node_id \<times> pending_node_result) list \<Rightarrow> pending_node_result \<Rightarrow>
     (graph_barrier_plan_error, (node_id \<times> pending_node_result) list) result" where
  "order_result x base ordered r =
     (let activation = pi_activation (pr_intent r); n = na_node_id activation
      in and_then (reject_if (na_base_checkpoint activation \<noteq> checkpoint_head_of base) (ResultBaseMismatch n)) (\<lambda>_.
         and_then (reject_if (\<not> namespace_is_root (na_graph_namespace activation)) (NonRootActivation n)) (\<lambda>_.
         and_then (map_err (\<lambda>_. ActivationMismatch n) (for_ready_root x base n)) (\<lambda>expected.
         and_then (reject_if (activation \<noteq> expected) (ActivationMismatch n)) (\<lambda>_.
         and_then (reject_if (map_of ordered n \<noteq> None) (DuplicateResultNode n)) (\<lambda>_.
         Inr (bt_insert n r ordered)))))))"

definition ordered_results ::
  "'z barrier_crypto_scheme \<Rightarrow> checkpoint \<Rightarrow> pending_node_result list \<Rightarrow>
     (graph_barrier_plan_error, pending_node_result list) result" where
  "ordered_results x base results =
     and_then (reject_if (length results \<noteq> length (ready_list (cp_ready_nodes base)))
       (ResultCountMismatch (length (ready_list (cp_ready_nodes base))) (length results))) (\<lambda>_.
     and_then (try_fold (order_result x base) [] results) (\<lambda>ordered.
     and_then (try_fold (\<lambda>_ n. reject_if (map_of ordered n = None) (MissingResultNode n)) () (ready_list (cp_ready_nodes base))) (\<lambda>_.
     Inr (map snd ordered))))"

text \<open>The accumulators of the control loop; the set of next nodes is its ascending list.\<close>

record controls =
  co_reducer_inputs :: "graph_reducer_input list"
  co_next_nodes :: "node_id list"
  co_waits :: "node_wait list"
  co_terminal :: "node_terminal_output option"

definition no_controls :: controls where
  "no_controls = \<lparr>co_reducer_inputs = [], co_next_nodes = [], co_waits = [], co_terminal = None\<rparr>"

definition extend_next :: "ready_nodes \<Rightarrow> controls \<Rightarrow> controls" where
  "extend_next s c = c\<lparr>co_next_nodes := fold (\<lambda>n ns. if n \<in> set ns then ns else insort n ns) (ready_list s) (co_next_nodes c)\<rparr>"

definition resolve_update ::
  "graph_schema_validator \<Rightarrow> compiled_graph \<Rightarrow> node_id \<Rightarrow> node_state_change \<Rightarrow> controls \<Rightarrow> (graph_barrier_plan_error, controls) result" where
  "resolve_update schemas g n change c =
     (case change_update change of
        None \<Rightarrow> Inr c
      | Some u \<Rightarrow>
          and_then (reject_if (nu_schema u \<noteq> cg_update_schema g) (UpdateSchemaMismatch n)) (\<lambda>_.
          and_then (validate_schema schemas (nu_schema u) (nu_data u) NodeUpdate (Some n)) (\<lambda>_.
          Inr (c\<lparr>co_reducer_inputs := co_reducer_inputs c @ [\<lparr>gi_node_id = n, gi_update = u\<rparr>]\<rparr>))))"

fun resolve_control ::
  "graph_schema_validator \<Rightarrow> compiled_graph \<Rightarrow> node_id \<Rightarrow> graph_node \<Rightarrow> node_control \<Rightarrow> controls \<Rightarrow>
     (graph_barrier_plan_error, controls) result" where
  "resolve_control schemas g n node ControlContinue c =
     and_then (ok_or (gn_continue_to node) (UndeclaredControl n KindContinue)) (\<lambda>successors. Inr (extend_next successors c))"
| "resolve_control schemas g n node (ControlRoute r) c =
     and_then (ok_or (routes_get (gn_routes node) r) (UndeclaredRoute n r)) (\<lambda>route. Inr (extend_next (gt_successors route) c))"
| "resolve_control schemas g n node (ControlWait ws) c =
     and_then (ok_or (gn_wait_to node) (UndeclaredControl n KindWait)) (\<lambda>successors.
     Inr ((extend_next successors c)\<lparr>co_waits := co_waits c @ waits_values ws\<rparr>))"
| "resolve_control schemas g n node (ControlTerminal output_value) c =
     and_then (reject_if (\<not> gn_terminal node) (UndeclaredControl n KindTerminal)) (\<lambda>_.
     and_then (reject_if (no_schema output_value \<noteq> cg_output_schema g) (TerminalOutputSchemaMismatch n)) (\<lambda>_.
     and_then (validate_schema schemas (no_schema output_value) (no_data output_value) TerminalOutput (Some n)) (\<lambda>_.
     and_then (reject_if (co_terminal c \<noteq> None) TerminalNotExclusive) (\<lambda>_.
     Inr (c\<lparr>co_terminal := Some output_value\<rparr>)))))"

definition resolve_result ::
  "graph_schema_validator \<Rightarrow> compiled_graph \<Rightarrow> controls \<Rightarrow> pending_node_result \<Rightarrow> (graph_barrier_plan_error, controls) result" where
  "resolve_result schemas g c r =
     (let intent = pr_intent r; n = na_node_id (pi_activation intent)
      in and_then (ok_or (graph_node_get g n) (UnknownReadyNode n)) (\<lambda>node.
         and_then (resolve_update schemas g n (pi_state_change intent) c) (\<lambda>c'.
         resolve_control schemas g n node (pi_control intent) c')))"

definition resolve_disposition ::
  "nat \<Rightarrow> node_id list \<Rightarrow> node_wait list \<Rightarrow> node_terminal_output option \<Rightarrow>
     (graph_barrier_plan_error, graph_barrier_disposition) result" where
  "resolve_disposition result_count next_nodes waits terminal =
     (case terminal of
        Some output_value \<Rightarrow>
          and_then (reject_if (result_count \<noteq> 1 \<or> waits \<noteq> [] \<or> next_nodes \<noteq> []) TerminalNotExclusive) (\<lambda>_.
          Inr (DispositionTerminal output_value))
      | None \<Rightarrow>
          if waits = [] then and_then (reject_if (next_nodes = []) AdvancingBarrierWithoutSuccessor) (\<lambda>_. Inr DispositionContinue)
          else map_err InvalidWaitBatch (map_ok DispositionWait (node_waits_try_new waits)))"

record resolved_controls =
  rc_reducer_inputs :: "graph_reducer_input list"
  rc_ready_nodes :: ready_nodes
  rc_disposition :: graph_barrier_disposition

definition resolve_controls ::
  "graph_schema_validator \<Rightarrow> compiled_graph \<Rightarrow> pending_node_result list \<Rightarrow> (graph_barrier_plan_error, resolved_controls) result" where
  "resolve_controls schemas g ordered =
     and_then (try_fold (resolve_result schemas g) no_controls ordered) (\<lambda>c.
     and_then (resolve_disposition (length ordered) (co_next_nodes c) (co_waits c) (co_terminal c)) (\<lambda>disposition.
     and_then (reject_if (length (co_next_nodes c) > unat (gl_maximum_parallelism (cg_limits g)))
       (SuccessorParallelismExceeded (unat (gl_maximum_parallelism (cg_limits g))) (length (co_next_nodes c)))) (\<lambda>_.
     and_then (map_err (\<lambda>_. SuccessorParallelismExceeded READY_MAX_LEN (READY_MAX_LEN + 1)) (ready_try_new (co_next_nodes c))) (\<lambda>ready.
     Inr \<lparr>rc_reducer_inputs = co_reducer_inputs c, rc_ready_nodes = ready, rc_disposition = disposition\<rparr>))))"

definition reduce_state ::
  "'z barrier_crypto_scheme \<Rightarrow> graph_schema_validator \<Rightarrow> graph_reducer \<Rightarrow> compiled_graph \<Rightarrow> checkpoint \<Rightarrow> graph_reducer_input list \<Rightarrow>
     (graph_barrier_plan_error, checkpoint_state) result" where
  "reduce_state x schemas reducer g base inputs =
     and_then (if inputs = [] then Inr (cs_data (cp_state base))
       else and_then (ok_or (rd_reduce reducer (cs_data (cp_state base)) inputs) ReducerPanicked) (map_err ReducerFailed)) (\<lambda>reduced.
     and_then (validate_schema schemas (cg_state_schema g) reduced ReducedState None) (\<lambda>_.
     map_err InvalidReducedState (state_new x (cg_state_schema g) reduced)))"

definition plan_barrier ::
  "'z barrier_crypto_scheme \<Rightarrow> graph_schema_validator \<Rightarrow> graph_reducer \<Rightarrow> compiled_graph \<Rightarrow> checkpoint \<Rightarrow>
     pending_node_result list \<Rightarrow> checkpoint_id \<Rightarrow> (graph_barrier_plan_error, graph_barrier_plan) result" where
  "plan_barrier x schemas reducer g base results successor_id =
     and_then (validate_checkpoint g base) (\<lambda>_.
     and_then (reject_if (rd_reference reducer \<noteq> cg_reducer g) ReducerReferenceMismatch) (\<lambda>_.
     and_then (validate_schema schemas (cg_state_schema g) (cs_data (cp_state base)) BaseState None) (\<lambda>_.
     and_then (ordered_results x base results) (\<lambda>ordered.
     and_then (resolve_controls schemas g ordered) (\<lambda>resolved.
     and_then (reduce_state x schemas reducer g base (rc_reducer_inputs resolved)) (\<lambda>state.
     and_then (map_err InvalidSuccessor (write_successor x successor_id base state (rc_ready_nodes resolved))) (\<lambda>successor.
     and_then (map_err InvalidBarrier (barrier_new x base successor (map result_head ordered))) (\<lambda>barrier.
     Inr \<lparr>bp_barrier = barrier, bp_disposition = rc_disposition resolved\<rparr>))))))))"

section \<open>The order of completion\<close>

abbreviation result_node :: "pending_node_result \<Rightarrow> node_id" where
  "result_node r \<equiv> na_node_id (pi_activation (pr_intent r))"

lemma order_result_iff:
  "order_result x base m r = Inr out \<longleftrightarrow>
     for_ready_root x base (result_node r) = Inr (pi_activation (pr_intent r)) \<and> result_node r \<notin> fst ` set m \<and>
     out = bt_insert (result_node r) r m"
proof -
  have "na_base_checkpoint a = checkpoint_head_of base \<and> namespace_is_root (na_graph_namespace a)"
    if "for_ready_root x base n = Inr a" for n a
    using for_ready_root_Inr [OF that] by (simp add: namespace_is_root_def namespace_root_def)
  then show ?thesis by (auto simp: order_result_def Let_def map_of_eq_None_iff result_simps)
qed

lemma try_fold_order_result:
  "try_fold (order_result x base) m rs = Inr out \<longleftrightarrow>
     (\<forall>r\<in>set rs. for_ready_root x base (result_node r) = Inr (pi_activation (pr_intent r))) \<and>
     distinct (map result_node rs) \<and> result_node ` set rs \<inter> fst ` set m = {} \<and> out = index_by result_node rs m"
proof (induction rs arbitrary: m)
  case (Cons r rs)
  have "try_fold (order_result x base) m (r # rs) = Inr out \<longleftrightarrow>
      for_ready_root x base (result_node r) = Inr (pi_activation (pr_intent r)) \<and> result_node r \<notin> fst ` set m \<and>
      try_fold (order_result x base) (bt_insert (result_node r) r m) rs = Inr out"
    by (auto simp: order_result_iff and_then_Inr_iff)
  then show ?case unfolding Cons.IH by auto
qed auto

lemma ordered_results_iff:
  "ordered_results x base rs = Inr out \<longleftrightarrow>
     length rs = length (ready_list (cp_ready_nodes base)) \<and>
     (\<forall>r\<in>set rs. for_ready_root x base (result_node r) = Inr (pi_activation (pr_intent r))) \<and>
     distinct (map result_node rs) \<and> set (ready_list (cp_ready_nodes base)) \<subseteq> result_node ` set rs \<and>
     out = sort_key result_node rs"
proof (cases "distinct (map result_node rs)")
  case True
  then have "map snd (index_by result_node rs []) = sort_key result_node rs"
    by (simp add: index_by_is_sort comp_def)
  then show ?thesis using True
    by (auto simp: ordered_results_def try_fold_order_result try_fold_check reject_if_unit_iff map_of_eq_None_iff and_then_Inr_iff)
next
  case False
  then show ?thesis by (auto simp: ordered_results_def try_fold_order_result and_then_Inr_iff)
qed

lemma ordered_results_permuted:
  assumes "mset rs = mset rs'"
  shows "ordered_results x base rs = Inr out \<longleftrightarrow> ordered_results x base rs' = Inr out"
proof -
  have s: "set rs = set rs'" "length rs = length rs'" using assms by (auto dest: mset_eq_setD mset_eq_length)
  have d: "distinct (map result_node rs) \<longleftrightarrow> distinct (map result_node rs')"
    using assms by (metis mset_map mset_eq_imp_distinct_iff)
  show ?thesis unfolding ordered_results_iff s d
    using sort_key_permuted [of result_node rs rs'] s(1) d by auto
qed

text \<open>
  C3. Planning does not depend on the order in which the nodes of a superstep complete: two arrivals of
  the same results give the same plan, with the same successor state, ready set, disposition and barrier
  digest, whatever the schema registry and the reducer compute.
\<close>

theorem plan_order_irrelevant:
  assumes "mset results = mset results'"
  shows "plan_barrier x schemas reducer g base results i = Inr p \<longleftrightarrow> plan_barrier x schemas reducer g base results' i = Inr p"
  by (simp add: plan_barrier_def and_then_Inr_iff ordered_results_permuted [OF assms])

section \<open>What a plan commits\<close>

text \<open>The nodes a declared control leads to, and the conditions it waits for.\<close>

fun chosen_successors :: "graph_node \<Rightarrow> node_control \<Rightarrow> node_id set" where
  "chosen_successors node ControlContinue = (case gn_continue_to node of None \<Rightarrow> {} | Some s \<Rightarrow> set (ready_list s))"
| "chosen_successors node (ControlRoute r) = (case routes_get (gn_routes node) r of None \<Rightarrow> {} | Some t \<Rightarrow> set (ready_list (gt_successors t)))"
| "chosen_successors node (ControlWait _) = (case gn_wait_to node of None \<Rightarrow> {} | Some s \<Rightarrow> set (ready_list s))"
| "chosen_successors node (ControlTerminal _) = {}"

fun control_waits :: "node_control \<Rightarrow> node_wait list" where
  "control_waits (ControlWait ws) = waits_values ws"
| "control_waits _ = []"

fun control_output :: "node_control \<Rightarrow> node_terminal_output option" where
  "control_output (ControlTerminal out) = Some out"
| "control_output _ = None"

definition result_successors :: "compiled_graph \<Rightarrow> pending_node_result \<Rightarrow> node_id set" where
  "result_successors g r =
     (case graph_node_get g (result_node r) of None \<Rightarrow> {} | Some node \<Rightarrow> chosen_successors node (pi_control (pr_intent r)))"

definition result_inputs :: "pending_node_result \<Rightarrow> graph_reducer_input list" where
  "result_inputs r = (case change_update (pi_state_change (pr_intent r)) of
     None \<Rightarrow> [] | Some u \<Rightarrow> [\<lparr>gi_node_id = result_node r, gi_update = u\<rparr>])"

lemma extend_next_fields [simp]:
  "set (co_next_nodes (extend_next s c)) = set (co_next_nodes c) \<union> set (ready_list s)"
  "co_waits (extend_next s c) = co_waits c"
  "co_terminal (extend_next s c) = co_terminal c"
  "co_reducer_inputs (extend_next s c) = co_reducer_inputs c"
proof -
  have "set (fold (\<lambda>n ns. if n \<in> set ns then ns else insort n ns) ns acc) = set acc \<union> set ns" for ns acc :: "node_id list"
    by (induction ns arbitrary: acc) (auto simp: set_insort_key)
  then show "set (co_next_nodes (extend_next s c)) = set (co_next_nodes c) \<union> set (ready_list s)" by (simp add: extend_next_def)
qed (simp_all add: extend_next_def)

lemma resolve_update_fields:
  assumes "resolve_update schemas g n change c = Inr c'"
  shows "c' = c\<lparr>co_reducer_inputs := co_reducer_inputs c @
    (case change_update change of None \<Rightarrow> [] | Some u \<Rightarrow> [\<lparr>gi_node_id = n, gi_update = u\<rparr>])\<rparr>"
  using assms by (auto simp: resolve_update_def result_simps split: option.splits)

lemma resolve_control_fields:
  assumes "resolve_control schemas g n node control c = Inr c'"
  shows "set (co_next_nodes c') = set (co_next_nodes c) \<union> chosen_successors node control \<and>
    co_waits c' = co_waits c @ control_waits control \<and> co_reducer_inputs c' = co_reducer_inputs c \<and>
    (case control_output control of None \<Rightarrow> co_terminal c' = co_terminal c | Some out \<Rightarrow> co_terminal c = None \<and> co_terminal c' = Some out)"
  using assms by (cases control) (auto simp: result_simps split: option.splits)

lemma resolve_result_fields:
  assumes "resolve_result schemas g c r = Inr c'"
  shows "graph_node_get g (result_node r) \<noteq> None \<and>
    set (co_next_nodes c') = set (co_next_nodes c) \<union> result_successors g r \<and>
    co_waits c' = co_waits c @ control_waits (pi_control (pr_intent r)) \<and>
    co_reducer_inputs c' = co_reducer_inputs c @ result_inputs r \<and>
    (case control_output (pi_control (pr_intent r)) of
       None \<Rightarrow> co_terminal c' = co_terminal c | Some out \<Rightarrow> co_terminal c = None \<and> co_terminal c' = Some out)"
proof -
  obtain node d where s: "graph_node_get g (result_node r) = Some node"
      "resolve_update schemas g (result_node r) (pi_state_change (pr_intent r)) c = Inr d"
      "resolve_control schemas g (result_node r) node (pi_control (pr_intent r)) d = Inr c'"
    using assms by (auto simp: resolve_result_def Let_def and_then_Inr_iff ok_or_Inr_iff)
  show ?thesis
    using s(1) resolve_control_fields [OF s(3)] unfolding resolve_update_fields [OF s(2)]
    by (simp add: result_successors_def result_inputs_def split: option.splits)
qed

lemma resolve_results_fields:
  assumes "try_fold (resolve_result schemas g) c rs = Inr c'"
  shows "set (co_next_nodes c') = set (co_next_nodes c) \<union> (\<Union>r\<in>set rs. result_successors g r) \<and>
    co_waits c' = co_waits c @ concat (map (\<lambda>r. control_waits (pi_control (pr_intent r))) rs) \<and>
    co_reducer_inputs c' = co_reducer_inputs c @ concat (map result_inputs rs) \<and>
    (case co_terminal c' of
       None \<Rightarrow> co_terminal c = None \<and> (\<forall>r\<in>set rs. control_output (pi_control (pr_intent r)) = None)
     | Some out \<Rightarrow> co_terminal c = Some out \<or> (\<exists>r\<in>set rs. control_output (pi_control (pr_intent r)) = Some out))"
  using assms
proof (induction rs arbitrary: c)
  case (Cons r rs)
  then obtain d where d: "resolve_result schemas g c r = Inr d" "try_fold (resolve_result schemas g) d rs = Inr c'"
    by (auto simp: and_then_Inr_iff)
  note ih = Cons.IH [OF d(2)] and f = resolve_result_fields [OF d(1)]
  show ?case using ih f by (auto split: option.splits)
qed (simp split: option.split)

lemma resolve_controls_fields:
  assumes "resolve_controls schemas g rs = Inr c"
  shows "set (ready_list (rc_ready_nodes c)) = (\<Union>r\<in>set rs. result_successors g r) \<and>
    ready_wf (rc_ready_nodes c) \<and>
    length (ready_list (rc_ready_nodes c)) \<le> unat (gl_maximum_parallelism (cg_limits g)) \<and>
    rc_reducer_inputs c = concat (map result_inputs rs) \<and>
    (case rc_disposition c of
       DispositionContinue \<Rightarrow> ready_list (rc_ready_nodes c) \<noteq> [] \<and>
         (\<forall>r\<in>set rs. control_waits (pi_control (pr_intent r)) = [] \<and> control_output (pi_control (pr_intent r)) = None)
     | DispositionWait ws \<Rightarrow> waits_values ws = concat (map (\<lambda>r. control_waits (pi_control (pr_intent r))) rs) \<and> waits_values ws \<noteq> [] \<and>
         (\<forall>r\<in>set rs. control_output (pi_control (pr_intent r)) = None)
     | DispositionTerminal out \<Rightarrow> ready_list (rc_ready_nodes c) = [] \<and>
         (\<exists>r. rs = [r] \<and> control_output (pi_control (pr_intent r)) = Some out))"
proof -
  obtain d ready disposition where d: "try_fold (resolve_result schemas g) no_controls rs = Inr d"
      "resolve_disposition (length rs) (co_next_nodes d) (co_waits d) (co_terminal d) = Inr disposition"
      "length (co_next_nodes d) \<le> unat (gl_maximum_parallelism (cg_limits g))"
      "ready_try_new (co_next_nodes d) = Inr ready"
      "c = \<lparr>rc_reducer_inputs = co_reducer_inputs d, rc_ready_nodes = ready, rc_disposition = disposition\<rparr>"
    using assms by (auto simp: resolve_controls_def result_simps not_less)
  note f = resolve_results_fields [OF d(1), unfolded no_controls_def, simplified]
  have ready: "set (ready_list ready) = set (co_next_nodes d)" "length (ready_list ready) = length (co_next_nodes d)" "ready_wf ready"
    using d(4) ready_try_new_wf [OF d(4)] by (auto simp: ready_try_new_iff)
  have empty: "ready_list ready = [] \<longleftrightarrow> co_next_nodes d = []" using ready(2) by auto
  have "case disposition of
       DispositionContinue \<Rightarrow> ready_list ready \<noteq> [] \<and>
         (\<forall>r\<in>set rs. control_waits (pi_control (pr_intent r)) = [] \<and> control_output (pi_control (pr_intent r)) = None)
     | DispositionWait ws \<Rightarrow> waits_values ws = concat (map (\<lambda>r. control_waits (pi_control (pr_intent r))) rs) \<and> waits_values ws \<noteq> [] \<and>
         (\<forall>r\<in>set rs. control_output (pi_control (pr_intent r)) = None)
     | DispositionTerminal out \<Rightarrow> ready_list ready = [] \<and>
         (\<exists>r. rs = [r] \<and> control_output (pi_control (pr_intent r)) = Some out)"
  proof (cases "co_terminal d")
    case None
    then show ?thesis using d(2) f unfolding empty
      by (auto simp: resolve_disposition_def result_simps node_waits_iff split: if_splits)
  next
    case (Some out)
    then have "disposition = DispositionTerminal out" "length rs = 1" "co_next_nodes d = []"
      using d(2) by (auto simp: resolve_disposition_def result_simps)
    then show ?thesis using Some f unfolding empty by (auto simp: length_Suc_conv)
  qed
  moreover have c: "rc_reducer_inputs c = co_reducer_inputs d" "rc_ready_nodes c = ready" "rc_disposition c = disposition"
    using d(5) by simp_all
  ultimately show ?thesis unfolding c using f ready d(3) by simp
qed

lemma plan_parts:
  assumes "plan_barrier x schemas reducer g base results i = Inr p"
  obtains resolved state where "validate_checkpoint g base = Inr ()"
    and "ordered_results x base results = Inr (sort_key result_node results)"
    and "resolve_controls schemas g (sort_key result_node results) = Inr resolved"
    and "reduce_state x schemas reducer g base (rc_reducer_inputs resolved) = Inr state"
    and "write_successor x i base state (rc_ready_nodes resolved) = Inr (cb_successor (bp_barrier p))"
    and "barrier_new x base (cb_successor (bp_barrier p)) (map result_head (sort_key result_node results)) = Inr (bp_barrier p)"
    and "bp_disposition p = rc_disposition resolved"
proof -
  obtain ordered resolved state successor barrier where a: "validate_checkpoint g base = Inr ()"
      "ordered_results x base results = Inr ordered" "resolve_controls schemas g ordered = Inr resolved"
      "reduce_state x schemas reducer g base (rc_reducer_inputs resolved) = Inr state"
      "write_successor x i base state (rc_ready_nodes resolved) = Inr successor"
      "barrier_new x base successor (map result_head ordered) = Inr barrier"
      "p = \<lparr>bp_barrier = barrier, bp_disposition = rc_disposition resolved\<rparr>"
    using assms unfolding plan_barrier_def and_then_Inr_iff map_err_Inr_iff by auto
  have "ordered = sort_key result_node results" using a(2) by (simp add: ordered_results_iff)
  moreover have "cb_successor barrier = successor" using a(6) by (auto simp: barrier_new_iff)
  ultimately show thesis using a that by simp
qed

lemma validate_checkpoint_iff:
  "validate_checkpoint g base = Inr u \<longleftrightarrow>
     cp_graph base = compiled_reference g \<and>
     (cp_superstep base = superstep_INITIAL \<longrightarrow> cp_ready_nodes base = cg_entry_nodes g) \<and>
     superstep_get (cp_superstep base) < superstep_get (gl_maximum_supersteps (cg_limits g)) \<and>
     length (ready_list (cp_ready_nodes base)) \<le> unat (gl_maximum_parallelism (cg_limits g)) \<and>
     (\<forall>n\<in>set (ready_list (cp_ready_nodes base)). graph_node_get g n \<noteq> None)"
  by (auto simp: validate_checkpoint_def try_fold_check result_simps)

lemma write_successor_fields:
  assumes "write_successor x i base state ready = Inr w"
  shows "cw_parent w = Some (checkpoint_head_of base) \<and> cw_ready_nodes w = ready \<and> cw_state w = state \<and> cw_graph w = cp_graph base \<and>
    superstep_checked_next (cp_superstep base) = Some (cw_superstep w)"
proof -
  obtain n where n: "superstep_checked_next (cp_superstep base) = Some n"
      "write_build x (cp_tenant_id base) (cp_run_id base) i n (cp_graph base) state ready (Some (checkpoint_head_of base)) None = Inr w"
    using assms unfolding write_successor_def and_then_Inr_iff ok_or_Inr_iff by blast
  show ?thesis using n(1) write_build_fields [OF n(2)] by simp
qed

lemma superstep_next_below:
  assumes "superstep_checked_next m = Some n" and "superstep_get m < superstep_get k"
  shows "unat (superstep_get n) = Suc (unat (superstep_get m)) \<and> superstep_get n \<le> superstep_get k"
proof -
  have "unat (superstep_get m) < unat (superstep_get k)" "unat (superstep_get k) < 2 ^ 64"
    using assms(2) unsigned_less [of "superstep_get k"] by (simp_all add: word_less_nat_alt)
  then have "unat (superstep_get m + 1) = Suc (unat (superstep_get m))"
    by (simp add: unat_word_ariths)
  then show ?thesis using assms by (auto simp: superstep_checked_next_def word_le_nat_alt word_less_nat_alt split: if_splits)
qed

text \<open>The successor and the disposition of a plan.\<close>

lemma plan_step_fields:
  assumes "plan_barrier x schemas reducer g base results i = Inr p"
  shows "let w = cb_successor (bp_barrier p) in
    cw_parent w = Some (checkpoint_head_of base) \<and>
    unat (superstep_get (cw_superstep w)) = Suc (unat (superstep_get (cp_superstep base))) \<and>
    superstep_get (cw_superstep w) \<le> superstep_get (gl_maximum_supersteps (cg_limits g)) \<and>
    distinct (map result_node results) \<and> set (map result_node results) = set (ready_list (cp_ready_nodes base)) \<and>
    set (ready_list (cw_ready_nodes w)) = (\<Union>r\<in>set results. result_successors g r) \<and>
    length (ready_list (cw_ready_nodes w)) \<le> unat (gl_maximum_parallelism (cg_limits g)) \<and>
    (case bp_disposition p of
       DispositionContinue \<Rightarrow> ready_list (cw_ready_nodes w) \<noteq> []
     | DispositionWait ws \<Rightarrow> waits_values ws \<noteq> [] \<and>
         waits_values ws = concat (map (\<lambda>r. control_waits (pi_control (pr_intent r))) (sort_key result_node results))
     | DispositionTerminal out \<Rightarrow> ready_list (cw_ready_nodes w) = [] \<and>
         (\<exists>r. results = [r] \<and> pi_control (pr_intent r) = ControlTerminal out))"
  using assms
proof (rule plan_parts)
  fix resolved state
  let ?w = "cb_successor (bp_barrier p)" and ?rs = "sort_key result_node results"
  assume v: "validate_checkpoint g base = Inr ()" and o: "ordered_results x base results = Inr ?rs"
    and c: "resolve_controls schemas g ?rs = Inr resolved"
    and w: "write_successor x i base state (rc_ready_nodes resolved) = Inr ?w"
    and b: "barrier_new x base ?w (map result_head ?rs) = Inr (bp_barrier p)"
    and d: "bp_disposition p = rc_disposition resolved"
  note wf = write_successor_fields [OF w] and cf = resolve_controls_fields [OF c]
  have out: "control_output k = Some v \<longleftrightarrow> k = ControlTerminal v" for k v by (cases k) auto
  have one: "(\<exists>r. ?rs = [r] \<and> P r) \<longleftrightarrow> (\<exists>r. results = [r] \<and> P r)" for P
    by (cases results; cases "tl results") (auto dest: arg_cong [of _ _ length])
  have step: "unat (superstep_get (cw_superstep ?w)) = Suc (unat (superstep_get (cp_superstep base))) \<and>
      superstep_get (cw_superstep ?w) \<le> superstep_get (gl_maximum_supersteps (cg_limits g))"
    using superstep_next_below wf v unfolding validate_checkpoint_iff by blast
  have nodes: "distinct (map result_node results)" "set (map result_node results) = set (ready_list (cp_ready_nodes base))"
    using o b unfolding ordered_results_iff barrier_new_iff by (auto simp: result_head_def image_image comp_def)
  show ?thesis unfolding Let_def d
    using wf cf step nodes by (auto simp: one out split: graph_barrier_disposition.splits)
qed

text \<open>
  C11. A plan is one step of the compiled graph. The successor's parent is the base checkpoint, its superstep is the
  next one and within the graph's limit, and its ready nodes are exactly the union of what the controls of
  the base's ready nodes lead to, within the parallelism limit. The run ends only with the output of a
  single active node and no ready nodes; it waits for all conditions of all nodes, in node order; otherwise it
  continues with work to do.
\<close>

theorem plan_step:
  assumes "plan_barrier x schemas reducer g base results i = Inr p"
  shows "let w = cb_successor (bp_barrier p) in
    cw_parent w = Some (checkpoint_head_of base) \<and>
    unat (superstep_get (cw_superstep w)) = Suc (unat (superstep_get (cp_superstep base))) \<and>
    superstep_get (cw_superstep w) \<le> superstep_get (gl_maximum_supersteps (cg_limits g)) \<and>
    distinct (map result_node results) \<and> set (map result_node results) = set (ready_list (cp_ready_nodes base)) \<and>
    set (ready_list (cw_ready_nodes w)) = (\<Union>r\<in>set results. result_successors g r) \<and>
    length (ready_list (cw_ready_nodes w)) \<le> unat (gl_maximum_parallelism (cg_limits g)) \<and>
    (case bp_disposition p of
       DispositionContinue \<Rightarrow> ready_list (cw_ready_nodes w) \<noteq> []
     | DispositionWait ws \<Rightarrow> waits_values ws \<noteq> [] \<and>
         waits_values ws = concat (map (\<lambda>r. control_waits (pi_control (pr_intent r))) (sort_key result_node results))
     | DispositionTerminal out \<Rightarrow> ready_list (cw_ready_nodes w) = [] \<and>
         (\<exists>r. results = [r] \<and> pi_control (pr_intent r) = ControlTerminal out))"
  using assms by (rule plan_step_fields)

section \<open>Runs of a compiled graph\<close>

lemma graph_node_get_found: "graph_node_get g n = Some node \<Longrightarrow> node \<in> set (cg_nodes g) \<and> gn_node_id node = n"
  by (auto simp: graph_node_get_def dest!: binary_search_found)

lemma routes_get_found: "routes_get rs r = Some t \<Longrightarrow> t \<in> set (routes_list rs)"
  by (auto simp: routes_get_def dest!: binary_search_found)

lemma chosen_successors_declared:
  "b \<in> chosen_successors node control \<Longrightarrow> \<exists>s\<in>set (successor_sets node). b \<in> set (ready_list s)"
  by (cases control) (auto simp: successor_sets_def split: option.splits dest!: routes_get_found)

lemma result_successors_edge: "b \<in> result_successors g r \<Longrightarrow> node_edge (set (cg_nodes g)) (result_node r) b"
  using graph_node_get_found chosen_successors_declared unfolding result_successors_def node_edge_def
  by (fastforce split: option.splits)

text \<open>
  The checkpoints of a run, newest first: the initial checkpoint of the graph, then for each superstep the
  committed successor of a plan.
\<close>

inductive graph_run ::
  "'z barrier_crypto_scheme \<Rightarrow> graph_schema_validator \<Rightarrow> graph_reducer \<Rightarrow> compiled_graph \<Rightarrow> checkpoint list \<Rightarrow> bool"
  for x schemas reducer g where
  start: "state_new x (cg_state_schema g) d = Inr st \<Longrightarrow> ready_try_new ns = Inr (cg_entry_nodes g) \<Longrightarrow> journal_wf j \<Longrightarrow>
    write_initial x t r i (compiled_reference g) st (cg_entry_nodes g) = Inr w \<Longrightarrow> checkpoint_commit x w j = Inr c \<Longrightarrow>
    graph_run x schemas reducer g [c]"
| step: "graph_run x schemas reducer g (b # cs) \<Longrightarrow> plan_barrier x schemas reducer g b results i = Inr p \<Longrightarrow> journal_wf j \<Longrightarrow>
    checkpoint_commit x (cb_successor (bp_barrier p)) j = Inr c \<Longrightarrow> graph_run x schemas reducer g (c # b # cs)"

definition within_graph :: "compiled_graph \<Rightarrow> checkpoint \<Rightarrow> bool" where
  "within_graph g c \<longleftrightarrow>
     length (ready_list (cp_ready_nodes c)) \<le> unat (gl_maximum_parallelism (cg_limits g)) \<and>
     (\<forall>n\<in>set (ready_list (cp_ready_nodes c)). \<exists>e\<in>set (ready_list (cg_entry_nodes g)). (node_edge (set (cg_nodes g)))\<^sup>*\<^sup>* e n)"

lemma commit_ready: "checkpoint_commit x w j = Inr c \<Longrightarrow> cp_ready_nodes c = cw_ready_nodes w \<and> cp_superstep c = cw_superstep w"
  using commit_fields by (fastforce simp: write_intent_def)

lemma reduce_state_new: "reduce_state x schemas reducer g base inputs = Inr st \<Longrightarrow> \<exists>d. state_new x (cg_state_schema g) d = Inr st"
  unfolding reduce_state_def and_then_Inr_iff map_err_Inr_iff by blast

lemma plan_within_graph:
  assumes "plan_barrier x schemas reducer g b results i = Inr p" and "checkpoint_commit x (cb_successor (bp_barrier p)) j = Inr c"
    and "within_graph g b"
  shows "within_graph g c"
proof -
  note s = plan_step_fields [OF assms(1), unfolded Let_def] and c = commit_ready [OF assms(2)]
  have "\<exists>e\<in>set (ready_list (cg_entry_nodes g)). (node_edge (set (cg_nodes g)))\<^sup>*\<^sup>* e n"
    if n: "n \<in> set (ready_list (cp_ready_nodes c))" for n
  proof -
    obtain r where r: "r \<in> set results" "n \<in> result_successors g r" using n s c by auto
    then have "result_node r \<in> set (ready_list (cp_ready_nodes b))" using s by auto
    then show ?thesis using assms(3) result_successors_edge [OF r(2)] unfolding within_graph_def
      by (meson rtranclp.rtrancl_into_rtrancl)
  qed
  then show ?thesis using s c by (simp add: within_graph_def)
qed

lemma graph_run_invariant:
  assumes "graph_run x schemas reducer g cs" and "length (ready_list (cg_entry_nodes g)) \<le> unat (gl_maximum_parallelism (cg_limits g))"
  shows "history x cs \<and> list_all (within_graph g) cs \<and> cs \<noteq> [] \<and>
    unat (superstep_get (cp_superstep (hd cs))) = length (tl cs) \<and>
    length (tl cs) \<le> unat (superstep_get (gl_maximum_supersteps (cg_limits g)))"
  using assms
proof (induction rule: graph_run.induct)
  case (start d st ns j t r i w c)
  have "cw_ready_nodes w = cg_entry_nodes g \<and> cw_superstep w = superstep_INITIAL"
    using write_build_fields start.hyps(4) unfolding write_initial_def by blast
  moreover note commit_ready [OF start.hyps(5)]
  ultimately show ?case
    using start.prems history.initial [OF start.hyps]
    by (auto simp: within_graph_def superstep_INITIAL_def)
next
  case (step b cs results i p j c)
  obtain resolved state where p: "resolve_controls schemas g (sort_key result_node results) = Inr resolved"
      "reduce_state x schemas reducer g b (rc_reducer_inputs resolved) = Inr state"
      "write_successor x i b state (rc_ready_nodes resolved) = Inr (cb_successor (bp_barrier p))"
    using plan_parts [OF step.hyps(2)] by metis
  obtain d where d: "state_new x (cg_state_schema g) d = Inr state" using reduce_state_new [OF p(2)] by blast
  have ready: "ready_try_new (ready_list (rc_ready_nodes resolved)) = Inr (rc_ready_nodes resolved)"
    using resolve_controls_fields [OF p(1)] by (simp add: ready_try_new_same)
  note ih = step.IH [OF step.prems]
  have "history x (c # b # cs)"
    using history.advance [OF _ d ready step.hyps(3) p(3) step.hyps(4)] ih by blast
  moreover have "within_graph g c" using plan_within_graph [OF step.hyps(2,4)] ih by simp
  ultimately show ?case
    using ih plan_step_fields [OF step.hyps(2), unfolded Let_def] commit_ready [OF step.hyps(4)]
    by (simp add: word_le_nat_alt)
qed

text \<open>
  C2. A run of a compiled graph is bounded and never leaves the graph: whatever results the nodes produce,
  it has at most the declared number of supersteps, every ready node is a declared node on a path
  from an entry, no superstep activates more nodes than the parallelism limit, and the checkpoints form a
  history that the lineage verifier accepts.
\<close>

theorem run_bounded:
  assumes "graph_compile z identity input state update_schema output_schema reducer_reference entries ns limits = Inr g"
    and "graph_run x schemas reducer g (c # cs)"
  shows "history x (c # cs) \<and> length cs \<le> unat (superstep_get (gl_maximum_supersteps limits)) \<and>
    list_all (\<lambda>b. length (ready_list (cp_ready_nodes b)) \<le> unat (gl_maximum_parallelism limits) \<and>
      set (ready_list (cp_ready_nodes b)) \<subseteq> gn_node_id ` set ns) (c # cs)"
proof -
  have sound: "sound_graph ns entries limits" and g: "cg_nodes g = sort_key gn_node_id ns" "cg_entry_nodes g = entries" "cg_limits g = limits"
    using assms(1) by (auto simp: graph_compile_iff compiled_from_def)
  have closed: "n \<in> gn_node_id ` set ns"
    if "(node_edge (set ns))\<^sup>*\<^sup>* e n" "e \<in> set (ready_list entries)" for e n
    using that
  proof (induction rule: rtranclp_induct)
    case base
    then show ?case using sound by (auto simp: sound_graph_def)
  next
    case (step a b)
    from step.hyps(2) sound show ?case unfolding node_edge_def sound_graph_def by blast
  qed
  have "within_graph g b \<Longrightarrow> set (ready_list (cp_ready_nodes b)) \<subseteq> gn_node_id ` set ns" for b
    unfolding within_graph_def g set_sort using closed by blast
  then show ?thesis
    using graph_run_invariant [OF assms(2)] sound unfolding g
    by (auto simp: sound_graph_def within_graph_def list_all_iff g)
qed

section \<open>A sample run\<close>

text \<open>Two entry nodes that lead to one final node; both deliver an update, and the reducer counts them.\<close>

definition sample_barrier_crypto :: barrier_crypto where
  "sample_barrier_crypto = \<lparr>cr_canonicalize = (\<lambda>_. Some ''0''), cr_sha256 = (\<lambda>_. Sha256 ''0''), cr_checkpoint = (\<lambda>_. Some []),
     cr_ready_input = (\<lambda>_. Some []), cr_tool = (\<lambda>_. Some []), cr_result = (\<lambda>_. Some []), cr_barrier = (\<lambda>_. Some [])\<rparr>"

definition sample_graph_crypto :: graph_crypto where
  "sample_graph_crypto = \<lparr>cr_canonicalize = (\<lambda>_. Some ''0''), cr_sha256 = (\<lambda>_. Sha256 ''0''), cr_checkpoint = (\<lambda>_. Some []),
     cr_ready_input = (\<lambda>_. Some []), cr_tool = (\<lambda>_. Some []), cr_result = (\<lambda>_. Some []), cr_graph = (\<lambda>_. Some []),
     cr_agent = (\<lambda>_. Some [])\<rparr>"

definition sample_work :: "string \<Rightarrow> graph_node" where
  "sample_work n = \<lparr>gn_node_id = NodeId n, gn_continue_to = Some (ReadyNodes [NodeId ''end'']), gn_routes = GraphRoutes [],
     gn_wait_to = None, gn_terminal = False\<rparr>"

definition sample_end :: graph_node where
  "sample_end = \<lparr>gn_node_id = NodeId ''end'', gn_continue_to = None, gn_routes = GraphRoutes [], gn_wait_to = None, gn_terminal = True\<rparr>"

definition sample_reducer_reference :: graph_reducer_reference where
  "sample_reducer_reference = \<lparr>gd_identity = gr_identity sample_graph, gd_definition_digest = Sha256 ''0''\<rparr>"

definition sample_graph_limits :: graph_execution_limits where
  "sample_graph_limits = \<lparr>gl_maximum_supersteps = Superstep 4, gl_maximum_parallelism = 2\<rparr>"

definition sample_entries :: ready_nodes where "sample_entries = ReadyNodes [NodeId ''pay'', NodeId ''ship'']"

definition sample_flow :: compiled_graph where
  "sample_flow = compiled_from (gr_identity sample_graph) sample_schema sample_schema sample_schema sample_schema sample_reducer_reference
     sample_entries [sample_end, sample_work ''pay'', sample_work ''ship''] sample_graph_limits (Sha256 ''0'')"

lemma sample_flow_compiles:
  "graph_compile sample_graph_crypto (gr_identity sample_graph) sample_schema sample_schema sample_schema sample_schema
     sample_reducer_reference sample_entries [sample_end, sample_work ''pay'', sample_work ''ship''] sample_graph_limits = Inr sample_flow"
proof -
  let ?ns = "[sample_end, sample_work ''pay'', sample_work ''ship'']"
  have edge: "node_edge (set ?ns) (NodeId ''pay'') (NodeId ''end'')" "node_edge (set ?ns) (NodeId ''ship'') (NodeId ''end'')"
    by (auto simp: node_edge_def sample_work_def successor_sets_def)
  have "\<forall>n\<in>set ?ns. \<exists>e\<in>set (ready_list sample_entries). (node_edge (set ?ns))\<^sup>*\<^sup>* e (gn_node_id n)"
    using edge by (auto simp: sample_entries_def sample_work_def sample_end_def)
  moreover have "\<forall>n\<in>set ?ns. reaches_boundary (set ?ns) (gn_node_id n)"
    using edge by (auto simp: reaches_boundary_def is_boundary_def sample_work_def sample_end_def)
  ultimately have "sound_graph ?ns sample_entries sample_graph_limits"
    by (auto simp: sound_graph_def sample_entries_def sample_graph_limits_def sample_work_def sample_end_def successor_sets_def
        MAX_NODES_def READY_MAX_LEN_def)
  then show ?thesis by (simp add: graph_compile_iff sample_graph_crypto_def sample_flow_def)
qed

definition sample_schemas :: graph_schema_validator where "sample_schemas _ _ = Some (Inr ())"

definition sample_reducer :: graph_reducer where
  "sample_reducer = \<lparr>rd_reference = sample_reducer_reference,
     rd_reduce = (\<lambda>d us. Some (Inr (JInt (int (length us)))))\<rparr>"

definition sample_flow_state :: "int \<Rightarrow> checkpoint_state" where
  "sample_flow_state n = \<lparr>cs_schema = sample_schema, cs_data = JInt n, cs_digest = Sha256 ''0''\<rparr>"

definition sample_start :: checkpoint where
  "sample_start = \<lparr>cp_tenant_id = TenantId ''acme'', cp_run_id = RunId 7, cp_checkpoint_id = CheckpointId 1,
     cp_superstep = Superstep 0, cp_graph = compiled_reference sample_flow, cp_state = sample_flow_state 0,
     cp_ready_nodes = sample_entries, cp_parent = None, cp_intent_digest = Sha256 ''0'', cp_journal_head = sample_journal 1,
     cp_digest = Sha256 ''0''\<rparr>"

definition sample_result :: "string \<Rightarrow> u64 \<Rightarrow> pending_node_result" where
  "sample_result n k =
     \<lparr>pr_intent = \<lparr>pi_activation = \<lparr>na_base_checkpoint = checkpoint_head_of sample_start, na_graph_namespace = namespace_root,
          na_node_id = NodeId n, na_input_digest = Sha256 ''0''\<rparr>,
        pi_state_change = Update \<lparr>nu_schema = sample_schema, nu_data = JInt 1, nu_digest = Sha256 ''0''\<rparr>,
        pi_control = ControlContinue, pi_bindings = NodeInvocationBindings [], pi_child_join = None, pi_intent_digest = Sha256 ''0''\<rparr>,
      pr_fence = \<lparr>fence_tenant_id = TenantId ''acme'', fence_run_id = RunId 7, fence_attempt_id = AttemptId 1, fence_epoch = FencingEpoch 1\<rparr>,
      pr_journal_head = sample_journal k, pr_digest = Sha256 ''0''\<rparr>"

definition sample_successor :: checkpoint_write where
  "sample_successor = \<lparr>cw_tenant_id = TenantId ''acme'', cw_run_id = RunId 7, cw_checkpoint_id = CheckpointId 2,
     cw_superstep = Superstep 1, cw_graph = compiled_reference sample_flow, cw_state = sample_flow_state 2,
     cw_ready_nodes = ReadyNodes [NodeId ''end''], cw_parent = Some (checkpoint_head_of sample_start), cw_intent_digest = Sha256 ''0''\<rparr>"

definition sample_plan :: graph_barrier_plan where
  "sample_plan = \<lparr>bp_barrier = \<lparr>cb_base_checkpoint = checkpoint_head_of sample_start, cb_base_ready_nodes = sample_entries,
     cb_result_heads = BarrierResultHeads [result_head (sample_result ''pay'' 3), result_head (sample_result ''ship'' 2)],
     cb_successor = sample_successor, cb_intent_digest = Sha256 ''0''\<rparr>, bp_disposition = DispositionContinue\<rparr>"

lemma sample_plans:
  "plan_barrier sample_barrier_crypto sample_schemas sample_reducer sample_flow sample_start
     [sample_result ''ship'' 2, sample_result ''pay'' 3] (CheckpointId 2) = Inr sample_plan"
  by code_simp

theorem plan_order_irrelevant_witness:
  "plan_barrier sample_barrier_crypto sample_schemas sample_reducer sample_flow sample_start
     [sample_result ''pay'' 3, sample_result ''ship'' 2] (CheckpointId 2) = Inr sample_plan"
  by (rule plan_order_irrelevant [THEN iffD1, OF _ sample_plans]) simp

theorem plan_step_witness:
  "unat (superstep_get (cw_superstep (cb_successor (bp_barrier sample_plan)))) = Suc (unat (superstep_get (cp_superstep sample_start)))"
  using plan_step [OF sample_plans] unfolding Let_def by blast

definition sample_next :: checkpoint where
  "sample_next = \<lparr>cp_tenant_id = TenantId ''acme'', cp_run_id = RunId 7, cp_checkpoint_id = CheckpointId 2,
     cp_superstep = Superstep 1, cp_graph = compiled_reference sample_flow, cp_state = sample_flow_state 2,
     cp_ready_nodes = ReadyNodes [NodeId ''end''], cp_parent = Some (checkpoint_head_of sample_start),
     cp_intent_digest = Sha256 ''0'', cp_journal_head = sample_journal 4, cp_digest = Sha256 ''0''\<rparr>"

lemma sample_flow_run: "graph_run sample_barrier_crypto sample_schemas sample_reducer sample_flow [sample_next, sample_start]"
proof (rule graph_run.step)
  show "graph_run sample_barrier_crypto sample_schemas sample_reducer sample_flow [sample_start]"
  proof (rule graph_run.start)
    show "state_new sample_barrier_crypto (cg_state_schema sample_flow) (JInt 0) = Inr (sample_flow_state 0)" by code_simp
    show "ready_try_new [NodeId ''ship'', NodeId ''pay''] = Inr (cg_entry_nodes sample_flow)" by code_simp
    show "write_initial sample_barrier_crypto (TenantId ''acme'') (RunId 7) (CheckpointId 1) (compiled_reference sample_flow)
        (sample_flow_state 0) (cg_entry_nodes sample_flow) = Inr (write_intent sample_start)" by code_simp
    show "checkpoint_commit sample_barrier_crypto (write_intent sample_start) (sample_journal 1) = Inr sample_start" by code_simp
    show "journal_wf (sample_journal 1)" by code_simp
  qed
  show "plan_barrier sample_barrier_crypto sample_schemas sample_reducer sample_flow sample_start
     [sample_result ''ship'' 2, sample_result ''pay'' 3] (CheckpointId 2) = Inr sample_plan" by (rule sample_plans)
  show "checkpoint_commit sample_barrier_crypto (cb_successor (bp_barrier sample_plan)) (sample_journal 4) = Inr sample_next" by code_simp
  show "journal_wf (sample_journal 4)" by code_simp
qed

theorem run_bounded_witness:
  "history sample_barrier_crypto [sample_next, sample_start] \<and>
   length [sample_start] \<le> unat (superstep_get (gl_maximum_supersteps sample_graph_limits))"
  using run_bounded [OF sample_flow_compiles sample_flow_run] by simp

end
