(* ===== verification/Journal.thy ===== *)
theory Journal
  imports NodeResult
begin

text \<open>
  The event journal of a run (\<open>crates/stateknot-core/src/journal.rs\<close>): append intents with their source, the optimistic
  expectation of an append, committed events with their checksum chain, and the streaming verifier.
  The verifier accepts exactly the sequences that committing append after append produces, and such a
  sequence is contiguous from one, within one tenant and run, and monotone in time.
\<close>

section \<open>Event kinds\<close>

datatype journal_event_kind_error =
  KindEmpty
| KindTooLong nat nat
| KindInvalidStart
| KindInvalidByte nat
| KindNonCanonicalSeparator nat

definition EVENT_KIND_MAX_LEN :: nat where "EVENT_KIND_MAX_LEN = 96"

definition check_kind_byte :: "string \<Rightarrow> nat \<Rightarrow> (journal_event_kind_error, unit) result" where
  "check_kind_byte v index =
     (let byte = v ! index
      in reject_first
           [(\<not> is_ascii_lowercase byte \<and> \<not> is_ascii_digit_char byte \<and> byte \<noteq> CHR ''-'', KindInvalidByte index),
            (byte = CHR ''-'' \<and> (index + 1 = length v \<or> index > 0 \<and> v ! (index - 1) = CHR ''-''), KindNonCanonicalSeparator index)])"

definition validate_event_kind :: "string \<Rightarrow> (journal_event_kind_error, unit) result" where
  "validate_event_kind v =
     and_then (reject_first
       [(v = [], KindEmpty),
        (length v > EVENT_KIND_MAX_LEN, KindTooLong EVENT_KIND_MAX_LEN (length v)),
        (v \<noteq> [] \<and> \<not> is_ascii_lowercase (v ! 0), KindInvalidStart)]) (\<lambda>_.
     try_fold (\<lambda>_ index. check_kind_byte v index) () [0..<length v])"

section \<open>Intents\<close>

datatype journal_event_source = SourceControlPlane | SourceWorker run_fence

fun source_worker_fence :: "journal_event_source \<Rightarrow> run_fence option" where
  "source_worker_fence (SourceWorker f) = Some f"
| "source_worker_fence SourceControlPlane = None"

record journal_event_intent =
  ji_tenant_id :: tenant_id
  ji_run_id :: run_id
  ji_event_id :: event_id
  ji_source :: journal_event_source
  ji_payload :: journal_payload
  ji_intent_digest :: digest

datatype journal_intent_error =
  IntentFenceTenantMismatch
| IntentFenceRunMismatch
| IntentCanonicalSerialization
| JournalIntentDigestMismatch

datatype journal_preimage =
  IntentDigestWire tenant_id run_id event_id journal_event_source digest
| EventDigestWire tenant_id run_id journal_sequence event_id timestamp digest digest "digest option"

record journal_crypto = crypto +
  cr_journal :: "journal_preimage \<Rightarrow> string option"

definition JOURNAL_INTENT_DIGEST_DOMAIN :: string where
  "JOURNAL_INTENT_DIGEST_DOMAIN = ''stateknot-journal-intent-v1'' @ [CHR 0x00]"

definition JOURNAL_EVENT_DIGEST_DOMAIN :: string where
  "JOURNAL_EVENT_DIGEST_DOMAIN = ''stateknot-journal-event-v1'' @ [CHR 0x00]"

definition journal_intent_digest ::
  "'z journal_crypto_scheme \<Rightarrow> tenant_id \<Rightarrow> run_id \<Rightarrow> event_id \<Rightarrow> journal_event_source \<Rightarrow> digest \<Rightarrow> 'e \<Rightarrow> ('e, digest) result" where
  "journal_intent_digest x t r i s d e =
     domain_digest x JOURNAL_INTENT_DIGEST_DOMAIN (cr_journal x (IntentDigestWire t r i s d)) e"

definition validate_source_scope ::
  "tenant_id \<Rightarrow> run_id \<Rightarrow> journal_event_source \<Rightarrow> (journal_intent_error, unit) result" where
  "validate_source_scope t r s =
     (case s of
        SourceControlPlane \<Rightarrow> Inr ()
      | SourceWorker f \<Rightarrow> reject_first [(fence_tenant_id f \<noteq> t, IntentFenceTenantMismatch), (fence_run_id f \<noteq> r, IntentFenceRunMismatch)])"

definition intent_from_parts ::
  "'z journal_crypto_scheme \<Rightarrow> tenant_id \<Rightarrow> run_id \<Rightarrow> event_id \<Rightarrow> journal_event_source \<Rightarrow> journal_payload \<Rightarrow>
     (journal_intent_error, journal_event_intent) result" where
  "intent_from_parts x t r i s p =
     and_then (validate_source_scope t r s) (\<lambda>_.
     and_then (journal_intent_digest x t r i s (jp_digest p) IntentCanonicalSerialization) (\<lambda>d.
     Inr \<lparr>ji_tenant_id = t, ji_run_id = r, ji_event_id = i, ji_source = s, ji_payload = p, ji_intent_digest = d\<rparr>))"

definition intent_control_plane ::
  "'z journal_crypto_scheme \<Rightarrow> tenant_id \<Rightarrow> run_id \<Rightarrow> event_id \<Rightarrow> journal_payload \<Rightarrow>
     (journal_intent_error, journal_event_intent) result" where
  "intent_control_plane x t r i p = intent_from_parts x t r i SourceControlPlane p"

definition intent_worker ::
  "'z journal_crypto_scheme \<Rightarrow> tenant_id \<Rightarrow> run_id \<Rightarrow> event_id \<Rightarrow> run_fence \<Rightarrow> journal_payload \<Rightarrow>
     (journal_intent_error, journal_event_intent) result" where
  "intent_worker x t r i f p = intent_from_parts x t r i (SourceWorker f) p"

definition intent_from_wire ::
  "'z journal_crypto_scheme \<Rightarrow> journal_event_intent \<Rightarrow> (journal_intent_error, journal_event_intent) result" where
  "intent_from_wire x w =
     and_then (intent_from_parts x (ji_tenant_id w) (ji_run_id w) (ji_event_id w) (ji_source w) (ji_payload w)) (\<lambda>i.
     and_then (reject_if (ji_intent_digest i \<noteq> ji_intent_digest w) JournalIntentDigestMismatch) (\<lambda>_. Inr i))"

section \<open>Appends\<close>

datatype journal_expectation = ExpectEmpty | ExpectExact journal_head

fun expectation_head :: "journal_expectation \<Rightarrow> journal_head option" where
  "expectation_head ExpectEmpty = None"
| "expectation_head (ExpectExact h) = Some h"

record journal_append =
  ja_expectation :: journal_expectation
  ja_intent :: journal_event_intent

datatype journal_append_error = AppendHeadTenantMismatch | AppendHeadRunMismatch

definition append_new ::
  "journal_expectation \<Rightarrow> journal_event_intent \<Rightarrow> (journal_append_error, journal_append) result" where
  "append_new e i =
     and_then (case expectation_head e of
         None \<Rightarrow> Inr ()
       | Some h \<Rightarrow> reject_first
           [(jh_tenant_id h \<noteq> ji_tenant_id i, AppendHeadTenantMismatch), (jh_run_id h \<noteq> ji_run_id i, AppendHeadRunMismatch)]) (\<lambda>_.
     Inr \<lparr>ja_expectation = e, ja_intent = i\<rparr>)"

datatype journal_authority_error = ControlPlaneSource | AuthorityLease run_lease_validation_error

definition validate_worker_lease ::
  "journal_append \<Rightarrow> run_lease \<Rightarrow> timestamp \<Rightarrow> (journal_authority_error, unit) result" where
  "validate_worker_lease a l observed_at =
     and_then (ok_or (source_worker_fence (ji_source (ja_intent a))) ControlPlaneSource) (\<lambda>f.
     map_err AuthorityLease (validate_write l f observed_at))"

section \<open>Events\<close>

record journal_event =
  je_tenant_id :: tenant_id
  je_run_id :: run_id
  je_sequence :: journal_sequence
  je_event_id :: event_id
  je_recorded_at :: timestamp
  je_source :: journal_event_source
  je_payload :: journal_payload
  je_payload_digest :: digest
  je_intent_digest :: digest
  je_previous_digest :: "digest option"
  je_digest :: digest

datatype journal_event_error =
  EventSequenceOverflow
| EventClockRegression timestamp timestamp
| UnexpectedPreviousDigest
| MissingPreviousDigest
| EventPayloadDigestMismatch
| EventIntentDigestMismatch
| EventDigestMismatch
| EventIntent journal_intent_error
| EventCanonicalSerialization

definition sequence_FIRST :: journal_sequence where "sequence_FIRST = JournalSequence 1"

definition compute_event_digest :: "'z journal_crypto_scheme \<Rightarrow> journal_preimage \<Rightarrow> (journal_event_error, digest) result" where
  "compute_event_digest x w = domain_digest x JOURNAL_EVENT_DIGEST_DOMAIN (cr_journal x w) EventCanonicalSerialization"

definition event_wire :: "journal_event \<Rightarrow> journal_preimage" where
  "event_wire e = EventDigestWire (je_tenant_id e) (je_run_id e) (je_sequence e) (je_event_id e) (je_recorded_at e)
     (je_payload_digest e) (je_intent_digest e) (je_previous_digest e)"

definition event_validate :: "'z journal_crypto_scheme \<Rightarrow> journal_event \<Rightarrow> (journal_event_error, unit) result" where
  "event_validate x e =
     and_then (if je_sequence e = sequence_FIRST then reject_if (je_previous_digest e \<noteq> None) UnexpectedPreviousDigest
       else reject_if (je_previous_digest e = None) MissingPreviousDigest) (\<lambda>_.
     and_then (reject_if (jp_digest (je_payload e) \<noteq> je_payload_digest e) EventPayloadDigestMismatch) (\<lambda>_.
     and_then (map_err EventIntent (validate_source_scope (je_tenant_id e) (je_run_id e) (je_source e))) (\<lambda>_.
     and_then (journal_intent_digest x (je_tenant_id e) (je_run_id e) (je_event_id e) (je_source e) (je_payload_digest e)
       EventCanonicalSerialization) (\<lambda>expected_intent.
     and_then (reject_if (expected_intent \<noteq> je_intent_digest e) EventIntentDigestMismatch) (\<lambda>_.
     and_then (compute_event_digest x (event_wire e)) (\<lambda>expected_event.
     reject_if (expected_event \<noteq> je_digest e) EventDigestMismatch))))))"

definition event_restore ::
  "'z journal_crypto_scheme \<Rightarrow> journal_event_intent \<Rightarrow> journal_sequence \<Rightarrow> timestamp \<Rightarrow> digest option \<Rightarrow> digest \<Rightarrow>
     (journal_event_error, journal_event) result" where
  "event_restore x i sequence recorded_at previous digest =
     (let event = \<lparr>je_tenant_id = ji_tenant_id i, je_run_id = ji_run_id i, je_sequence = sequence, je_event_id = ji_event_id i,
        je_recorded_at = recorded_at, je_source = ji_source i, je_payload = ji_payload i,
        je_payload_digest = jp_digest (ji_payload i), je_intent_digest = ji_intent_digest i, je_previous_digest = previous,
        je_digest = digest\<rparr>
      in and_then (event_validate x event) (\<lambda>_. Inr event))"

definition event_commit ::
  "'z journal_crypto_scheme \<Rightarrow> journal_append \<Rightarrow> timestamp \<Rightarrow> (journal_event_error, journal_event) result" where
  "event_commit x a recorded_at =
     and_then (case ja_expectation a of
         ExpectEmpty \<Rightarrow> Inr (sequence_FIRST, None)
       | ExpectExact h \<Rightarrow>
           and_then (reject_if (recorded_at < jh_recorded_at h) (EventClockRegression (jh_recorded_at h) recorded_at)) (\<lambda>_.
           and_then (ok_or (sequence_checked_next (jh_sequence h)) EventSequenceOverflow) (\<lambda>sequence.
           Inr (sequence, Some (jh_digest h))))) (\<lambda>(sequence, previous).
     let i = ja_intent a; payload_digest = jp_digest (ji_payload i)
     in and_then (compute_event_digest x (EventDigestWire (ji_tenant_id i) (ji_run_id i) sequence (ji_event_id i) recorded_at
          payload_digest (ji_intent_digest i) previous)) (\<lambda>digest.
        Inr \<lparr>je_tenant_id = ji_tenant_id i, je_run_id = ji_run_id i, je_sequence = sequence, je_event_id = ji_event_id i,
          je_recorded_at = recorded_at, je_source = ji_source i, je_payload = ji_payload i, je_payload_digest = payload_digest,
          je_intent_digest = ji_intent_digest i, je_previous_digest = previous, je_digest = digest\<rparr>))"

definition event_head :: "journal_event \<Rightarrow> journal_head" where
  "event_head e = \<lparr>jh_tenant_id = je_tenant_id e, jh_run_id = je_run_id e, jh_sequence = je_sequence e, jh_event_id = je_event_id e,
     jh_recorded_at = je_recorded_at e, jh_digest = je_digest e\<rparr>"

definition matches_intent :: "journal_event \<Rightarrow> journal_event_intent \<Rightarrow> bool" where
  "matches_intent e i \<longleftrightarrow>
     je_tenant_id e = ji_tenant_id i \<and> je_run_id e = ji_run_id i \<and> je_event_id e = ji_event_id i \<and>
     je_source e = ji_source i \<and> je_payload e = ji_payload i \<and> je_intent_digest e = ji_intent_digest i"

section \<open>The chain verifier\<close>

record chain_verifier =
  cv_head :: "journal_head option"

definition chain_new :: chain_verifier where "chain_new = \<lparr>cv_head = None\<rparr>"

definition chain_after :: "journal_head \<Rightarrow> chain_verifier" where "chain_after h = \<lparr>cv_head = Some h\<rparr>"

datatype journal_chain_error =
  ChainEvent journal_event_error
| FirstSequence journal_sequence
| ChainTenantMismatch
| ChainRunMismatch
| ChainSequenceOverflow
| SequenceGap journal_sequence journal_sequence
| PreviousDigestMismatch
| ChainClockRegression timestamp timestamp

definition chain_verify_next ::
  "'z journal_crypto_scheme \<Rightarrow> chain_verifier \<Rightarrow> journal_event \<Rightarrow> (journal_chain_error, chain_verifier) result" where
  "chain_verify_next x v e =
     and_then (map_err ChainEvent (event_validate x e)) (\<lambda>_.
     and_then (case cv_head v of
         None \<Rightarrow> reject_if (je_sequence e \<noteq> sequence_FIRST) (FirstSequence (je_sequence e))
       | Some h \<Rightarrow>
           and_then (reject_if (je_tenant_id e \<noteq> jh_tenant_id h) ChainTenantMismatch) (\<lambda>_.
           and_then (reject_if (je_run_id e \<noteq> jh_run_id h) ChainRunMismatch) (\<lambda>_.
           and_then (ok_or (sequence_checked_next (jh_sequence h)) ChainSequenceOverflow) (\<lambda>expected.
           and_then (reject_if (je_sequence e \<noteq> expected) (SequenceGap expected (je_sequence e))) (\<lambda>_.
           and_then (reject_if (je_previous_digest e \<noteq> Some (jh_digest h)) PreviousDigestMismatch) (\<lambda>_.
           reject_if (je_recorded_at e < jh_recorded_at h) (ChainClockRegression (jh_recorded_at h) (je_recorded_at e)))))))) (\<lambda>_.
     Inr (v\<lparr>cv_head := Some (event_head e)\<rparr>)))"

section \<open>Committed journals\<close>

text \<open>The expectation a writer states when the durable head is \<open>h\<close>.\<close>

definition expecting :: "journal_head option \<Rightarrow> journal_expectation" where
  "expecting h = (case h of None \<Rightarrow> ExpectEmpty | Some j \<Rightarrow> ExpectExact j)"

text \<open>\<open>appends x h es k\<close>: starting at the head \<open>h\<close>, committing appends one after another gives the events \<open>es\<close> and the head \<open>k\<close>.\<close>

inductive appends ::
  "'z journal_crypto_scheme \<Rightarrow> journal_head option \<Rightarrow> journal_event list \<Rightarrow> journal_head option \<Rightarrow> bool" for x where
  empty: "appends x h [] h"
| append: "intent_from_parts x t r i s p = Inr intent \<Longrightarrow> append_new (expecting h) intent = Inr a \<Longrightarrow>
    event_commit x a recorded_at = Inr e \<Longrightarrow> appends x (Some (event_head e)) es k \<Longrightarrow> appends x h (e # es) k"

inductive_cases appends_NilE: "appends x h [] k"
inductive_cases appends_ConsE: "appends x h (e # es) k"

definition started :: "journal_head option \<Rightarrow> bool" where
  "started h \<longleftrightarrow> (case h of None \<Rightarrow> True | Some j \<Rightarrow> sequence_get (jh_sequence j) \<noteq> 0 \<and> sequence_get (jh_sequence j) \<le> MAX_DATABASE_ORDINAL)"

text \<open>What a head allows as the next event.\<close>

definition succeeds :: "journal_head option \<Rightarrow> journal_event \<Rightarrow> bool" where
  "succeeds h e \<longleftrightarrow>
     (case h of
        None \<Rightarrow> je_sequence e = sequence_FIRST \<and> je_previous_digest e = None
      | Some j \<Rightarrow> je_tenant_id e = jh_tenant_id j \<and> je_run_id e = jh_run_id j \<and>
          sequence_checked_next (jh_sequence j) = Some (je_sequence e) \<and> je_previous_digest e = Some (jh_digest j) \<and>
          jh_recorded_at j \<le> je_recorded_at e)"

definition event_intent :: "journal_event \<Rightarrow> journal_event_intent" where
  "event_intent e = \<lparr>ji_tenant_id = je_tenant_id e, ji_run_id = je_run_id e, ji_event_id = je_event_id e, ji_source = je_source e,
     ji_payload = je_payload e, ji_intent_digest = je_intent_digest e\<rparr>"

definition sealed :: "'z journal_crypto_scheme \<Rightarrow> journal_event \<Rightarrow> bool" where
  "sealed x e \<longleftrightarrow>
     je_payload_digest e = jp_digest (je_payload e) \<and>
     intent_from_parts x (je_tenant_id e) (je_run_id e) (je_event_id e) (je_source e) (je_payload e) = Inr (event_intent e) \<and>
     compute_event_digest x (event_wire e) = Inr (je_digest e)"

lemma event_validate_iff:
  "event_validate x e = Inr u \<longleftrightarrow> (je_sequence e = sequence_FIRST \<longleftrightarrow> je_previous_digest e = None) \<and> sealed x e"
  by (auto simp: event_validate_def sealed_def intent_from_parts_def event_intent_def journal_intent_digest_def
      compute_event_digest_def result_simps)

lemma sequence_next_not_first:
  assumes "sequence_checked_next s = Some n" and "sequence_get s \<noteq> 0" and "sequence_get s \<le> MAX_DATABASE_ORDINAL"
  shows "n \<noteq> sequence_FIRST \<and> sequence_get n \<noteq> 0 \<and> sequence_get n \<le> MAX_DATABASE_ORDINAL \<and>
    unat (sequence_get n) = Suc (unat (sequence_get s))"
proof -
  have lt: "unat (sequence_get s) < 2 ^ 63 - 1"
    using assms by (auto simp: sequence_checked_next_def MAX_DATABASE_ORDINAL_def word_le_nat_alt word_unat_eq_iff split: if_splits)
  then have u: "unat (sequence_get s + 1) = Suc (unat (sequence_get s))" by (simp add: unat_word_ariths)
  have n: "n = JournalSequence (sequence_get s + 1)" using assms(1) by (auto simp: sequence_checked_next_def split: if_splits)
  have "unat (sequence_get s) \<noteq> 0" using assms(2) by (simp add: unat_eq_zero)
  then show ?thesis using u lt unfolding n
    by (auto simp: sequence_FIRST_def MAX_DATABASE_ORDINAL_def word_le_nat_alt word_unat_eq_iff)
qed

lemma chain_verifier_update: "v\<lparr>cv_head := h\<rparr> = w \<longleftrightarrow> cv_head w = h" for v w :: chain_verifier
  by (cases v; cases w) auto

lemma chain_verify_next_iff:
  assumes "started (cv_head v)"
  shows "chain_verify_next x v e = Inr w \<longleftrightarrow> sealed x e \<and> succeeds (cv_head v) e \<and> cv_head w = Some (event_head e)"
proof (cases "cv_head v")
  case None
  then show ?thesis
    by (auto simp: chain_verify_next_def event_validate_iff succeeds_def chain_verifier_update result_simps)
next
  case (Some h)
  have "n \<noteq> sequence_FIRST" if "sequence_checked_next (jh_sequence h) = Some n" for n
    using sequence_next_not_first [OF that] assms Some by (simp add: started_def)
  then show ?thesis using Some
    by (auto simp: chain_verify_next_def event_validate_iff succeeds_def chain_verifier_update result_simps not_less)
qed

lemma commit_iff:
  "(\<exists>t r i s p intent a recorded_at. intent_from_parts x t r i s p = Inr intent \<and> append_new (expecting h) intent = Inr a \<and>
     event_commit x a recorded_at = Inr e) \<longleftrightarrow> sealed x e \<and> succeeds h e"
proof
  assume "\<exists>t r i s p intent a recorded_at. intent_from_parts x t r i s p = Inr intent \<and> append_new (expecting h) intent = Inr a \<and>
     event_commit x a recorded_at = Inr e"
  then show "sealed x e \<and> succeeds h e"
    by (cases h) (auto simp: expecting_def append_new_def event_commit_def intent_from_parts_def sealed_def succeeds_def
        event_intent_def event_wire_def compute_event_digest_def journal_intent_digest_def Let_def result_simps not_less)
next
  assume a: "sealed x e \<and> succeeds h e"
  then have "append_new (expecting h) (event_intent e) = Inr \<lparr>ja_expectation = expecting h, ja_intent = event_intent e\<rparr>"
    by (cases h) (auto simp: append_new_def expecting_def succeeds_def event_intent_def result_simps)
  moreover have "event_commit x \<lparr>ja_expectation = expecting h, ja_intent = event_intent e\<rparr> (je_recorded_at e) = Inr e"
    using a by (cases h; cases e) (auto simp: event_commit_def expecting_def succeeds_def sealed_def event_intent_def
        event_wire_def Let_def not_less result_simps)
  ultimately show "\<exists>t r i s p intent a recorded_at. intent_from_parts x t r i s p = Inr intent \<and>
     append_new (expecting h) intent = Inr a \<and> event_commit x a recorded_at = Inr e"
    using a unfolding sealed_def by blast
qed

lemma started_head:
  assumes "started h" and "succeeds h e"
  shows "started (Some (event_head e))"
proof (cases h)
  case None
  then show ?thesis using assms(2) by (simp add: succeeds_def started_def event_head_def sequence_FIRST_def MAX_DATABASE_ORDINAL_def)
next
  case (Some j)
  then have "sequence_checked_next (jh_sequence j) = Some (je_sequence e)" using assms(2) by (simp add: succeeds_def)
  from sequence_next_not_first [OF this] show ?thesis using assms(1) Some by (simp add: started_def event_head_def)
qed

lemma appends_Cons_iff:
  "appends x h (e # es) k \<longleftrightarrow> sealed x e \<and> succeeds h e \<and> appends x (Some (event_head e)) es k"
proof -
  have "appends x h (e # es) k \<longleftrightarrow>
      (\<exists>t r i s p intent a recorded_at. intent_from_parts x t r i s p = Inr intent \<and> append_new (expecting h) intent = Inr a \<and>
         event_commit x a recorded_at = Inr e) \<and> appends x (Some (event_head e)) es k"
    by (blast elim: appends_ConsE intro: appends.append)
  then show ?thesis unfolding commit_iff by simp
qed

lemma verified_iff:
  "started h \<Longrightarrow> try_fold (chain_verify_next x) \<lparr>cv_head = h\<rparr> es = Inr w \<longleftrightarrow> appends x h es (cv_head w)"
proof (induction es arbitrary: h)
  case Nil
  then show ?case by (cases w) (auto elim: appends_NilE intro: appends.empty)
next
  case (Cons e es)
  have "try_fold (chain_verify_next x) \<lparr>cv_head = h\<rparr> (e # es) = Inr w \<longleftrightarrow>
      sealed x e \<and> succeeds h e \<and> try_fold (chain_verify_next x) \<lparr>cv_head = Some (event_head e)\<rparr> es = Inr w"
    using chain_verify_next_iff [of "\<lparr>cv_head = h\<rparr>" x e] Cons.prems
    by (auto simp: and_then_Inr_iff) (metis (full_types) chain_verifier.cases chain_verifier.select_convs(1))+
  then show ?case
    unfolding appends_Cons_iff using Cons.IH [of "Some (event_head e)"] started_head [OF Cons.prems] by blast
qed

text \<open>
  C9. The journal verifier is sound and complete: starting empty, it accepts a sequence of events exactly
  when the sequence is what committing append after append produces, each append expecting the head
  of the event before it, and it ends at the head of the last event.
\<close>

theorem journal_verifier_exact:
  "try_fold (chain_verify_next x) chain_new es = Inr w \<longleftrightarrow> appends x None es (cv_head w)"
  using verified_iff [of None x es w] by (simp add: chain_new_def started_def)

lemma appends_sequences:
  assumes "appends x h es k" and "started h"
  shows "map (\<lambda>e. unat (sequence_get (je_sequence e))) es =
      [Suc (case h of None \<Rightarrow> 0 | Some j \<Rightarrow> unat (sequence_get (jh_sequence j))) ..<
       Suc (case h of None \<Rightarrow> 0 | Some j \<Rightarrow> unat (sequence_get (jh_sequence j))) + length es]"
  using assms
proof (induction es arbitrary: h)
  case (Cons e es)
  let ?n = "case h of None \<Rightarrow> 0 | Some j \<Rightarrow> unat (sequence_get (jh_sequence j))"
  have s: "succeeds h e" "appends x (Some (event_head e)) es k" using Cons.prems(1) by (simp_all add: appends_Cons_iff)
  have n: "unat (sequence_get (je_sequence e)) = Suc ?n"
    using s(1) Cons.prems(2) sequence_next_not_first [of _ "je_sequence e"]
    by (cases h) (auto simp: succeeds_def started_def sequence_FIRST_def)
  have "map (\<lambda>e. unat (sequence_get (je_sequence e))) es = [Suc (Suc ?n)..<Suc (Suc ?n) + length es]"
    using Cons.IH [OF s(2) started_head [OF Cons.prems(2) s(1)]] n by (simp add: event_head_def del: upt_Suc)
  then show ?case using n by (simp add: upt_conv_Cons del: upt_Suc)
qed simp

lemma appends_after:
  "appends x (Some j) es k \<Longrightarrow>
     \<forall>e\<in>set es. jh_recorded_at j \<le> je_recorded_at e \<and> je_tenant_id e = jh_tenant_id j \<and> je_run_id e = jh_run_id j"
proof (induction es arbitrary: j)
  case (Cons e es)
  have s: "succeeds (Some j) e" "appends x (Some (event_head e)) es k" using Cons.prems by (simp_all add: appends_Cons_iff)
  have "jh_recorded_at j \<le> je_recorded_at d \<and> je_tenant_id d = jh_tenant_id j \<and> je_run_id d = jh_run_id j" if "d \<in> set es" for d
    using Cons.IH [OF s(2)] that s(1) by (simp add: succeeds_def event_head_def) (meson order_trans)
  then show ?case using s(1) by (simp add: succeeds_def)
qed simp

lemma appends_ordered:
  "appends x h es k \<Longrightarrow> sorted (map je_recorded_at es) \<and>
     (\<forall>e\<in>set es. je_tenant_id e = je_tenant_id (hd es) \<and> je_run_id e = je_run_id (hd es))"
proof (induction es arbitrary: h)
  case (Cons e es)
  have s: "appends x (Some (event_head e)) es k" using Cons.prems by (simp add: appends_Cons_iff)
  show ?case using Cons.IH [OF s] appends_after [OF s] by (simp add: event_head_def)
qed simp

text \<open>
  C39. A journal that verifies has no gaps and no mixing: its events are numbered one, two, three and so
  on, all belong to one tenant and run, and their durable times never go back.
\<close>

theorem journal_contiguous:
  assumes "try_fold (chain_verify_next x) chain_new es = Inr w"
  shows "map (\<lambda>e. unat (sequence_get (je_sequence e))) es = [1..<Suc (length es)] \<and> sorted (map je_recorded_at es) \<and>
    list_all (\<lambda>e. je_tenant_id e = je_tenant_id (hd es) \<and> je_run_id e = je_run_id (hd es)) es"
proof -
  have "appends x None es (cv_head w)" using assms verified_iff [of None x es w] by (simp add: chain_new_def started_def)
  then show ?thesis using appends_sequences [of x None es] appends_ordered [of x None es "cv_head w"]
    by (simp add: started_def list_all_iff)
qed

definition sample_journal_crypto :: journal_crypto where
  "sample_journal_crypto = \<lparr>cr_canonicalize = (\<lambda>_. None), cr_sha256 = Sha256, cr_journal = (\<lambda>w. case w of
     IntentDigestWire _ _ i _ d \<Rightarrow> Some (as_bytes d)
   | EventDigestWire _ _ n _ _ _ d p \<Rightarrow> Some (char_of (unat (sequence_get n)) # as_bytes d))\<rparr>"

definition sample_event :: "u64 \<Rightarrow> digest option \<Rightarrow> journal_event" where
  "sample_event n previous =
     (let intent = Sha256 (JOURNAL_INTENT_DIGEST_DOMAIN @ ''p'')
      in \<lparr>je_tenant_id = TenantId ''acme'', je_run_id = RunId 7, je_sequence = JournalSequence n, je_event_id = EventId (ucast n),
          je_recorded_at = Timestamp (int (unat n)), je_source = SourceControlPlane,
          je_payload = \<lparr>jp_schema = sample_schema, jp_kind = ''run-started'', jp_data = JInt 1, jp_digest = Sha256 ''p''\<rparr>,
          je_payload_digest = Sha256 ''p'', je_intent_digest = intent, je_previous_digest = previous,
          je_digest = Sha256 (JOURNAL_EVENT_DIGEST_DOMAIN @ char_of (unat n) # as_bytes intent)\<rparr>)"

definition sample_events :: "journal_event list" where
  "sample_events = [sample_event 1 None, sample_event 2 (Some (je_digest (sample_event 1 None)))]"

lemma sample_events_verify:
  "try_fold (chain_verify_next sample_journal_crypto) chain_new sample_events = Inr \<lparr>cv_head = Some (event_head (last sample_events))\<rparr>"
  by code_simp

theorem journal_contiguous_witness:
  "map (\<lambda>e. unat (sequence_get (je_sequence e))) sample_events = [1..<Suc (length sample_events)]"
  using journal_contiguous [OF sample_events_verify] by blast

lemma commit_matches: "event_commit x a t = Inr e \<Longrightarrow> matches_intent e (ja_intent a)"
  by (auto simp: event_commit_def matches_intent_def Let_def result_simps)

lemma worker_lease_current:
  assumes "validate_worker_lease a l t = Inr u"
  shows "\<exists>f. ji_source (ja_intent a) = SourceWorker f \<and> validate_write l f t = Inr ()"
  using assms by (cases "ji_source (ja_intent a)") (auto simp: validate_worker_lease_def result_simps)

end
