(* ===== verification/Spec2Isabelle.thy ===== *)
theory Spec2Isabelle
  imports Reservation Lease Run FairTick ToolInvocation Planner Journal
begin

text \<open>
  A verification development of StateKnot, a durable runtime for agent graphs. Paths are relative to
  \<open>src/crates\<close>; \<open>core\<close> stands for \<open>stateknot-core/src\<close>, \<open>runtime\<close> for \<open>stateknot-runtime/src\<close> and
  \<open>store\<close> for \<open>stateknot-store-postgres/src\<close>.

  \<^bold>\<open>The program.\<close> A run of an agent executes a compiled graph. It is admitted with a finite budget, owned by
  one worker at a time under a lease with a fencing epoch, and proceeds in supersteps: the ready nodes of
  the current checkpoint execute, each leaves one immutable result, and a barrier turns the complete set
  of results into the next checkpoint. Tool calls of a node are records of their own with a retry policy.
  Everything a run does is an event of its journal, and checkpoints, tool records and events are chained
  by checksums. Tenants share the workers of a scheduler shard by a weighted fair cycle whose cursor is
  stored in the database.

  \<^bold>\<open>The model.\<close> A struct is a \<open>record\<close>, an enum a \<open>datatype\<close>, \<open>Result<T, E>\<close> a sum with the error on the left,
  so every early return of the source is a branch; the order of checks is that of the source. Machine
  integers are words of their width or the integers of the database with the conversions written out.
  A \<open>BTreeMap\<close> or \<open>BTreeSet\<close> is its ascending list. State is passed explicitly. Third-party code is an
  argument: SHA-256 and the RFC 8785 serializers are the fields of the records \<open>crypto\<close>,
  \<open>checkpoint_crypto\<close> and so on down to \<open>graph_crypto\<close>, \<open>barrier_crypto\<close> and \<open>journal_crypto\<close>; UUID inspection
  and the hash of the scheduler are \<open>externals\<close>; the schema registry and the reducer of an application are
  arguments of the planner, and a panic in them is a value.

  \<^bold>\<open>Theories.\<close>

  \<^item> \<open>Prelude\<close>: results and their simplification collections \<open>result_simps\<close> and \<open>ok_simps\<close>, loops that stop at
    the first error, checked arithmetic, ordered maps, binary search, bounded distinct collections.
  \<^item> \<open>Transitions\<close>: the locales of state machines with an invariant and a rank. \<open>Lease\<close>, \<open>Run\<close>, \<open>ToolInvocation\<close>
    and \<open>FairStore\<close> interpret them on their step relations.
  \<^item> \<open>Decimal\<close>, \<open>Time\<close>, \<open>Ids\<close>, \<open>Failure\<close>, \<open>Canonical\<close>: \<open>core/decimal.rs\<close>, \<open>time.rs\<close>, \<open>ids.rs\<close>, \<open>failure.rs\<close>,
    \<open>digest.rs\<close> and \<open>canonical.rs\<close>. Parsers accept exactly what the printers print; identifiers follow a
    segment grammar; the submission preimage is injective.
  \<^item> \<open>Accounting\<close>, \<open>Costs\<close>, \<open>BudgetLimits\<close>, \<open>BudgetUsage\<close>, \<open>Reservation\<close>: \<open>core/accounting.rs\<close>, \<open>budget.rs\<close> and
    \<open>budget_reservation.rs\<close>. The locale \<open>checked_count\<close> is the contract of the three counters and
    \<open>cost_ledger\<close> that of the two currency collections. Resolution gives the least stated ceiling,
    narrowing is exact, accumulation and evaluation are exact over the integers, and the capacity check
    admits reservations iff the exact totals fit. The functions \<open>limit_of\<close>, \<open>usage_of\<close> and \<open>remaining_of\<close>
    read the dimensions; currencies are no dimension and are stated separately each time.
  \<^item> \<open>Lease\<close>: \<open>core/lease.rs\<close>. Epochs grow with every handover, so a superseded fence never writes again.
  \<^item> \<open>Run\<close>: \<open>core/run.rs\<close>. \<open>run_apply\<close> is \<open>RunLifecycle::apply\<close>. It refines the status graph \<open>status_step\<close>, its
    acceptance condition is exact, terminal states absorb, cancellation wins, waits drain in any order,
    and every reachable snapshot restores.
  \<^item> \<open>FairScheduler\<close>, \<open>FairStore\<close>, \<open>FairTick\<close>: \<open>runtime/fair_scheduler.rs\<close> and the scheduler fairness transactions
    of \<open>store/store.rs\<close> on the two tables of migration 0014. The smooth weighted cycle serves every tenant
    its weight in every window; no slot is handed out twice and a retry gets its slot back, in all
    histories and at all clocks (\<open>store_step\<close>); a tick with lost answers moves the cursor at most once.
    \<open>fair_step\<close> is the same store while the clock is not behind a registration time, a condition the
    store does not check: outside of it, as is shown, a shard refuses every new slot.
  \<^item> \<open>Checkpoint\<close>, \<open>Journal\<close>: \<open>core/checkpoint.rs\<close> and \<open>journal.rs\<close>. The verifiers accept exactly the chains that
    commits produce; a head determines its lineage unless the hash collides.
  \<^item> \<open>Activation\<close>, \<open>ToolValues\<close>, \<open>ToolInvocation\<close>: \<open>core/tool_invocation.rs\<close>, \<open>tool.rs\<close> and the values of
    \<open>tool_runtime.rs\<close>. A write whose effect is or may be applied is never repeated unless it is idempotent;
    the history verifier is exact.
  \<^item> \<open>NodeResult\<close>, \<open>Barrier\<close>: \<open>core/node_result.rs\<close> and \<open>barrier.rs\<close>. A barrier holds one result for every ready
    node and no other.
  \<^item> \<open>Graph\<close>, \<open>GraphPaths\<close>: \<open>core/graph.rs\<close> and \<open>child_run_policy.rs\<close>. The compiler accepts exactly the graphs in
    which every node is reachable and can reach a wait or an end; delegation is acyclic and bounded.
  \<^item> \<open>Planner\<close>: \<open>GraphBarrierPlanner\<close> in \<open>core/graph.rs\<close>. Planning does not depend on the order of the results,
    every step is determined by the controls, and a run of a compiled graph is bounded.

  \<^bold>\<open>Bounds.\<close> No loop of the model needs fuel. The two searches of the graph compiler, the retry loop of a tick
  and the loops of the decimal printer and of binary search are \<open>function\<close>s or \<open>fun\<close>s with termination proofs, every other
  loop is structural. The bounds in the statements (256 reservations, 16 layers, 1024 ready nodes,
  32 levels of delegation, \<open>2 ^ 63 - 1\<close> for database ordinals) are constants of the sources.

  \<^bold>\<open>Relied on.\<close> Properties of checksums name what they need of the hash or the serializer as hypotheses, with
  an instance that satisfies them; no property assumes that SHA-256 is injective on all inputs. The
  well-formedness predicates \<open>budget_limits_wf\<close>, \<open>resolved_budget_wf\<close>, \<open>budget_usage_wf\<close>, \<open>reservation_wf\<close>,
  \<open>lease_wf\<close> and \<open>lifecycle_wf\<close> hold of what the validating constructors build. A database transaction is
  atomic; a reservation that waits for its row lock sees what others committed. Within one tick no
  other replica acts between two attempts.

  \<^bold>\<open>Not modelled.\<close> Serde and JSON schema glue, formatting of errors, and the bounded JSON reader of
  \<open>core/json.rs\<close>, a visitor over a third-party parser. Models, messages, content, artifacts, agents and
  authorizations (\<open>core/model*.rs\<close>, \<open>message.rs\<close>, \<open>content.rs\<close>, \<open>artifact.rs\<close>, \<open>agent*.rs\<close>,
  \<open>*_authorization.rs\<close>), descriptive records of which the models keep the identities they compare. Child
  runs beyond their policies, waits, outbox, node attempts and recovery records, which follow the
  pattern of the records modelled here. The rest of the PostgreSQL store, which is SQL executed by the
  database. The asynchronous drivers and services of the runtime, the protocol integrations, the
  artifact store, the test kit and the facade, which are concurrency of the executor and network I/O.
\<close>

end
